(* ===== verification/Prelude.thy ===== *)
theory Prelude
  imports Main "HOL-Library.Word"
begin

text \<open>
  Shared vocabulary of the development: the ways a piac function can fail, the result type
  \<open>res\<close> every fallible operation returns, its sequencing operator \<open>bindr\<close>, the model
  of \<open>assert\<close> (active only in builds without NDEBUG; the build files default to Release, where
  it is compiled out), and generic lemmas on lists and results.
\<close>

named_theorems res_simps \<open>evaluation of sequenced results\<close>
named_theorems str_simps \<open>evaluation of std::string operations\<close>

section \<open>Failures\<close>

text \<open>
  The outcomes that end a piac thread (an exception nobody catches, or a failed assertion).
    \<^item> \<open>StdOutOfRange\<close>: std::out_of_range, from a std::string or std::unordered_map member;
    \<^item> \<open>StdInvalidArgument\<close>: std::invalid_argument, from std::stoul or std::stoi;
    \<^item> \<open>AssertFail\<close>: a failed assert() of the sources;
    \<^item> \<open>MsgUnderrun\<close>: zmqpp::exception, a read past the last part of a message;
    \<^item> \<open>JsonAccess\<close>: a rapidjson accessor used on a value of another type or on a missing
      member (its documented precondition is violated);
    \<^item> \<open>ZmqError\<close>: any other zmqpp::exception that is not caught;
    \<^item> \<open>XapianError\<close>: a Xapian::Error thrown outside the try block meant to catch it;
    \<^item> \<open>WalletError\<close>: an exception of the wallet library;
    \<^item> \<open>NlohmannError\<close>: nlohmann::json::exception;
    \<^item> \<open>OlmError\<close>: mtx::crypto::olm_exception;
    \<^item> \<open>Blocked\<close>: no error of the code: the events the model is given end while the code still waits;
    \<^item> \<open>Undefined\<close>: the C++ operation has undefined behaviour on these operands.
\<close>

datatype error =
    StdOutOfRange
  | StdInvalidArgument
  | AssertFail
  | MsgUnderrun
  | JsonAccess
  | ZmqError
  | XapianError
  | WalletError
  | NlohmannError
  | OlmError
  | Blocked
  | Undefined

type_synonym 'a res = "error + 'a"

definition bindr :: "'a res \<Rightarrow> ('a \<Rightarrow> 'b res) \<Rightarrow> 'b res" where
  "bindr m f = (case m of Inl e \<Rightarrow> Inl e | Inr a \<Rightarrow> f a)"

lemma bindr_Inl [simp, res_simps]: "bindr (Inl e) f = Inl e"
  by (simp add: bindr_def)

lemma bindr_Inr [simp, res_simps]: "bindr (Inr a) f = f a"
  by (simp add: bindr_def)

lemma bindr_Inr_conv: "bindr m f = Inr b \<longleftrightarrow> (\<exists>a. m = Inr a \<and> f a = Inr b)"
  by (cases m) simp_all

lemma bindr_InrE [elim]:
  assumes "bindr m f = Inr b"
  obtains a where "m = Inr a" and "f a = Inr b"
  using assms by (auto simp: bindr_Inr_conv)

text \<open>\<open>cassert dbg c\<close> is \<open>assert( c )\<close> in a build with (\<open>dbg\<close>) or without assertions.\<close>

definition cassert :: "bool \<Rightarrow> bool \<Rightarrow> unit res" where
  "cassert dbg c = (if dbg \<and> \<not> c then Inl AssertFail else Inr ())"

lemma cassert_True [simp, res_simps]: "cassert dbg True = Inr ()"
  by (simp add: cassert_def)

lemma cassert_ndebug [simp, res_simps]: "cassert False c = Inr ()"
  by (simp add: cassert_def)

lemma cassert_Inr_conv: "cassert dbg c = Inr u \<longleftrightarrow> (dbg \<longrightarrow> c)"
  by (auto simp: cassert_def)

lemma cassert_Inl_conv: "cassert dbg c = Inl e \<longleftrightarrow> dbg \<and> \<not> c \<and> e = AssertFail"
  by (auto simp: cassert_def)

text \<open>A fallible function on every element, from the left.\<close>

fun mapr :: "('a \<Rightarrow> 'b res) \<Rightarrow> 'a list \<Rightarrow> 'b list res" where
  "mapr f [] = Inr []"
| "mapr f (x # xs) = bindr (f x) (\<lambda>y. bindr (mapr f xs) (\<lambda>ys. Inr (y # ys)))"

lemma mapr_Inr [simp]: "(\<And>x. x \<in> set xs \<Longrightarrow> f x = Inr (g x)) \<Longrightarrow> mapr f xs = Inr (map g xs)"
  by (induction xs) auto

lemma mapr_Inr_conv: "mapr f xs = Inr ys \<longleftrightarrow> list_all2 (\<lambda>x y. f x = Inr y) xs ys"
  by (induction xs arbitrary: ys) (auto simp: bindr_Inr_conv list_all2_Cons1)

section \<open>Unordered containers\<close>

text \<open>
  A std::unordered_set is a list without duplicates, one of its iteration orders; insertion of a
  new element extends the list. The properties are stated on the set of elements, and functions
  that iterate take the list as it is, so they hold for every order of the same elements.
\<close>

definition uset_insert :: "'a \<Rightarrow> 'a list \<Rightarrow> 'a list" where
  "uset_insert x xs = (if x \<in> set xs then xs else xs @ [x])"

definition uset_of :: "'a list \<Rightarrow> 'a list" where
  "uset_of xs = fold uset_insert xs []"

lemma set_uset_insert [simp]: "set (uset_insert x xs) = insert x (set xs)"
  by (auto simp: uset_insert_def)

lemma distinct_uset_insert [simp]: "distinct xs \<Longrightarrow> distinct (uset_insert x xs)"
  by (auto simp: uset_insert_def)

lemma uset_insert_not_Nil [simp]: "uset_insert x xs \<noteq> []"
  by (auto simp: uset_insert_def)

lemma set_fold_uset_insert [simp]: "set (fold uset_insert xs ys) = set xs \<union> set ys"
  by (induction xs arbitrary: ys) auto

lemma distinct_fold_uset_insert [simp]: "distinct ys \<Longrightarrow> distinct (fold uset_insert xs ys)"
  by (induction xs arbitrary: ys) auto

lemma set_uset_of [simp]: "set (uset_of xs) = set xs"
  by (simp add: uset_of_def)

lemma distinct_uset_of [simp]: "distinct (uset_of xs)"
  by (simp add: uset_of_def)

section \<open>Lists\<close>

lemma takeWhile_id_iff: "takeWhile P xs = xs \<longleftrightarrow> (\<forall>x\<in>set xs. P x)"
  by (induction xs) auto

lemma in_set_tlD: "x \<in> set (tl xs) \<Longrightarrow> x \<in> set xs"
  by (cases xs) auto

end
