(* ===== verification/Cpp_String.thy ===== *)
theory Cpp_String
  imports Prelude
begin

text \<open>
  The part of the C++ standard library's strings that piac uses, on byte strings (\<open>string\<close> is a
  list of 8-bit characters): indexing, searching, \<open>erase\<close>, \<open>c_str()\<close>, std::to_string on integers
  and std::stoul / std::stoi / atoi / stream extraction of numbers. A search result is
  \<open>nat option\<close>, with \<open>None\<close> for \<open>npos\<close>.
\<close>

section \<open>Characters\<close>

definition NUL :: char where "NUL = CHR 0x00"

text \<open>The blanks of std::isspace in the C locale, the same six the sources list by hand.\<close>

definition isspace :: "char \<Rightarrow> bool" where
  "isspace c \<longleftrightarrow> c \<in> {CHR '' '', CHR 0x0A, CHR 0x0D, CHR 0x09, CHR 0x0C, CHR 0x0B}"

lemma NUL_not_space [simp]: "\<not> isspace NUL"
  by (simp add: isspace_def NUL_def)

text \<open>
  \<open>cmd[i]\<close> on a const or non-const std::string: the character, the terminating NUL at
  \<open>i = size()\<close>, undefined behaviour (\<open>None\<close>) beyond.
\<close>

definition char_at :: "string \<Rightarrow> nat \<Rightarrow> char option" where
  "char_at s i = (if i < length s then Some (s ! i) else if i = length s then Some NUL else None)"

text \<open>
  The comparison chains \<open>cmd[0]=='d' && cmd[1]=='b' && ...\<close>: left to right, stopping at the first
  difference; \<open>None\<close> if a comparison reads out of range.
\<close>

fun chars_match_from :: "nat \<Rightarrow> string \<Rightarrow> string \<Rightarrow> bool option" where
  "chars_match_from i [] s = Some True"
| "chars_match_from i (p # ps) s =
     (case char_at s i of
        None \<Rightarrow> None
      | Some c \<Rightarrow> if c = p then chars_match_from (Suc i) ps s else Some False)"

definition chars_match :: "string \<Rightarrow> string \<Rightarrow> bool" where
  "chars_match pat s = (chars_match_from 0 pat s = Some True)"

definition starts_with :: "string \<Rightarrow> string \<Rightarrow> bool" where
  "starts_with pat s = (take (length pat) s = pat)"

lemma chars_match_from_defined:
  assumes "NUL \<notin> set pat" and "i \<le> length s"
  shows "chars_match_from i pat s = Some (starts_with pat (drop i s))"
  using assms
proof (induction pat arbitrary: i)
  case Nil
  then show ?case by (simp add: starts_with_def)
next
  case (Cons p ps)
  show ?case
  proof (cases "i < length s")
    case True
    then have "drop i s = s ! i # drop (Suc i) s" by (simp add: Cons_nth_drop_Suc)
    with Cons True show ?thesis by (auto simp: char_at_def starts_with_def)
  next
    case False
    with Cons.prems show ?thesis by (auto simp: char_at_def starts_with_def)
  qed
qed

lemma chars_match_starts_with [str_simps]:
  "NUL \<notin> set pat \<Longrightarrow> chars_match pat s \<longleftrightarrow> starts_with pat s"
  by (simp add: chars_match_def chars_match_from_defined)

lemma starts_with_append [simp]: "starts_with pat (pat @ s)"
  by (simp add: starts_with_def)

lemma starts_with_split: "starts_with pat s \<Longrightarrow> s = pat @ drop (length pat) s"
  unfolding starts_with_def by (metis append_take_drop_id)

section \<open>Searching\<close>

fun find_first_not_of :: "(char \<Rightarrow> bool) \<Rightarrow> string \<Rightarrow> nat option" where
  "find_first_not_of ws [] = None"
| "find_first_not_of ws (c # cs) =
     (if ws c then map_option Suc (find_first_not_of ws cs) else Some 0)"

fun find_last_of :: "(char \<Rightarrow> bool) \<Rightarrow> string \<Rightarrow> nat option" where
  "find_last_of P [] = None"
| "find_last_of P (c # cs) =
     (case find_last_of P cs of
        Some i \<Rightarrow> Some (Suc i)
      | None \<Rightarrow> if P c then Some 0 else None)"

abbreviation find_last_not_of :: "(char \<Rightarrow> bool) \<Rightarrow> string \<Rightarrow> nat option" where
  "find_last_not_of ws \<equiv> find_last_of (\<lambda>c. \<not> ws c)"

text \<open>\<open>s.find(pat)\<close> and \<open>s.rfind(pat)\<close>: the first and the last occurrence.\<close>

fun find_sub :: "string \<Rightarrow> string \<Rightarrow> nat option" where
  "find_sub pat [] = (if pat = [] then Some 0 else None)"
| "find_sub pat (c # cs) =
     (if starts_with pat (c # cs) then Some 0 else map_option Suc (find_sub pat cs))"

fun rfind_sub :: "string \<Rightarrow> string \<Rightarrow> nat option" where
  "rfind_sub pat [] = (if pat = [] then Some 0 else None)"
| "rfind_sub pat (c # cs) =
     (case rfind_sub pat cs of
        Some i \<Rightarrow> Some (Suc i)
      | None \<Rightarrow> if starts_with pat (c # cs) then Some 0 else None)"

text \<open>
  \<open>s.erase(pos)\<close> with a position computed as \<open>u - 1\<close>: on \<open>u = 0\<close> the subtraction wraps to \<open>npos\<close>, which
  is past the end, and erase throws std::out_of_range.
\<close>

definition erase_from_pred :: "nat \<Rightarrow> string \<Rightarrow> string res" where
  "erase_from_pred u s =
     (if u = 0 \<or> u - 1 > length s then Inl StdOutOfRange else Inr (take (u - 1) s))"

lemma find_first_not_of_drop:
  "(case find_first_not_of ws s of None \<Rightarrow> [] | Some p \<Rightarrow> drop p s) = dropWhile ws s"
  by (induction s) (auto split: option.splits)

lemma find_last_of_None: "find_last_of P s = None \<longleftrightarrow> (\<forall>c\<in>set s. \<not> P c)"
  by (induction s) (auto split: option.splits)

lemma find_last_of_Some:
  "find_last_of P s = Some i \<longleftrightarrow> i < length s \<and> P (s ! i) \<and> (\<forall>c\<in>set (drop (Suc i) s). \<not> P c)"
proof (induction s arbitrary: i)
  case (Cons c cs)
  show ?case
  proof (cases "find_last_of P cs")
    case None
    then have "\<forall>c\<in>set cs. \<not> P c" by (simp add: find_last_of_None)
    then have "(i < length (c # cs) \<and> P ((c # cs) ! i) \<and> (\<forall>x\<in>set (drop (Suc i) (c # cs)). \<not> P x))
        \<longleftrightarrow> P c \<and> i = 0"
      by (cases i) (auto dest: in_set_dropD)
    with None show ?thesis by (auto split: if_splits)
  next
    case (Some j)
    then have "\<not> (\<forall>x\<in>set cs. \<not> P x)" using find_last_of_None [of P cs] by auto
    show ?thesis
    proof (cases i)
      case 0
      with Some \<open>\<not> (\<forall>x\<in>set cs. \<not> P x)\<close> show ?thesis by simp
    next
      case (Suc k)
      have "find_last_of P (c # cs) = Some i \<longleftrightarrow> find_last_of P cs = Some k"
        using Some Suc by simp
      then show ?thesis using Cons.IH [of k] Suc by simp
    qed
  qed
qed simp

lemma find_last_not_of_take:
  "(case find_last_not_of ws s of None \<Rightarrow> [] | Some p \<Rightarrow> take (p + 1) s)
     = rev (dropWhile ws (rev s))"
proof (induction s)
  case (Cons c cs)
  show ?case
  proof (cases "find_last_not_of ws cs")
    case None
    then have "\<forall>x\<in>set cs. ws x" by (simp add: find_last_of_None)
    with None show ?thesis by (simp add: dropWhile_append)
  next
    case (Some i)
    then have "i < length cs \<and> \<not> ws (cs ! i)" by (simp add: find_last_of_Some)
    then have "\<not> (\<forall>x\<in>set cs. ws x)" using nth_mem by blast
    with Some Cons show ?thesis by (auto simp: dropWhile_append)
  qed
qed simp

lemma rfind_sub_None:
  "rfind_sub pat s = None \<longleftrightarrow> (\<forall>a b. s \<noteq> a @ pat @ b)"
proof (induction s)
  case Nil
  then show ?case by auto
next
  case (Cons c cs)
  have "(\<exists>a b. c # cs = a @ pat @ b) \<longleftrightarrow> starts_with pat (c # cs) \<or> (\<exists>a b. cs = a @ pat @ b)"
    (is "?L \<longleftrightarrow> ?S \<or> ?R")
  proof
    assume ?L
    then obtain a b where ab: "c # cs = a @ pat @ b" by blast
    then show "?S \<or> ?R" by (cases a) auto
  next
    assume "?S \<or> ?R"
    then show ?L
    proof
      assume ?S
      then have "c # cs = [] @ pat @ drop (length pat) (c # cs)"
        using starts_with_split by simp
      then show ?L by blast
    next
      assume ?R
      then obtain a b where "c # cs = (c # a) @ pat @ b" by auto
      then show ?L by blast
    qed
  qed
  with Cons show ?case by (auto split: option.splits)
qed

lemma rfind_sub_Some:
  "rfind_sub pat s = Some i \<Longrightarrow> i + length pat \<le> length s \<and> take (length pat) (drop i s) = pat"
  by (induction s arbitrary: i) (auto split: option.splits if_splits simp: starts_with_def dest: arg_cong [of _ _ length])

text \<open>The last occurrence of \<open>pat\<close> is found where it starts, if none starts later.\<close>

lemma rfind_sub_append:
  assumes "rfind_sub pat (tl pat @ b) = None" and "pat \<noteq> []"
  shows "rfind_sub pat (a @ pat @ b) = Some (length a)"
proof (induction a)
  case Nil
  obtain p ps where pat: "pat = p # ps" using \<open>pat \<noteq> []\<close> by (cases pat) auto
  have "starts_with pat (pat @ b)" by simp
  with assms pat show ?case by (simp del: starts_with_append)
qed simp

end
