(* ===== verification/Cpp_Number.thy ===== *)
theory Cpp_Number
  imports Cpp_String
begin

text \<open>
  Conversions between integers and decimal strings, as the C++ standard library does them:
  std::to_string, std::stoul, std::stoi, atoi and formatted stream extraction, with their width
  limits and failures. A 32-bit int is \<open>32 word\<close>, read by \<open>sint\<close>; a std::size_t is 64 bits wide.
\<close>

section \<open>Decimal digits\<close>

abbreviation digit_chars :: string where "digit_chars \<equiv> ''0123456789''"

definition isdigit :: "char \<Rightarrow> bool" where
  "isdigit c = (c \<in> set digit_chars)"

definition digit_char :: "nat \<Rightarrow> char" where
  "digit_char d = digit_chars ! d"

definition digit_val :: "char \<Rightarrow> nat" where
  "digit_val c = length (takeWhile (\<lambda>x. x \<noteq> c) digit_chars)"

lemma less_10_cases:
  "d < 10 \<Longrightarrow> d \<in> {0, 1, 2, 3, 4, 5, 6, 7, 8, 9 :: nat}"
  by auto

lemma digit_val_char [simp]: "d < 10 \<Longrightarrow> digit_val (digit_char d) = d"
  by (drule less_10_cases) (auto simp: digit_val_def digit_char_def)

lemma isdigit_digit_char [simp]: "d < 10 \<Longrightarrow> isdigit (digit_char d)"
  by (drule less_10_cases) (auto simp: isdigit_def digit_char_def)

lemma isdigit_not_space: "isdigit c \<Longrightarrow> \<not> isspace c"
  by (auto simp: isdigit_def isspace_def)

lemma isdigit_not_sign: "isdigit c \<Longrightarrow> c \<noteq> CHR ''-'' \<and> c \<noteq> CHR ''+''"
  by (auto simp: isdigit_def)

lemma isdigit_not_NUL: "isdigit c \<Longrightarrow> c \<noteq> NUL"
  by (auto simp: isdigit_def NUL_def)

section \<open>std::to_string on integers\<close>

fun nat_to_string :: "nat \<Rightarrow> string" where
  "nat_to_string n =
     (if n < 10 then [digit_char n] else nat_to_string (n div 10) @ [digit_char (n mod 10)])"

declare nat_to_string.simps [simp del]

definition int_to_string :: "int \<Rightarrow> string" where
  "int_to_string i =
     (if i < 0 then CHR ''-'' # nat_to_string (nat (- i)) else nat_to_string (nat i))"

definition nat_of_digits :: "string \<Rightarrow> nat" where
  "nat_of_digits ds = foldl (\<lambda>v c. 10 * v + digit_val c) 0 ds"

lemma isdigit_minus [simp]: "\<not> isdigit (CHR ''-'')"
  by (simp add: isdigit_def)

lemma nat_of_digits_snoc: "nat_of_digits (ds @ [c]) = 10 * nat_of_digits ds + digit_val c"
  by (simp add: nat_of_digits_def)

lemma nat_to_string_not_Nil [simp]: "nat_to_string n \<noteq> []"
  by (subst nat_to_string.simps) simp

lemma isdigit_nat_to_string: "c \<in> set (nat_to_string n) \<Longrightarrow> isdigit c"
proof (induction n rule: nat_to_string.induct)
  case (1 n)
  then show ?case by (subst (asm) (2) nat_to_string.simps) (auto split: if_splits)
qed

lemma nat_of_digits_to_string [simp]: "nat_of_digits (nat_to_string n) = n"
proof (induction n rule: nat_to_string.induct)
  case (1 n)
  show ?case
  proof (cases "n < 10")
    case True
    then have "nat_to_string n = [] @ [digit_char n]" by (subst nat_to_string.simps) simp
    with True show ?thesis by (simp add: nat_of_digits_def)
  next
    case False
    then have "nat_to_string n = nat_to_string (n div 10) @ [digit_char (n mod 10)]"
      by (subst nat_to_string.simps) simp
    with 1 False show ?thesis by (simp add: nat_of_digits_snoc)
  qed
qed

lemma nat_to_string_inj: "nat_to_string m = nat_to_string n \<longleftrightarrow> m = n"
  by (metis nat_of_digits_to_string)

lemma int_to_string_inj: "int_to_string i = int_to_string j \<longleftrightarrow> i = j"
proof -
  have minus: "CHR ''-'' # xs \<noteq> nat_to_string n" for xs n
    using isdigit_nat_to_string [of "CHR ''-''" n] by (metis isdigit_minus list.set_intros(1))
  show ?thesis
    using nat_to_string_inj minus minus [symmetric]
    by (auto simp: int_to_string_def split: if_splits)
qed

lemma hd_nat_to_string:
  "isdigit (hd (nat_to_string n))"
  by (rule isdigit_nat_to_string [of _ n]) simp

section \<open>Parsing\<close>

text \<open>
  The common syntax of strtol, strtoul and stream extraction in base 10: blanks, an optional sign,
  the longest run of digits. The result is the sign (True for minus) and the digits' value, or
  \<open>None\<close> if there is no digit.
\<close>

definition scan_int :: "string \<Rightarrow> (bool \<times> nat) option" where
  "scan_int s =
     (let s1 = dropWhile isspace s;
          neg = (s1 \<noteq> [] \<and> hd s1 = CHR ''-'');
          s2 = (if s1 \<noteq> [] \<and> (hd s1 = CHR ''-'' \<or> hd s1 = CHR ''+'') then tl s1 else s1);
          ds = takeWhile isdigit s2
      in if ds = [] then None else Some (neg, nat_of_digits ds))"

definition signed_val :: "bool \<times> nat \<Rightarrow> int" where
  "signed_val nv = (if fst nv then - int (snd nv) else int (snd nv))"

text \<open>std::stoul: a minus sign negates modulo 2^64.\<close>

definition stoul :: "string \<Rightarrow> nat res" where
  "stoul s =
     (case scan_int s of
        None \<Rightarrow> Inl StdInvalidArgument
      | Some (neg, v) \<Rightarrow>
          if v \<ge> 2 ^ 64 then Inl StdOutOfRange
          else Inr (if neg then (2 ^ 64 - v) mod 2 ^ 64 else v))"

definition fits_int :: "int \<Rightarrow> bool" where
  "fits_int i \<longleftrightarrow> - (2 ^ 31) \<le> i \<and> i < 2 ^ 31"

definition stoi :: "string \<Rightarrow> int res" where
  "stoi s =
     (case scan_int s of
        None \<Rightarrow> Inl StdInvalidArgument
      | Some nv \<Rightarrow>
          if fits_int (signed_val nv) then Inr (signed_val nv) else Inl StdOutOfRange)"

text \<open>atoi: 0 without digits, undefined if the value is not an int.\<close>

definition atoi :: "string \<Rightarrow> int res" where
  "atoi s =
     (case scan_int s of
        None \<Rightarrow> Inr 0
      | Some nv \<Rightarrow> if fits_int (signed_val nv) then Inr (signed_val nv) else Inl Undefined)"

text \<open>
  \<open>stream >> x\<close> on a fresh stringstream. If only blanks are left the sentry fails and \<open>x\<close> keeps its
  value (\<open>None\<close>); otherwise \<open>x\<close> is written: 0 without digits, the nearest limit out of range.
\<close>

definition stream_int :: "string \<Rightarrow> int option" where
  "stream_int s =
     (if dropWhile isspace s = [] then None
      else Some (case scan_int s of
                   None \<Rightarrow> 0
                 | Some nv \<Rightarrow> max (- (2 ^ 31)) (min (2 ^ 31 - 1) (signed_val nv))))"

definition stream_uint :: "nat \<Rightarrow> string \<Rightarrow> nat option" where
  "stream_uint w s =
     (if dropWhile isspace s = [] then None
      else Some (case scan_int s of
                   None \<Rightarrow> 0
                 | Some (neg, v) \<Rightarrow>
                     if v \<ge> 2 ^ w then 2 ^ w - 1
                     else if neg then (2 ^ w - v) mod 2 ^ w else v))"

lemma scan_int_digits:
  assumes "ds \<noteq> []" and "\<forall>c\<in>set ds. isdigit c"
  shows "scan_int ds = Some (False, nat_of_digits ds)"
proof -
  obtain d r where ds: "ds = d # r" using \<open>ds \<noteq> []\<close> by (cases ds) auto
  with assms have d: "isdigit d" by simp
  then have dw: "dropWhile isspace (d # r) = d # r" using isdigit_not_space by simp
  have tw: "takeWhile isdigit (d # r) = d # r"
    using assms ds by (simp only: takeWhile_id_iff)
  show ?thesis using isdigit_not_sign [OF d]
    unfolding ds scan_int_def Let_def dw by (simp add: tw del: takeWhile.simps)
qed

lemma scan_int_to_string [simp]: "scan_int (nat_to_string n) = Some (False, n)"
  by (simp add: scan_int_digits isdigit_nat_to_string)

lemma stoul_to_string: "n < 2 ^ 64 \<Longrightarrow> stoul (nat_to_string n) = Inr n"
  by (simp add: stoul_def)

lemma stoul_to_string_conv: "stoul (nat_to_string n) = Inr k \<longleftrightarrow> n < 2 ^ 64 \<and> k = n"
  by (auto simp: stoul_def)

lemma stoul_bound: "stoul s = Inr n \<Longrightarrow> n < 2 ^ 64"
  by (auto simp: stoul_def split: option.splits prod.splits if_splits)

lemma stream_int_range: "stream_int s = Some i \<Longrightarrow> fits_int i"
  by (auto simp: stream_int_def fits_int_def split: option.splits if_splits)

lemma NUL_notin_nat_to_string [simp]: "NUL \<notin> set (nat_to_string n)"
  using isdigit_nat_to_string isdigit_not_NUL by blast

lemma nat_to_string_small [str_simps]: "n < 10 \<Longrightarrow> nat_to_string n = [digit_char n]"
  by (subst nat_to_string.simps) simp

section \<open>c_str()\<close>

text \<open>
  A std::string passed as \<open>const char*\<close> (\<open>c_str()\<close>), or a std::string built from one, ends at the
  first NUL.
\<close>

definition cstr :: "string \<Rightarrow> string" where
  "cstr s = takeWhile (\<lambda>c. c \<noteq> NUL) s"

lemma cstr_id: "NUL \<notin> set s \<Longrightarrow> cstr s = s"
  by (auto simp: cstr_def takeWhile_id_iff)

lemma NUL_notin_cstr [simp]: "NUL \<notin> set (cstr s)"
  by (auto simp: cstr_def dest: set_takeWhileD)

lemma cstr_cstr [simp]: "cstr (cstr s) = cstr s"
  by (simp add: cstr_id)

lemma cstr_Nil [simp]: "cstr [] = []"
  by (simp add: cstr_def)

lemma cstr_fixpoint: "cstr s = s \<longleftrightarrow> NUL \<notin> set s"
  by (metis NUL_notin_cstr cstr_id)

end
