(* ===== verification/Message.thy ===== *)
theory Message
  imports Cpp_Number
begin

text \<open>
  Multi-part messages and machines that process them. A zmqpp::message is the list of its parts not
  yet read: \<open>msg << x\<close> appends a part, \<open>msg >> x\<close> takes the next one and throws when there is none.
  The receive loops \<open>while (num-- != 0) { msg >> x; ... }\<close> of both daemon threads are one function,
  \<open>msg_loop\<close>. The locale \<open>machine\<close> is the contract of a handler that keeps an invariant, \<open>run_relation\<close> that of a
  relation that a run inherits from its steps.
\<close>

type_synonym message = "string list"

fun msg_get :: "message \<Rightarrow> (string \<times> message) res" where
  "msg_get [] = Inl MsgUnderrun"
| "msg_get (x # xs) = Inr (x, xs)"

fun msg_loop :: "(string \<Rightarrow> 's \<Rightarrow> 's) \<Rightarrow> nat \<Rightarrow> message \<Rightarrow> 's \<Rightarrow> 's res" where
  "msg_loop f 0 msg s = Inr s"
| "msg_loop f (Suc num) msg s =
     bindr (msg_get msg) (\<lambda>(x, msg'). msg_loop f num msg' (f x s))"

text \<open>The count a message announces: std::stoul of the next part.\<close>

definition msg_count :: "message \<Rightarrow> (nat \<times> message) res" where
  "msg_count msg = bindr (msg_get msg) (\<lambda>(size, msg'). bindr (stoul size) (\<lambda>n. Inr (n, msg')))"

lemma msg_loop_eq:
  "msg_loop f num msg s =
     (if num \<le> length msg then Inr (fold f (take num msg) s) else Inl MsgUnderrun)"
proof (induction num arbitrary: msg s)
  case (Suc num)
  then show ?case by (cases msg) auto
qed simp

lemma msg_get_Inr [simp]: "msg_get m = Inr (x, m') \<longleftrightarrow> m = x # m'"
  by (cases m) auto

lemma msg_count_Inr:
  "msg_count m = Inr (n, m') \<longleftrightarrow> (\<exists>size. m = size # m' \<and> stoul size = Inr n)"
  by (auto simp: msg_count_def bindr_Inr_conv)

lemma msg_count_to_string [simp]:
  "n < 2 ^ 64 \<Longrightarrow> msg_count (nat_to_string n # m) = Inr (n, m)"
  by (simp add: msg_count_def stoul_to_string)

definition collect :: "string \<Rightarrow> string list \<Rightarrow> string list" where
  "collect x xs = xs @ [x]"

lemma fold_collect [simp]: "fold collect xs ys = ys @ xs"
  by (induction xs arbitrary: ys) (auto simp: collect_def)

section \<open>Machines\<close>

text \<open>A handler run over a list of events; the outputs are collected, an error ends the run.\<close>

fun run_machine ::
  "('e \<Rightarrow> 's \<Rightarrow> ('s \<times> 'o list) res) \<Rightarrow> 'e list \<Rightarrow> 's \<Rightarrow> ('s \<times> 'o list) res" where
  "run_machine step [] s = Inr (s, [])"
| "run_machine step (e # es) s =
     bindr (step e s) (\<lambda>(s', out). bindr (run_machine step es s') (\<lambda>(s'', outs).
       Inr (s'', out @ outs)))"

lemma run_machine_cong: "\<forall>e\<in>set es. step e = step' e \<Longrightarrow> run_machine step es s = run_machine step' es s"
proof (induction es arbitrary: s)
  case (Cons e es)
  then show ?case by (cases "step' e s") auto
qed simp

text \<open>What every step relates, states and output together, a run relates.\<close>

locale run_relation =
  fixes rel :: "'s \<Rightarrow> 's \<Rightarrow> 'o list \<Rightarrow> bool"
  assumes rel_refl: "rel s s []"
    and rel_trans: "rel s s1 o1 \<Longrightarrow> rel s1 s2 o2 \<Longrightarrow> rel s s2 (o1 @ o2)"
begin

lemma run_of:
  assumes "\<And>e s s' out. e \<in> set es \<Longrightarrow> step e s = Inr (s', out) \<Longrightarrow> rel s s' out"
    and "run_machine step es s = Inr (s', out)"
  shows "rel s s' out"
  using assms
proof (induction es arbitrary: s out)
  case (Cons e es)
  then obtain s1 o1 o2 where 1: "step e s = Inr (s1, o1)" and 2: "run_machine step es s1 = Inr (s', o2)"
    "out = o1 @ o2"
    by (auto simp: bindr_Inr_conv)
  have "rel s1 s' o2" by (rule Cons.IH [OF _ 2(1)]) (rule Cons.prems(1), simp_all)
  with Cons.prems(1) [OF _ 1] 2(2) show ?case using rel_trans by simp
qed (simp add: rel_refl)

lemma run:
  assumes "\<And>e s s' out. step e s = Inr (s', out) \<Longrightarrow> rel s s' out"
    and "run_machine step es s = Inr (s', out)"
  shows "rel s s' out"
  using assms by (rule run_of)

end

locale machine =
  fixes step :: "'e \<Rightarrow> 's \<Rightarrow> ('s \<times> 'o list) res"
    and inv :: "'s \<Rightarrow> bool"
    and good :: "'o \<Rightarrow> bool"
  assumes step_inv: "inv s \<Longrightarrow> step e s = Inr (s', out) \<Longrightarrow> inv s'"
    and step_out: "inv s \<Longrightarrow> step e s = Inr (s', out) \<Longrightarrow> x \<in> set out \<Longrightarrow> good x"
begin

lemma run_inv: "inv s \<Longrightarrow> run_machine step es s = Inr (s', out) \<Longrightarrow> inv s'"
  by (induction es arbitrary: s out) (auto simp: bindr_Inr_conv dest: step_inv)

lemma run_out: "inv s \<Longrightarrow> run_machine step es s = Inr (s', out) \<Longrightarrow> x \<in> set out \<Longrightarrow> good x"
proof (induction es arbitrary: s out)
  case (Cons e es)
  then obtain s1 o1 o2 where "step e s = Inr (s1, o1)" "run_machine step es s1 = Inr (s', o2)"
    "x \<in> set o1 \<or> x \<in> set o2"
    by (auto simp: bindr_Inr_conv)
  with Cons.IH [of s1 o2] Cons.prems(1) step_inv step_out show ?case by blast
qed simp

end

text \<open>
  A machine that never fails on the events it accepts. Whether an event is accepted may depend on
  the state, so acceptance of a run follows the run.
\<close>

fun acc_run ::
  "('e \<Rightarrow> 's \<Rightarrow> ('s \<times> 'o list) res) \<Rightarrow> ('e \<Rightarrow> 's \<Rightarrow> bool) \<Rightarrow> 'e list \<Rightarrow> 's \<Rightarrow> bool" where
  "acc_run step acc [] s \<longleftrightarrow> True"
| "acc_run step acc (e # es) s \<longleftrightarrow>
     acc e s \<and> (case step e s of Inl err \<Rightarrow> True | Inr (s', out) \<Rightarrow> acc_run step acc es s')"

locale live_machine = machine +
  fixes live_inv :: "'b \<Rightarrow> bool"
    and acc :: "'a \<Rightarrow> 'b \<Rightarrow> bool"
  assumes live: "inv s \<Longrightarrow> live_inv s \<Longrightarrow> acc e s \<Longrightarrow>
                   \<exists>s' out. step e s = Inr (s', out) \<and> live_inv s'"
begin

lemma run_live:
  "inv s \<Longrightarrow> live_inv s \<Longrightarrow> acc_run step acc es s \<Longrightarrow>
     \<exists>s' out. run_machine step es s = Inr (s', out) \<and> live_inv s'"
proof (induction es arbitrary: s)
  case (Cons e es)
  then obtain s1 o1 where 1: "step e s = Inr (s1, o1)" "live_inv s1" using live [of s e] by auto
  have "inv s1" using step_inv [OF Cons.prems(1) 1(1)] .
  moreover have "acc_run step acc es s1" using Cons.prems(3) 1(1) by simp
  ultimately obtain s2 o2 where "run_machine step es s1 = Inr (s2, o2)" "live_inv s2"
    using Cons.IH [of s1] 1(2) by auto
  with 1 show ?case by simp
qed simp

end

text \<open>A machine that also keeps the trace of its outputs.\<close>

fun traced :: "('e \<Rightarrow> 's \<Rightarrow> ('s \<times> 'o list) res) \<Rightarrow> 'e \<Rightarrow> 'o list \<times> 's \<Rightarrow> (('o list \<times> 's) \<times> 'o list) res" where
  "traced step e (tr, s) = bindr (step e s) (\<lambda>(s', out). Inr ((tr @ out, s'), out))"

lemma run_traced:
  "run_machine (traced step) es (tr, s) =
     bindr (run_machine step es s) (\<lambda>(s', out). Inr ((tr @ out, s'), out))"
proof (induction es arbitrary: tr s)
  case (Cons e es)
  show ?case by (cases "step e s") (auto simp: Cons bindr_def split: sum.splits)
qed simp

lemma run_machine_append:
  "run_machine step (es @ fs) s =
     bindr (run_machine step es s) (\<lambda>(s', out).
       bindr (run_machine step fs s') (\<lambda>(s'', out'). Inr (s'', out @ out')))"
proof (induction es arbitrary: s)
  case Nil
  show ?case by (cases "run_machine step fs s") auto
next
  case (Cons e es)
  show ?case
  proof (cases "step e s")
    case (Inr r)
    obtain s1 o1 where "r = (s1, o1)" by fastforce
    with Inr show ?thesis
      by (auto simp: Cons bindr_def split: sum.splits)
  qed simp
qed

lemma acc_run_all: "(\<And>e s. e \<in> set es \<Longrightarrow> acc e s) \<Longrightarrow> acc_run step acc es s"
  by (induction es arbitrary: s) (simp_all split: sum.split)

section \<open>Machines that come to rest\<close>

text \<open>
  Every event makes a measure of the state fall, or finds the machine at rest for it and changes
  nothing. Under a fair schedule the machine then reaches a state that is at rest for every event, and
  stays there.
\<close>

locale settling_machine = live_machine +
  fixes m :: "'b \<Rightarrow> nat" and rest :: "'a \<Rightarrow> 'b \<Rightarrow> bool"
  assumes falls: "inv s \<Longrightarrow> live_inv s \<Longrightarrow> acc e s \<Longrightarrow> step e s = Inr (s', out) \<Longrightarrow>
                    m s' < m s \<or> s' = s \<and> rest e s"
begin

lemma settles:
  assumes inv: "inv s" and live: "live_inv s" and acc: "\<And>k s. acc (f k) s"
    and fair: "\<And>e k. e \<in> es \<Longrightarrow> \<exists>k'\<ge>k. f k' = e"
  obtains k s' where "inv s'" and "live_inv s'" and "\<And>e. e \<in> es \<Longrightarrow> rest e s'"
    and "\<And>k'. k \<le> k' \<Longrightarrow> \<exists>out. run_machine step (map f [0..<k']) s = Inr (s', out)"
proof -
  have "\<exists>s' out. run_machine step (map f [0..<k]) s = Inr (s', out) \<and> live_inv s'" for k
    by (rule run_live [OF inv live], rule acc_run_all) (use acc in auto)
  then obtain S outs where S: "\<And>k. run_machine step (map f [0..<k]) s = Inr (S k, outs k)" "\<And>k. live_inv (S k)"
    by metis
  have I: "inv (S k)" for k by (rule run_inv [OF inv S(1)])
  have fall: "m (S (Suc k)) < m (S k) \<or> S (Suc k) = S k \<and> rest (f k) (S k)" for k
  proof -
    have "\<exists>out. step (f k) (S k) = Inr (S (Suc k), out)"
      using S(1) [of "Suc k"] S(1) [of k] by (auto simp: run_machine_append bindr_Inr_conv)
    then show ?thesis using falls [OF I S(2) acc] by blast
  qed
  obtain k where k: "\<And>j. m (S k) \<le> m (S j)" using ex_has_least_nat [of "\<lambda>_. True" 0 "\<lambda>j. m (S j)"] by auto
  have const: "S k' = S k" if "k \<le> k'" for k'
    using that
  proof (induction k' rule: dec_induct)
    case (step j)
    then show ?case using fall [of j] k [of "Suc j"] by auto
  qed simp
  have "rest e (S k)" if e: "e \<in> es" for e
  proof -
    obtain j where j: "k \<le> j" "f j = e" using fair [OF e] by blast
    then show ?thesis using fall [of j] const [of j] k [of "Suc j"] by auto
  qed
  then show thesis using that [of "S k" k] I S const by metis
qed

end

end
