(* ===== verification/Program.thy ===== *)
theory Program
  imports Prelude
begin

text \<open>
  What the three programs share: the actions they take towards the terminal, the log, the network and the
  wallet, and their main functions. A main function is a \<open>prog\<close>: the actions taken so far, and either the
  exit code that ended it or a value to go on with. An error (an exception that nothing catches) ends it too,
  and then its actions are not kept. Colours and the text of the log are not modelled.
\<close>

section \<open>Actions\<close>

text \<open>What is done with a socket of the client.\<close>

datatype sock_action =
    SetServerKey string
  | SetPublicKey string
  | SetSecretKey string
  | ConnectTo string
  | SetLinger nat

datatype cli_out =
    Out string
  | ErrOut string
  | LogConfigure string bool nat nat
  | LogLevel string
  | OpenSocket "sock_action list"
  | Request string string
  | AddListener
  | StartSyncing nat
  | MatrixMessage string string string
  | StartMatrix string string string string
  | StartMessages
  | JoinThreads
  | SleepSecs int
  | History string
  | CloseTerminal
  | CatchSignals

abbreviation eol :: string where "eol \<equiv> [CHR 0x0A]"

text \<open>src/logging_util.cpp: what goes to monero's logging, and the line on the terminal.\<close>

definition setup_logging :: "string \<Rightarrow> string \<Rightarrow> bool \<Rightarrow> nat \<Rightarrow> nat \<Rightarrow> cli_out list" where
  "setup_logging logfile log_level console_logging max_log_file_size max_log_files =
     [LogConfigure logfile console_logging max_log_file_size max_log_files, LogLevel log_level,
      Out (''Logging to file '' @ [CHR 0x27] @ logfile @ [CHR 0x27] @ '' at log level '' @ log_level @ ''.'' @ eol)]"

text \<open>Messages of both main functions; \<open>argv\<close> is the command line.\<close>

definition invalid_options :: "string list \<Rightarrow> string list \<Rightarrow> cli_out" where
  "invalid_options argv left_args =
     Out (hd argv @ '': invalid options -- '' @ concat (map (\<lambda>a. a @ '' '') left_args) @ eol)"

definition parse_errors :: "string list \<Rightarrow> string \<Rightarrow> cli_out" where
  "parse_errors argv usage =
     ErrOut (''Erros during parsing command line'' @ eol @
       ''Command line: '' @ concat (map (\<lambda>a. a @ '' '') argv) @ eol @ usage)"

definition cannot_open :: "string \<Rightarrow> string \<Rightarrow> cli_out" where
  "cannot_open for_what filename =
     ErrOut (''Cannot open file for '' @ for_what @ '': '' @ filename @ eol)"

section \<open>Main functions\<close>

type_synonym 'a prog = "(cli_out list \<times> (int + 'a)) res"

abbreviation (input) EXIT_SUCCESS :: int where "EXIT_SUCCESS \<equiv> 0"
abbreviation (input) EXIT_FAILURE :: int where "EXIT_FAILURE \<equiv> 1"

definition go_on :: "'a \<Rightarrow> 'a prog" where
  "go_on a = Inr ([], Inr a)"

definition halt :: "cli_out list \<Rightarrow> int \<Rightarrow> 'a prog" where
  "halt acts code = Inr (acts, Inl code)"

definition emit :: "cli_out list \<Rightarrow> unit prog" where
  "emit acts = Inr (acts, Inr ())"

definition attempt :: "'a res \<Rightarrow> 'a prog" where
  "attempt m = bindr m go_on"

definition andthen :: "'a prog \<Rightarrow> ('a \<Rightarrow> 'b prog) \<Rightarrow> 'b prog" where
  "andthen m f =
     bindr m (\<lambda>(acts, r). case r of
       Inl code \<Rightarrow> Inr (acts, Inl code)
     | Inr a \<Rightarrow> bindr (f a) (\<lambda>(acts', r'). Inr (acts @ acts', r')))"

lemma andthen_simps [simp]:
  "andthen (go_on a) f = f a"
  "andthen (halt acts code) f = halt acts code"
  "andthen (emit []) f = f ()"
  "andthen (attempt (Inl e)) f = Inl e"
  "andthen (attempt (Inr a)) f = f a"
  by (cases "f a"; cases "f ()"; simp add: andthen_def go_on_def halt_def emit_def attempt_def split_beta)+

text \<open>The three forms of a program, and what becomes of each.\<close>

lemma prog_cases:
  obtains (failed) e where "m = Inl e"
  | (ended) acts code where "m = Inr (acts, Inl code)"
  | (goes_on) acts a where "m = Inr (acts, Inr a)"
  by (metis old.sum.exhaust surj_pair)

lemma prog_evaluated:
  assumes "case m of Inr (acts, Inr v) \<Rightarrow> P v | _ \<Rightarrow> False"
  obtains acts v where "m = Inr (acts, Inr v)" "P v"
  using assms by (cases m rule: prog_cases) auto

lemma andthen_forms:
  "andthen (Inl e) f = Inl e"
  "andthen (Inr (acts, Inl code)) f = Inr (acts, Inl code)"
  "andthen (Inr (acts, Inr a)) f = bindr (f a) (\<lambda>(acts', r'). Inr (acts @ acts', r'))"
  by (simp_all add: andthen_def)

lemma andthen_value:
  "andthen m f = Inr (acts, Inr b) \<longleftrightarrow>
     (\<exists>acts1 a acts2. m = Inr (acts1, Inr a) \<and> f a = Inr (acts2, Inr b) \<and> acts = acts1 @ acts2)"
  by (cases m rule: prog_cases) (auto simp: andthen_forms bindr_Inr_conv)

lemma andthen_assoc: "andthen (andthen m f) g = andthen m (\<lambda>a. andthen (f a) g)"
proof (cases m rule: prog_cases)
  case (goes_on acts a)
  show ?thesis unfolding goes_on by (cases "f a" rule: prog_cases) (simp_all add: andthen_forms bindr_def split: sum.splits prod.splits)
qed (simp_all add: andthen_forms)

lemma prog_values [simp]:
  "go_on a = Inr (acts, Inr b) \<longleftrightarrow> acts = [] \<and> a = b"
  "halt acts' code = Inr (acts, Inr b) \<longleftrightarrow> False"
  "emit acts' = Inr (acts, Inr u) \<longleftrightarrow> acts = acts'"
  "attempt m = Inr (acts, Inr b) \<longleftrightarrow> acts = [] \<and> m = Inr b"
  by (auto simp: go_on_def halt_def emit_def attempt_def bindr_Inr_conv)

lemmas prog_defs = andthen_def go_on_def halt_def emit_def attempt_def

section \<open>The build, and the key generator\<close>

text \<open>What the build system (project_config.cpp.in) and monero's logging header set.\<close>

record build_info =
  daemon_executable :: string
  cli_executable :: string
  project_version :: string
  build_type :: string
  MAX_LOG_FILE_SIZE :: nat
  MAX_LOG_FILES :: nat

definition version_of :: "string \<Rightarrow> build_info \<Rightarrow> string" where
  "version_of executable B = ''piac: '' @ executable @ '' v'' @ project_version B @ ''-'' @ build_type B"

record keypair =
  public_key :: string
  secret_key :: string

text \<open>src/curve_keygen.cpp, with the pair that zmqpp::curve::generate_keypair returns.\<close>

definition keygen_main :: "keypair \<Rightarrow> unit prog" where
  "keygen_main keys =
     halt [Out (''=== CURVE PUBLIC KEY ==='' @ eol @ public_key keys @ eol),
           Out (''=== CURVE SECRET KEY ==='' @ eol @ secret_key keys @ eol)] EXIT_SUCCESS"

end
