(* ===== verification/Zmq_Util.thy ===== *)
theory Zmq_Util
  imports Message Program
begin

text \<open>
  src/zmq_util.cpp: the socket options of a client, the request with time-outs and retries, and the
  search for a free port. The network is a parameter: what a poll of the socket sees, in order, and
  which ports can be bound.
\<close>

section \<open>Sockets\<close>

text \<open>\<open>key_ok\<close>: the keys ZeroMQ accepts. A rejected key ends the block of the options, silently.\<close>

fun set_keys :: "(string \<Rightarrow> bool) \<Rightarrow> (string \<Rightarrow> sock_action) list \<Rightarrow> string list \<Rightarrow> sock_action list" where
  "set_keys key_ok (f # fs) (k # ks) = (if key_ok k then f k # set_keys key_ok fs ks else [])"
| "set_keys key_ok _ _ = []"

definition daemon_socket ::
  "(string \<Rightarrow> bool) \<Rightarrow> (string \<Rightarrow> bool) \<Rightarrow> string \<Rightarrow> string \<Rightarrow> keypair \<Rightarrow> sock_action list res" where
  "daemon_socket key_ok reach host rpc_server_public_key client_keys =
     (let opts =
        (if rpc_server_public_key \<noteq> [] then
           set_keys key_ok [SetServerKey, SetPublicKey, SetSecretKey]
             [rpc_server_public_key, public_key client_keys, secret_key client_keys]
         else [])
      in if reach host then Inr (opts @ [ConnectTo (''tcp://'' @ host), SetLinger 0])
         else Inl ZmqError)"

section \<open>Requests\<close>

text \<open>What the poll of REQUEST_TIMEOUT milliseconds sees.\<close>

datatype poll_event = Timeout | Reply string

abbreviation REQUEST_RETRIES :: nat where "REQUEST_RETRIES \<equiv> 5"

text \<open>
  The inner loop: it ends with a reply or when the retries are used up; every time-out before that
  opens a new socket and sends the request again. The result is the reply, the retries left, the
  requests sent and the events not used; None when the events end first, that is, while the client
  still waits.
\<close>

fun expect_reply :: "poll_event list \<Rightarrow> nat \<Rightarrow> nat \<Rightarrow> (string \<times> nat \<times> nat \<times> poll_event list) option" where
  "expect_reply [] retries sent = None"
| "expect_reply (Reply r # evs) retries sent =
     (if r \<noteq> [] then Some (r, 0, sent, evs) else expect_reply evs retries sent)"
| "expect_reply (Timeout # evs) retries sent =
     (if retries - 1 = 0 then Some (''No response from server'', 0, sent, evs)
      else expect_reply evs (retries - 1) (sent + 1))"

text \<open>The outer loop \<open>while (retries)\<close>: the reply and the number of requests sent.\<close>

partial_function (option) pirate_loop ::
  "poll_event list \<Rightarrow> nat \<Rightarrow> nat \<Rightarrow> string \<Rightarrow> (string \<times> nat) option" where
  "pirate_loop evs retries sent reply =
     (if retries = 0 then Some (reply, sent)
      else (case expect_reply evs retries (sent + 1) of
              None \<Rightarrow> None
            | Some (reply', retries', sent', evs') \<Rightarrow> pirate_loop evs' retries' sent' reply'))"

declare pirate_loop.simps [code]

definition pirate_send :: "poll_event list \<Rightarrow> (string \<times> nat) option" where
  "pirate_send evs = pirate_loop evs REQUEST_RETRIES 0 []"

lemma expect_reply_zero: "expect_reply evs retries sent = Some (r, n, m, evs') \<Longrightarrow> n = 0"
  by (induction evs retries sent rule: expect_reply.induct) (auto split: if_splits)

text \<open>So the outer loop runs once.\<close>

lemma pirate_send_eq:
  "pirate_send evs =
     (case expect_reply evs REQUEST_RETRIES 1 of
        None \<Rightarrow> None | Some (r, n, m, evs') \<Rightarrow> Some (r, m))"
proof (cases "expect_reply evs REQUEST_RETRIES 1")
  case (Some x)
  obtain r n m evs' where x: "x = (r, n, m, evs')" by (cases x) auto
  with Some expect_reply_zero have "n = 0" by blast
  with Some x show ?thesis
    by (simp add: pirate_send_def pirate_loop.simps [of evs] pirate_loop.simps [of evs' 0])
qed (simp add: pirate_send_def pirate_loop.simps [of evs])

definition timeouts :: "poll_event list \<Rightarrow> nat" where
  "timeouts evs = length (filter (\<lambda>e. e = Timeout) evs)"

text \<open>The first reply that is not empty, and the time-outs before it.\<close>

fun first_reply :: "poll_event list \<Rightarrow> (string \<times> nat) option" where
  "first_reply [] = None"
| "first_reply (Reply r # evs) = (if r \<noteq> [] then Some (r, 0) else first_reply evs)"
| "first_reply (Timeout # evs) =
     (case first_reply evs of None \<Rightarrow> None | Some (r, n) \<Rightarrow> Some (r, n + 1))"

definition outcome :: "(string \<times> nat \<times> nat \<times> poll_event list) option \<Rightarrow> (string \<times> nat) option" where
  "outcome x = map_option (\<lambda>(r, n, m, evs). (r, m)) x"

lemma expect_reply_outcome:
  "retries > 0 \<Longrightarrow> outcome (expect_reply evs retries sent) =
     (case first_reply evs of
        Some (r, n) \<Rightarrow>
          Some (if n < retries then (r, sent + n) else (''No response from server'', sent + retries - 1))
      | None \<Rightarrow>
          if retries \<le> timeouts evs then Some (''No response from server'', sent + retries - 1)
          else None)"
proof (induction evs retries sent rule: expect_reply.induct)
  case (1 retries sent)
  then show ?case by (simp add: outcome_def timeouts_def)
next
  case (2 r evs retries sent)
  then show ?case by (cases "r = []") (simp_all add: outcome_def timeouts_def)
next
  case (3 evs retries sent)
  show ?case
  proof (cases "retries = 1")
    case True
    then show ?thesis
      by (cases "first_reply evs") (auto simp: outcome_def timeouts_def)
  next
    case False
    then have r: "retries - 1 \<noteq> 0" "retries - 1 > 0" using 3 by simp_all
    have "outcome (expect_reply (Timeout # evs) retries sent)
        = outcome (expect_reply evs (retries - 1) (sent + 1))" using r by simp
    also note 3(1) [OF r]
    finally show ?thesis using r
      by (cases "first_reply evs") (auto simp: timeouts_def)
  qed
qed

lemma pirate_send_spec:
  "pirate_send evs =
     (case first_reply evs of
        Some (r, n) \<Rightarrow>
          Some (if n < REQUEST_RETRIES then (r, 1 + n) else (''No response from server'', REQUEST_RETRIES))
      | None \<Rightarrow>
          if REQUEST_RETRIES \<le> timeouts evs then Some (''No response from server'', REQUEST_RETRIES)
          else None)"
proof -
  have "pirate_send evs = outcome (expect_reply evs REQUEST_RETRIES 1)"
    by (auto simp: pirate_send_eq outcome_def split: option.splits)
  then show ?thesis
    using expect_reply_outcome [of REQUEST_RETRIES evs 1]
    by (simp only: One_nat_def) (simp split: option.splits)
qed

section \<open>Binding\<close>

text \<open>
  \<open>bindable p\<close>: binding to tcp://*:p succeeds. The loop tests \<open>port < port+range\<close> on ints, whose
  overflow is undefined behaviour. Its result is the port bound, or the port where it gave up.
\<close>

abbreviation INT_MAX :: int where "INT_MAX \<equiv> 2147483647"

datatype bind_result = Bound int | GaveUp int

function try_bind_loop :: "(int \<Rightarrow> bool) \<Rightarrow> int \<Rightarrow> int \<Rightarrow> bind_result res" where
  "try_bind_loop bindable port rng =
     (if bindable port then Inr (Bound port)
      else if port + 1 > INT_MAX \<or> port + 1 + rng > INT_MAX then Inl Undefined
      else if port + 1 < port + 1 + rng then try_bind_loop bindable (port + 1) rng
      else Inr (GaveUp (port + 1)))"
  by auto
termination by (relation "measure (\<lambda>(b, port, r). nat (INT_MAX - port))") auto

declare try_bind_loop.simps [simp del]

definition try_bind ::
  "(int \<Rightarrow> bool) \<Rightarrow> int \<Rightarrow> int \<Rightarrow> bool \<Rightarrow> bind_result res" where
  "try_bind bindable port rng use_strict_ports =
     (if use_strict_ports then (if bindable port then Inr (Bound port) else Inl ZmqError)
      else try_bind_loop bindable port rng)"

lemma try_bind_loop_found:
  assumes "0 < rng" and "port \<le> p" and "p + rng \<le> INT_MAX" and "bindable p"
    and "\<forall>q\<in>{port..<p}. \<not> bindable q"
  shows "try_bind_loop bindable port rng = Inr (Bound p)"
  using assms
proof (induction "nat (p - port)" arbitrary: port)
  case 0
  then have "p = port" by simp
  then show ?case using 0 by (simp add: try_bind_loop.simps)
next
  case (Suc n)
  then have "port < p" "\<not> bindable port" by auto
  moreover have "try_bind_loop bindable (port + 1) rng = Inr (Bound p)"
    using Suc by (intro Suc.hyps(1)) auto
  ultimately show ?case using Suc.prems by (subst try_bind_loop.simps) simp
qed

lemma try_bind_loop_none:
  assumes "0 < rng" and "\<forall>q\<ge>port. \<not> bindable q"
  shows "try_bind_loop bindable port rng = Inl Undefined"
  using assms(2)
proof (induction "nat (INT_MAX - port)" arbitrary: port rule: less_induct)
  case less
  show ?case
  proof (cases "port + 1 + rng > INT_MAX")
    case True
    then show ?thesis using less.prems by (subst try_bind_loop.simps) simp
  next
    case False
    then have "try_bind_loop bindable (port + 1) rng = Inl Undefined"
      using less.prems assms(1) by (intro less.hyps) auto
    then show ?thesis using False less.prems assms(1) by (subst try_bind_loop.simps) simp
  qed
qed

lemma try_bind_loop_never_gives_up:
  "0 < rng \<Longrightarrow> try_bind_loop bindable port rng \<noteq> Inr (GaveUp p)"
proof (induction bindable port rng rule: try_bind_loop.induct)
  case (1 bindable port rng)
  then show ?case by (subst try_bind_loop.simps) simp
qed

end
