(* ===== verification/String_Util.thy ===== *)
theory String_Util
  imports Cpp_Number
begin

text \<open>
  The helpers of src/string_util.cpp: \<open>trim\<close>, \<open>tokenize\<close>, \<open>wordcount\<close> and \<open>split\<close>, with the facts
  the command parsers rely on: what is left after trimming, which strings the tokens are, and that
  the word count is the number of non-empty tokens.
\<close>

section \<open>trim\<close>

definition trim :: "string \<Rightarrow> string" where
  "trim s =
     (let s1 = (case find_first_not_of isspace s of None \<Rightarrow> [] | Some p \<Rightarrow> drop p s)
      in case find_last_not_of isspace s1 of None \<Rightarrow> [] | Some p \<Rightarrow> take (p + 1) s1)"

text \<open>The two scans drop exactly the longest blank prefix and suffix.\<close>

lemma trim_dropWhile: "trim s = rev (dropWhile isspace (rev (dropWhile isspace s)))"
  unfolding trim_def Let_def find_first_not_of_drop find_last_not_of_take ..

lemma trim_Nil [simp]: "trim [] = []"
  by (simp add: trim_dropWhile)

lemma trim_infix:
  "\<exists>a b. s = a @ trim s @ b \<and> (\<forall>c\<in>set a. isspace c) \<and> (\<forall>c\<in>set b. isspace c)"
proof (intro exI conjI)
  let ?t = "dropWhile isspace s"
  have "rev ?t = takeWhile isspace (rev ?t) @ dropWhile isspace (rev ?t)"
    by simp
  then have "?t = trim s @ rev (takeWhile isspace (rev ?t))"
    by (metis rev_append rev_rev_ident trim_dropWhile)
  then show "s = takeWhile isspace s @ trim s @ rev (takeWhile isspace (rev ?t))"
    by (metis takeWhile_dropWhile_id)
qed (auto dest: set_takeWhileD)

lemma last_trim: "trim s \<noteq> [] \<Longrightarrow> \<not> isspace (last (trim s))"
  by (simp add: trim_dropWhile last_rev hd_dropWhile)

lemma hd_trim:
  assumes "trim s \<noteq> []"
  shows "\<not> isspace (hd (trim s))"
proof -
  let ?t = "dropWhile isspace s"
  have eq: "?t = trim s @ rev (takeWhile isspace (rev ?t))"
    by (metis rev_append rev_rev_ident takeWhile_dropWhile_id trim_dropWhile)
  with assms have "?t \<noteq> []" by (metis append_is_Nil_conv)
  then have "\<not> isspace (hd ?t)" by (rule hd_dropWhile)
  with assms eq show ?thesis by (metis hd_append2)
qed

lemma trim_id:
  assumes "s = [] \<or> \<not> isspace (hd s) \<and> \<not> isspace (last s)"
  shows "trim s = s"
proof (cases "s = []")
  case False
  with assms have "\<not> isspace (hd s)" "\<not> isspace (last s)" by auto
  from this(1) False have "dropWhile isspace s = s" by (cases s) auto
  moreover from \<open>\<not> isspace (last s)\<close> False have "dropWhile isspace (rev s) = rev s"
    by (metis dropWhile_eq_self_iff hd_rev)
  ultimately show ?thesis by (simp add: trim_dropWhile)
qed simp

lemma trim_idem [simp]: "trim (trim s) = trim s"
  using trim_id hd_trim last_trim by blast

lemma trim_eq_Nil: "trim s = [] \<longleftrightarrow> (\<forall>c\<in>set s. isspace c)"
proof
  assume "trim s = []"
  then show "\<forall>c\<in>set s. isspace c" using trim_infix [of s] by auto
next
  assume "\<forall>c\<in>set s. isspace c"
  then show "trim s = []" by (simp only: trim_dropWhile dropWhile_eq_Nil_conv rev_is_Nil_conv set_rev)
      (auto dest: set_dropWhileD)
qed

section \<open>tokenize\<close>

text \<open>
  The regex iterator with submatch -1: the pieces between the single blanks matched; the piece
  after the last match is produced only if it is not empty.
\<close>

fun ws_pieces :: "string \<Rightarrow> string list" where
  "ws_pieces [] = [[]]"
| "ws_pieces (c # cs) =
     (if isspace c then [] # ws_pieces cs
      else case ws_pieces cs of [] \<Rightarrow> [[c]] | p # ps \<Rightarrow> (c # p) # ps)"

definition tokenize :: "string \<Rightarrow> string list" where
  "tokenize s =
     (if s = [] then []
      else let ps = ws_pieces s in if last ps = [] then butlast ps else ps)"

lemma ws_pieces_not_Nil [simp]: "ws_pieces s \<noteq> []"
  by (induction s) (auto split: list.splits)

lemma ws_pieces_no_space: "\<forall>p\<in>set (ws_pieces s). \<forall>c\<in>set p. \<not> isspace c"
proof (induction s)
  case (Cons c cs)
  then show ?case by (cases "ws_pieces cs") auto
qed simp

lemma ws_pieces_word: "\<forall>c\<in>set w. \<not> isspace c \<Longrightarrow> ws_pieces w = [w]"
  by (induction w) auto

lemma ws_pieces_append:
  assumes "\<forall>c\<in>set w. \<not> isspace c" and "isspace b"
  shows "ws_pieces (w @ b # s) = w # ws_pieces s"
  using assms by (induction w) auto

fun join_sp :: "string list \<Rightarrow> string" where
  "join_sp [] = []"
| "join_sp [w] = w"
| "join_sp (w # v # ws) = w @ '' '' @ join_sp (v # ws)"

definition is_word :: "string \<Rightarrow> bool" where
  "is_word w \<longleftrightarrow> w \<noteq> [] \<and> (\<forall>c\<in>set w. \<not> isspace c)"

lemma ws_pieces_join_sp:
  assumes "ws \<noteq> []" and "\<forall>w\<in>set ws. is_word w"
  shows "ws_pieces (join_sp ws) = ws"
  using assms
proof (induction ws rule: join_sp.induct)
  case (2 w)
  then show ?case by (simp add: ws_pieces_word is_word_def)
next
  case (3 w v ws)
  have "isspace (CHR '' '')" by (simp add: isspace_def)
  with 3 show ?case by (simp add: ws_pieces_append is_word_def)
qed simp

lemma tokenize_join_sp:
  assumes "\<forall>w\<in>set ws. is_word w"
  shows "tokenize (join_sp ws) = ws"
proof (cases "ws = []")
  case False
  then have "ws_pieces (join_sp ws) = ws" using assms by (rule ws_pieces_join_sp)
  moreover have "last ws \<noteq> []" using False assms by (auto simp: is_word_def)
  moreover have "join_sp ws \<noteq> []"
    using calculation(1) assms False
    by (metis is_word_def list.set_intros(1) ws_pieces.simps(1))
  ultimately show ?thesis by (simp add: tokenize_def Let_def)
qed (simp add: tokenize_def)

lemma tokenize_no_space: "t \<in> set (tokenize s) \<Longrightarrow> c \<in> set t \<Longrightarrow> \<not> isspace c"
  using ws_pieces_no_space [of s]
  by (auto simp: tokenize_def Let_def dest: in_set_butlastD split: if_splits)

section \<open>wordcount\<close>

text \<open>The loop over the C string: it stops at the first NUL; \<open>inSpaces\<close> and \<open>numWords\<close> are its state.\<close>

fun wordcount_loop :: "string \<Rightarrow> bool \<Rightarrow> int \<Rightarrow> int" where
  "wordcount_loop [] inSpaces numWords = numWords"
| "wordcount_loop (c # cs) inSpaces numWords =
     (if c = NUL then numWords
      else if isspace c then wordcount_loop cs True numWords
      else if inSpaces then wordcount_loop cs False (numWords + 1)
      else wordcount_loop cs inSpaces numWords)"

definition wordcount :: "string \<Rightarrow> int" where
  "wordcount s = wordcount_loop s True 0"

lemma filter_tokenize:
  "filter (\<lambda>t. t \<noteq> []) (tokenize s) = filter (\<lambda>t. t \<noteq> []) (ws_pieces s)"
proof (cases "s = [] \<or> last (ws_pieces s) \<noteq> []")
  case False
  then have "ws_pieces s = butlast (ws_pieces s) @ [[]]"
    by (metis append_butlast_last_id ws_pieces_not_Nil)
  then have "filter (\<lambda>t. t \<noteq> []) (ws_pieces s) = filter (\<lambda>t. t \<noteq> []) (butlast (ws_pieces s))"
    by (metis (mono_tags, lifting) append_Nil2 filter.simps filter_append)
  with False show ?thesis by (simp add: tokenize_def Let_def)
qed (auto simp: tokenize_def Let_def)

lemma wordcount_loop_pieces:
  assumes "NUL \<notin> set s"
  shows "wordcount_loop s inSpaces n
     = n + int (length (filter (\<lambda>t. t \<noteq> []) (ws_pieces s)))
         - (if inSpaces \<or> hd (ws_pieces s) = [] then 0 else 1)"
  using assms
proof (induction s arbitrary: inSpaces n)
  case (Cons c cs)
  obtain p ps where "ws_pieces cs = p # ps" by (cases "ws_pieces cs") auto
  with Cons show ?case by auto
qed auto

lemma wordcount_loop_cstr: "wordcount_loop s b n = wordcount_loop (cstr s) b n"
  by (induction s b n rule: wordcount_loop.induct) (auto simp: cstr_def)

lemma wordcount_tokens:
  "wordcount s = int (length (filter (\<lambda>t. t \<noteq> []) (tokenize (cstr s))))"
  unfolding wordcount_def filter_tokenize
  by (subst wordcount_loop_cstr) (simp add: wordcount_loop_pieces)

section \<open>split\<close>

definition split :: "string \<Rightarrow> string \<Rightarrow> string \<times> string" where
  "split s delim =
     (let t = trim s; p = find_last_of (\<lambda>c. c \<in> set delim) t
      in case p of None \<Rightarrow> (t, []) | Some i \<Rightarrow> (take i t, drop (i + 1) t))"

lemma split_cases:
  shows "(\<forall>c\<in>set delim. c \<notin> set (trim s)) \<and> split s delim = (trim s, [])
    \<or> (\<exists>a d b. trim s = a @ [d] @ b \<and> d \<in> set delim \<and> set b \<inter> set delim = {}
          \<and> split s delim = (a, b))"
proof (cases "find_last_of (\<lambda>c. c \<in> set delim) (trim s)")
  case None
  then have "\<forall>c\<in>set (trim s). c \<notin> set delim" by (simp add: find_last_of_None)
  with None show ?thesis by (auto simp: split_def Let_def)
next
  case (Some i)
  then have i: "i < length (trim s)" "trim s ! i \<in> set delim"
    "\<forall>c\<in>set (drop (Suc i) (trim s)). c \<notin> set delim"
    by (simp_all add: find_last_of_Some)
  have "trim s = take i (trim s) @ [trim s ! i] @ drop (Suc i) (trim s)"
    using i(1) by (simp add: id_take_nth_drop)
  moreover have "split s delim = (take i (trim s), drop (Suc i) (trim s))"
    using Some by (simp add: split_def Let_def)
  ultimately show ?thesis using i(2,3) by blast
qed

end
