(* ===== verification/Json_Document.thy ===== *)
theory Json_Document
  imports String_Util
begin

text \<open>
  The ads themselves: the classes JSONBase (src/jsonbase.hpp, .cpp), Document and Documents
  (src/document.hpp, .cpp). The JSON library (rapidjson) is a parameter, \<open>json_lib\<close>; what the code
  relies on is \<open>json_laws\<close>: reading back the object that the serializer writes gives the same
  members, up to the rounding \<open>rr\<close> of the price (rapidjson's default parser does not promise
  to read a double back exactly). The lemmas give the round trip through the text and the form of a
  document that has been through it once.
\<close>

section \<open>JSON values\<close>

text \<open>An IEEE double is its 64-bit pattern: the code only stores, reads and prints prices.\<close>

type_synonym double = "64 word"

definition dbl_finite :: "double \<Rightarrow> bool" where
  "dbl_finite w \<longleftrightarrow> take_bit 11 (drop_bit 52 w) \<noteq> 0x7FF"

datatype json =
    JNull
  | JBool bool
  | JInt int
  | JDouble double
  | JString string
  | JArray "json list"
  | JObject "(string \<times> json) list"

record json_lib =
  parse_json :: "string \<Rightarrow> json option"
  write_json :: "json \<Rightarrow> string"
  int_to_double :: "int \<Rightarrow> double"

text \<open>
  The accessors: \<open>obj[k]\<close> (the first member of that name), \<open>GetInt()\<close>, \<open>GetDouble()\<close> (also on an
  integer) and \<open>GetString()\<close>, whose \<open>const char*\<close> becomes a std::string that ends at the first NUL.
\<close>

fun get_member :: "json \<Rightarrow> string \<Rightarrow> json res" where
  "get_member (JObject kvs) k =
     (case map_of kvs k of None \<Rightarrow> Inl JsonAccess | Some j \<Rightarrow> Inr j)"
| "get_member _ k = Inl JsonAccess"

fun get_int :: "json \<Rightarrow> 32 word res" where
  "get_int (JInt i) = (if fits_int i then Inr (word_of_int i) else Inl JsonAccess)"
| "get_int _ = Inl JsonAccess"

fun get_double :: "json_lib \<Rightarrow> json \<Rightarrow> double res" where
  "get_double J (JDouble d) = Inr d"
| "get_double J (JInt i) = Inr (int_to_double J i)"
| "get_double J _ = Inl JsonAccess"

fun get_string :: "json \<Rightarrow> string res" where
  "get_string (JString s) = Inr (cstr s)"
| "get_string _ = Inl JsonAccess"

section \<open>Document\<close>

record document =
  m_id :: "32 word"
  m_title :: string
  m_author :: string
  m_description :: string
  m_price :: double
  m_category :: string
  m_condition :: string
  m_shipping :: string
  m_format :: string
  m_location :: string
  m_keywords :: string
  m_sha :: string

text \<open>A default-constructed Document: \<open>m_id\<close> and \<open>m_price\<close> are indeterminate.\<close>

definition Document_new :: document where
  "Document_new =
     \<lparr> m_id = undefined, m_title = [], m_author = [], m_description = [], m_price = undefined,
       m_category = [], m_condition = [], m_shipping = [], m_format = [], m_location = [],
       m_keywords = [], m_sha = [] \<rparr>"

definition str_field :: "json \<Rightarrow> string \<Rightarrow> string res" where
  "str_field obj k = bindr (get_member obj k) get_string"

definition Document_deserialize :: "json_lib \<Rightarrow> json \<Rightarrow> document \<Rightarrow> document res" where
  "Document_deserialize J obj d =
     bindr (bindr (get_member obj ''id'') get_int) (\<lambda>i.
     bindr (str_field obj ''title'') (\<lambda>t.
     bindr (str_field obj ''author'') (\<lambda>a.
     bindr (str_field obj ''description'') (\<lambda>ds.
     bindr (bindr (get_member obj ''price'') (get_double J)) (\<lambda>p.
     bindr (str_field obj ''category'') (\<lambda>ca.
     bindr (str_field obj ''condition'') (\<lambda>co.
     bindr (str_field obj ''shipping'') (\<lambda>sh.
     bindr (str_field obj ''format'') (\<lambda>fo.
     bindr (str_field obj ''location'') (\<lambda>lo.
     bindr (str_field obj ''keywords'') (\<lambda>ke.
       Inr (d\<lparr> m_id := i, m_title := t, m_author := a, m_description := ds, m_price := p,
               m_category := ca, m_condition := co, m_shipping := sh, m_format := fo,
               m_location := lo, m_keywords := ke \<rparr>))))))))))))"

text \<open>The object the writer receives; every string member goes through \<open>c_str()\<close>.\<close>

definition doc_json :: "document \<Rightarrow> json" where
  "doc_json d = JObject
     [ (''id'', JInt (sint (m_id d))),
       (''title'', JString (cstr (m_title d))),
       (''author'', JString (cstr (m_author d))),
       (''description'', JString (cstr (m_description d))),
       (''price'', JDouble (m_price d)),
       (''category'', JString (cstr (m_category d))),
       (''condition'', JString (cstr (m_condition d))),
       (''shipping'', JString (cstr (m_shipping d))),
       (''format'', JString (cstr (m_format d))),
       (''location'', JString (cstr (m_location d))),
       (''keywords'', JString (cstr (m_keywords d))) ]"

section \<open>JSONBase\<close>

definition JSONBase_serialize :: "json_lib \<Rightarrow> json \<Rightarrow> string" where
  "JSONBase_serialize J j = cstr (write_json J j)"

abbreviation Document_serialize :: "json_lib \<Rightarrow> document \<Rightarrow> string" where
  "Document_serialize J d \<equiv> JSONBase_serialize J (doc_json d)"

definition initDocument :: "json_lib \<Rightarrow> string \<Rightarrow> json option" where
  "initDocument J s = (if s = [] then None else parse_json J (cstr s))"

definition JSONBase_deserialize ::
  "json_lib \<Rightarrow> string \<Rightarrow> document \<Rightarrow> (bool \<times> document) res" where
  "JSONBase_deserialize J s d =
     (case initDocument J s of
        None \<Rightarrow> Inr (False, d)
      | Some j \<Rightarrow> bindr (Document_deserialize J j d) (\<lambda>d'. Inr (True, d')))"

section \<open>Documents\<close>

fun Documents_from :: "json_lib \<Rightarrow> json list \<Rightarrow> document list \<Rightarrow> document list res" where
  "Documents_from J [] m_documents = Inr m_documents"
| "Documents_from J (j # js) m_documents =
     bindr (Document_deserialize J j Document_new) (\<lambda>p.
       Documents_from J js (m_documents @ [p]))"

definition Documents_deserialize ::
  "json_lib \<Rightarrow> string \<Rightarrow> document list \<Rightarrow> (bool \<times> document list) res" where
  "Documents_deserialize J s m_documents =
     (case initDocument J s of
        None \<Rightarrow> Inr (False, m_documents)
      | Some (JArray js) \<Rightarrow> bindr (Documents_from J js m_documents) (\<lambda>ds. Inr (True, ds))
      | Some jdoc \<Rightarrow> bindr (Documents_from J [jdoc] m_documents) (\<lambda>ds. Inr (True, ds)))"

definition Documents_json :: "document list \<Rightarrow> json" where
  "Documents_json m_documents = JArray (map doc_json m_documents)"

text \<open>Files are a map from names to contents; an unreadable file streams nothing.\<close>

type_synonym files = "string \<Rightarrow> string option"

definition deserializeFromFile ::
  "json_lib \<Rightarrow> files \<Rightarrow> string \<Rightarrow> document list \<Rightarrow> (bool \<times> document list) res" where
  "deserializeFromFile J fs filePath m_documents =
     Documents_deserialize J (case fs filePath of None \<Rightarrow> [] | Some txt \<Rightarrow> txt) m_documents"

text \<open>\<open>writable\<close>: the files the stream can open; a failure to open is not noticed.\<close>

definition serializeToFile :: "json_lib \<Rightarrow> (string \<Rightarrow> bool) \<Rightarrow> json \<Rightarrow> string \<Rightarrow> files \<Rightarrow> bool \<times> files" where
  "serializeToFile J writable j filePath fs =
     (True, if writable filePath then fs(filePath \<mapsto> JSONBase_serialize J j) else fs)"

section \<open>What the library promises\<close>

fun json_finite :: "json \<Rightarrow> bool" where
  "json_finite (JDouble d) = dbl_finite d"
| "json_finite (JArray js) = (\<forall>j\<in>set js. json_finite j)"
| "json_finite (JObject kvs) = (\<forall>kv\<in>set kvs. json_finite (snd kv))"
| "json_finite _ = True"

definition json_laws :: "json_lib \<Rightarrow> (double \<Rightarrow> double) \<Rightarrow> bool" where
  "json_laws J rr \<longleftrightarrow>
     (\<forall>d. dbl_finite (m_price d) \<longrightarrow>
        write_json J (doc_json d) \<noteq> [] \<and>
        NUL \<notin> set (write_json J (doc_json d)) \<and>
        parse_json J (write_json J (doc_json d)) = Some (doc_json (d\<lparr>m_price := rr (m_price d)\<rparr>))) \<and>
     (\<forall>s j. parse_json J s = Some j \<longrightarrow> json_finite j) \<and>
     (\<forall>i. dbl_finite (int_to_double J i))"

section \<open>Round trip\<close>

text \<open>What is left of a document's members once they have been through C strings.\<close>

definition doc_norm :: "document \<Rightarrow> document" where
  "doc_norm d = d\<lparr> m_title := cstr (m_title d), m_author := cstr (m_author d),
     m_description := cstr (m_description d), m_category := cstr (m_category d),
     m_condition := cstr (m_condition d), m_shipping := cstr (m_shipping d),
     m_format := cstr (m_format d), m_location := cstr (m_location d),
     m_keywords := cstr (m_keywords d) \<rparr>"

lemma fits_int_sint [simp]: "fits_int (sint (w :: 32 word))"
  using sint_ge [of w] sint_lt [of w] by (simp add: fits_int_def)

lemma Document_deserialize_doc_json:
  "Document_deserialize J (doc_json d) d0 = Inr ((doc_norm d)\<lparr>m_sha := m_sha d0\<rparr>)"
  by (simp add: Document_deserialize_def doc_json_def str_field_def doc_norm_def)

lemma doc_json_norm [simp]: "doc_json ((doc_norm d)\<lparr>m_sha := s\<rparr>) = doc_json d"
  by (simp add: doc_json_def doc_norm_def)

lemma doc_json_sha [simp]: "doc_json (d\<lparr>m_sha := s\<rparr>) = doc_json d"
  by (simp add: doc_json_def)

lemma doc_norm_simps [simp]:
  "m_author (doc_norm d) = cstr (m_author d)"
  "m_price (doc_norm d) = m_price d"
  "m_id (doc_norm d) = m_id d"
  by (simp_all add: doc_norm_def)

lemma json_laws_serialize:
  assumes "json_laws J rr" and "dbl_finite (m_price d)"
  shows "Document_serialize J d = write_json J (doc_json d)"
    and "Document_serialize J d \<noteq> []"
    and "initDocument J (Document_serialize J d) = Some (doc_json (d\<lparr>m_price := rr (m_price d)\<rparr>))"
  using assms by (auto simp: json_laws_def JSONBase_serialize_def initDocument_def cstr_id)

lemma json_laws_finite:
  assumes "json_laws J rr" and "initDocument J s = Some j"
  shows "json_finite j"
  using assms by (auto simp: json_laws_def initDocument_def split: if_splits)

lemma get_member_finite:
  "json_finite j \<Longrightarrow> get_member j k = Inr v \<Longrightarrow> json_finite v"
  by (cases j) (fastforce split: option.splits dest: map_of_SomeD)+

lemma get_double_finite:
  "json_laws J rr \<Longrightarrow> json_finite j \<Longrightarrow> get_double J j = Inr p \<Longrightarrow> dbl_finite p"
  by (cases j) (auto simp: json_laws_def)

text \<open>Every document read from text has a finite price and no NUL in any string.\<close>

lemma get_string_NUL: "get_string j = Inr s \<Longrightarrow> cstr s = s"
  by (cases j) auto

lemma str_field_NUL: "str_field obj k = Inr s \<Longrightarrow> cstr s = s"
  by (auto simp: str_field_def get_string_NUL)

lemma Document_deserialize_form:
  assumes "json_laws J rr" and "json_finite j" and "Document_deserialize J j d0 = Inr d"
  shows "dbl_finite (m_price d)" and "doc_norm d = d" and "m_sha d = m_sha d0"
  using assms
  by (auto simp: Document_deserialize_def doc_norm_def bindr_Inr_conv str_field_NUL
      dest: get_member_finite get_double_finite)

lemma JSONBase_deserialize_form:
  assumes "json_laws J rr" and "JSONBase_deserialize J s d0 = Inr (True, d)"
  shows "dbl_finite (m_price d)" and "doc_norm d = d"
proof -
  from assms(2) obtain j where j: "initDocument J s = Some j" "Document_deserialize J j d0 = Inr d"
    by (auto simp: JSONBase_deserialize_def split: option.splits)
  have "json_finite j" using assms(1) j(1) by (rule json_laws_finite)
  with assms(1) j(2) show "dbl_finite (m_price d)" "doc_norm d = d"
    by (auto dest: Document_deserialize_form)
qed

text \<open>One trip through the text: the members come back up to C strings and price rounding.\<close>

lemma serialize_deserialize:
  assumes "json_laws J rr" and "dbl_finite (m_price d)"
  shows "JSONBase_deserialize J (Document_serialize J d) d0
    = Inr (True, (doc_norm d)\<lparr>m_price := rr (m_price d), m_sha := m_sha d0\<rparr>)"
  using json_laws_serialize(3) [OF assms]
  by (simp add: JSONBase_deserialize_def Document_deserialize_doc_json doc_norm_def)

text \<open>An author survives the trip exactly when it holds no NUL.\<close>

lemma serialize_deserialize_author:
  assumes "json_laws J rr" and "dbl_finite (m_price d)"
    and "JSONBase_deserialize J (Document_serialize J d) d0 = Inr (b, d')"
  shows "m_author d' = cstr (m_author d)"
  using assms serialize_deserialize [OF assms(1,2), of d0] by auto

text \<open>A file with a single object is a list of one document.\<close>

lemma Documents_deserialize_single:
  assumes "initDocument J s = Some (doc_json d)"
  shows "Documents_deserialize J s ds = Inr (True, ds @ [(doc_norm d)\<lparr>m_sha := m_sha Document_new\<rparr>])"
proof -
  obtain kvs where kvs: "doc_json d = JObject kvs" by (simp add: doc_json_def)
  show ?thesis
    using assms Document_deserialize_doc_json [of J d Document_new]
    by (simp add: Documents_deserialize_def kvs)
qed

end
