(* ===== verification/Xapian.thy ===== *)
theory Xapian
  imports Json_Document
begin

text \<open>
  The search engine as piac sees it. Xapian is not part of the repository, so its operations are a
  record of parameters over an unknown type \<open>'db\<close> of database states, and its documented behaviour is
  the predicate \<open>xapian_laws\<close>, stated through a view of a database as a finite map from document ids
  to documents. The environment \<open>env\<close> also holds the other libraries a daemon uses: the JSON
  library, the digest and its hexadecimal form, the printing of a double and the readable files.
\<close>

type_synonym xerr = string

record xdoc =
  xd_data :: string
  xd_terms :: "string list"
  xd_values :: "(nat \<times> string) list"

record xmatch =
  xm_rank :: nat
  xm_weight :: string
  xm_docid :: nat

text \<open>
  \<open>x_open\<close>: Database(name), an error or nothing; \<open>x_open_rw\<close>: WritableDatabase(name), which creates a
  missing database; \<open>x_commit committed pending\<close>: the outcome of commit(), or of the destructor's
  implicit commit (which drops the error), and the state left on disk.
\<close>

record 'db xapian =
  x_open :: "'db \<Rightarrow> string \<Rightarrow> xerr option"
  x_open_rw :: "'db \<Rightarrow> string \<Rightarrow> xerr + 'db"
  x_commit :: "'db \<Rightarrow> 'db \<Rightarrow> xerr option \<times> 'db"
  x_doccount :: "'db \<Rightarrow> nat"
  x_postlist :: "'db \<Rightarrow> string \<Rightarrow> nat list"
  x_get_data :: "'db \<Rightarrow> nat \<Rightarrow> string"
  x_index_text :: "string \<Rightarrow> string \<Rightarrow> string list"
  x_replace_document :: "'db \<Rightarrow> string \<Rightarrow> xdoc \<Rightarrow> xerr + 'db"
  x_delete_document :: "'db \<Rightarrow> string \<Rightarrow> xerr + 'db"
  x_mset :: "'db \<Rightarrow> string \<Rightarrow> nat \<Rightarrow> nat \<Rightarrow> xerr + (nat \<times> xmatch list)"

record 'db env =
  e_dbg :: bool
  e_json :: json_lib
  e_xap :: "'db xapian"
  e_sha :: "string \<Rightarrow> string"
  e_hex :: "string \<Rightarrow> string"
  e_dstr :: "double \<Rightarrow> string"
  e_files :: files

text \<open>src/crypto_util.cpp: both functions hand their argument to Crypto++ and return its output.\<close>

definition sha256 :: "'db env \<Rightarrow> string \<Rightarrow> string" where
  "sha256 E msg = e_sha E msg"

definition hex :: "'db env \<Rightarrow> string \<Rightarrow> string" where
  "hex E digest = e_hex E digest"

section \<open>Documented behaviour\<close>

type_synonym xview = "nat \<Rightarrow> xdoc option"

definition indexed_by :: "xview \<Rightarrow> string \<Rightarrow> nat set" where
  "indexed_by v t = {i. \<exists>d. v i = Some d \<and> (t = [] \<or> t \<in> set (xd_terms d))}"

definition xapian_laws :: "'db xapian \<Rightarrow> ('db \<Rightarrow> xview) \<Rightarrow> bool" where
  "xapian_laws X view \<longleftrightarrow>
     (\<forall>db. finite (dom (view db))) \<and>
     (\<forall>db. x_doccount X db = card (dom (view db))) \<and>
     (\<forall>db t. set (x_postlist X db t) = indexed_by (view db) t \<and> distinct (x_postlist X db t)) \<and>
     (\<forall>db i d. view db i = Some d \<longrightarrow> x_get_data X db i = xd_data d) \<and>
     (\<forall>txt p w. w \<in> set (x_index_text X txt p) \<longrightarrow> (p = [] \<or> hd p \<noteq> CHR ''Q'') \<longrightarrow>
        w \<noteq> [] \<and> hd w \<noteq> CHR ''Q'') \<and>
     (\<forall>db name db'. x_open_rw X db name = Inr db' \<longrightarrow> view db' = view db) \<and>
     (\<forall>db t d db'. x_replace_document X db t d = Inr db' \<longrightarrow> t \<noteq> [] \<longrightarrow>
        (\<exists>i. (view db i = None \<or> i \<in> indexed_by (view db) t) \<and>
             view db' = ((view db) |` (- indexed_by (view db) t))(i \<mapsto> d))) \<and>
     (\<forall>db t db'. x_delete_document X db t = Inr db' \<longrightarrow>
        view db' = (view db) |` (- indexed_by (view db) t)) \<and>
     (\<forall>db0 db err db'. x_commit X db0 db = (err, db') \<longrightarrow>
        view db' = view db \<or> err \<noteq> None \<and> view db' = view db0)"

lemma xapian_lawsD:
  assumes "xapian_laws X view"
  shows laws_finite: "finite (dom (view db))"
    and laws_doccount: "x_doccount X db = card (dom (view db))"
    and laws_postlist: "set (x_postlist X db t) = indexed_by (view db) t"
    and laws_postlist_distinct: "distinct (x_postlist X db t)"
    and laws_get_data: "view db i = Some d \<Longrightarrow> x_get_data X db i = xd_data d"
    and laws_index_text: "w \<in> set (x_index_text X txt p) \<Longrightarrow> p = [] \<or> hd p \<noteq> CHR ''Q'' \<Longrightarrow>
          w \<noteq> [] \<and> hd w \<noteq> CHR ''Q''"
    and laws_open_rw: "x_open_rw X db name = Inr db' \<Longrightarrow> view db' = view db"
    and laws_delete: "x_delete_document X db t = Inr db' \<Longrightarrow>
          view db' = (view db) |` (- indexed_by (view db) t)"
    and laws_commit: "x_commit X db0 db = (err, db') \<Longrightarrow>
          view db' = view db \<or> err \<noteq> None \<and> view db' = view db0"
  using assms unfolding xapian_laws_def by - (elim conjE, metis)+

lemma laws_replace:
  assumes "xapian_laws X view" and "x_replace_document X db t d = Inr db'" and "t \<noteq> []"
  obtains i where "view db i = None \<or> i \<in> indexed_by (view db) t"
    and "view db' = ((view db) |` (- indexed_by (view db) t))(i \<mapsto> d)"
  using assms unfolding xapian_laws_def by metis

section \<open>Entries and their keys\<close>

text \<open>The data of all documents of a database, and the documents a term indexes.\<close>

definition entries :: "xview \<Rightarrow> string set" where
  "entries v = {xd_data d |d. d \<in> ran v}"

text \<open>
  The key invariant of piac's databases: the one term with prefix Q of a document is the digest of
  its data, and there is at most one document for a digest.
\<close>

definition keyed :: "(string \<Rightarrow> string) \<Rightarrow> xview \<Rightarrow> bool" where
  "keyed sha v \<longleftrightarrow>
     (\<forall>d\<in>ran v. \<forall>h. CHR ''Q'' # h \<in> set (xd_terms d) \<longleftrightarrow> h = sha (xd_data d)) \<and>
     (\<forall>i j d d'. v i = Some d \<longrightarrow> v j = Some d' \<longrightarrow> sha (xd_data d) = sha (xd_data d') \<longrightarrow> i = j)"

definition doc_keyed :: "(string \<Rightarrow> string) \<Rightarrow> xdoc \<Rightarrow> bool" where
  "doc_keyed sha d \<longleftrightarrow> (\<forall>h. CHR ''Q'' # h \<in> set (xd_terms d) \<longleftrightarrow> h = sha (xd_data d))"

lemma keyed_indexed_by:
  assumes "keyed sha v"
  shows "indexed_by v (CHR ''Q'' # h) = {i. \<exists>d. v i = Some d \<and> sha (xd_data d) = h}"
  using assms by (fastforce simp: keyed_def indexed_by_def ran_def)

lemma keyed_restrict: "keyed sha v \<Longrightarrow> keyed sha (v |` A)"
  by (fastforce simp: keyed_def ran_def restrict_map_def split: if_splits)

lemma keyed_upd:
  assumes "keyed sha v" and "doc_keyed sha d" and "\<And>e. e \<in> ran v \<Longrightarrow> sha (xd_data e) \<noteq> sha (xd_data d)"
  shows "keyed sha (v(i \<mapsto> d))"
  unfolding keyed_def
proof (intro conjI ballI allI impI)
  fix e h
  assume "e \<in> ran (v(i \<mapsto> d))"
  then have "e = d \<or> e \<in> ran v" by (auto simp: ran_def split: if_splits)
  then show "(CHR ''Q'' # h \<in> set (xd_terms e)) = (h = sha (xd_data e))"
    using assms(1,2) unfolding keyed_def doc_keyed_def by blast
next
  fix k l e e'
  assume e: "(v(i \<mapsto> d)) k = Some e" "(v(i \<mapsto> d)) l = Some e'" "sha (xd_data e) = sha (xd_data e')"
  have "v n = Some x \<Longrightarrow> sha (xd_data x) \<noteq> sha (xd_data d)" for n x
    using assms(3) by (simp add: ranI)
  moreover have "v k = Some e \<Longrightarrow> v l = Some e' \<Longrightarrow> k = l"
    using assms(1) e(3) unfolding keyed_def by blast
  ultimately show "k = l" using e by (auto split: if_splits)
qed

lemma keyed_replace:
  assumes "keyed sha v" and "doc_keyed sha d"
  shows "keyed sha ((v |` (- indexed_by v (CHR ''Q'' # sha (xd_data d))))(i \<mapsto> d))"
proof (rule keyed_upd [OF keyed_restrict [OF assms(1)] assms(2)])
  fix e
  assume "e \<in> ran (v |` (- indexed_by v (CHR ''Q'' # sha (xd_data d))))"
  then show "sha (xd_data e) \<noteq> sha (xd_data d)"
    unfolding keyed_indexed_by [OF assms(1)] by (auto simp: ran_def restrict_map_def split: if_splits)
qed

lemma keyed_inj:
  assumes "keyed sha v"
  shows "inj_on (\<lambda>i. xd_data (the (v i))) (dom v)"
  using assms unfolding keyed_def inj_on_def by (metis domD option.sel)

lemma keyed_entries:
  assumes "keyed sha v"
  shows "entries v = (\<lambda>i. xd_data (the (v i))) ` dom v" and "card (entries v) = card (dom v)"
proof -
  show e: "entries v = (\<lambda>i. xd_data (the (v i))) ` dom v" by (force simp: entries_def ran_def)
  show "card (entries v) = card (dom v)" unfolding e using card_image [OF keyed_inj [OF assms]] .
qed

lemma entries_iff: "e \<in> entries v \<longleftrightarrow> (\<exists>i d. v i = Some d \<and> xd_data d = e)"
  by (auto simp: entries_def ran_def)

lemma entries_restrict: "e \<in> entries (v |` A) \<longleftrightarrow> (\<exists>i\<in>A. \<exists>d. v i = Some d \<and> xd_data d = e)"
  by (auto simp: entries_iff restrict_map_def)

lemma entries_remove_key:
  assumes "keyed sha v"
  shows "entries (v |` (- indexed_by v (CHR ''Q'' # h))) = {e \<in> entries v. sha e \<noteq> h}"
  unfolding keyed_indexed_by [OF assms] set_eq_iff entries_restrict
  by (auto simp: entries_iff)

lemma entries_replace_key:
  assumes "keyed sha v" and "v i = None \<or> i \<in> indexed_by v (CHR ''Q'' # sha (xd_data d))"
  shows "entries ((v |` (- indexed_by v (CHR ''Q'' # sha (xd_data d))))(i \<mapsto> d))
    = insert (xd_data d) {e \<in> entries v. sha e \<noteq> sha (xd_data d)}"
proof -
  let ?v = "v |` (- indexed_by v (CHR ''Q'' # sha (xd_data d)))"
  have "?v i = None" using assms(2) by (auto simp: restrict_map_def)
  then have "entries (?v(i \<mapsto> d)) = insert (xd_data d) (entries ?v)"
    by (auto simp: entries_iff split: if_splits) (metis option.distinct(1))
  then show ?thesis using entries_remove_key [OF assms(1)] by simp
qed

lemma entries_empty: "entries v = {} \<longleftrightarrow> v = Map.empty"
  by (auto simp: entries_def ran_def fun_eq_iff) (metis not_None_eq)

end
