(* ===== verification/Monero_Util.thy ===== *)
theory Monero_Util
  imports Zmq_Util String_Util Xapian
begin

text \<open>
  src/monero_util.cpp: the commands the client sends to its daemon, with the user's digest appended to
  those that change the database, and the wallet commands. The wallet library (monero-cpp) is a
  parameter, the record \<open>wallet_lib\<close> over an unknown type of wallets; so is the formatting of
  floating-point numbers. What a function prints or asks of the network and the wallet is its list
  of actions; the error \<open>Blocked\<close> says that the client still waits for the daemon when the network
  events end.
\<close>

record wallet_listener =
  m_height :: "64 word"
  m_start_height :: "64 word"
  m_end_height :: "64 word"
  m_percent_done :: double
  m_message :: string

record 'w wallet_lib =
  w_create :: "string option \<Rightarrow> string \<Rightarrow> 'w res"
  w_connected :: "'w \<Rightarrow> bool"
  w_mnemonic :: "'w \<Rightarrow> string"
  w_primary_address :: "'w \<Rightarrow> string"
  w_private_view_key :: "'w \<Rightarrow> string"
  w_public_view_key :: "'w \<Rightarrow> string"
  w_private_spend_key :: "'w \<Rightarrow> string"
  w_public_spend_key :: "'w \<Rightarrow> string"
  w_balance_text :: "'w \<Rightarrow> string"
  w_percent_text :: "double \<Rightarrow> string"

text \<open>What the client knows of the outside: the digest, the network and the wallet library.\<close>

record 'w cli_env =
  c_build :: build_info
  c_dbg :: bool
  c_sha :: "string \<Rightarrow> string"
  c_key_ok :: "string \<Rightarrow> bool"
  c_reach :: "string \<Rightarrow> bool"
  c_wallet :: "'w wallet_lib"

section \<open>Listener\<close>

definition on_sync_progress ::
  "64 word \<Rightarrow> 64 word \<Rightarrow> 64 word \<Rightarrow> double \<Rightarrow> string \<Rightarrow> wallet_listener \<Rightarrow> wallet_listener" where
  "on_sync_progress height start_height end_height percent_done info l =
     l\<lparr>m_height := height, m_start_height := start_height, m_end_height := end_height,
       m_percent_done := percent_done, m_message := info\<rparr>"

section \<open>Commands to the daemon\<close>

definition needs_auth :: "string \<Rightarrow> bool" where
  "needs_auth cmd \<longleftrightarrow>
     find_sub ''db'' cmd \<noteq> None \<and> (find_sub ''add'' cmd \<noteq> None \<or> find_sub ''rm'' cmd \<noteq> None)"

definition need_wallet_msg :: string where
  "need_wallet_msg = ''Need active user id (wallet) to add to db. See ''@ [CHR 0x27] @ ''new'' @ [CHR 0x27] @
     '' or '' @ [CHR 0x27] @ ''user'' @ [CHR 0x27] @ ''.'' @ eol"

text \<open>The command as sent, or None when the user id it needs is missing.\<close>

definition auth_cmd :: "'w cli_env \<Rightarrow> string \<Rightarrow> 'w option \<Rightarrow> string option" where
  "auth_cmd C cmd wallet =
     (if needs_auth cmd then
        (case wallet of
           None \<Rightarrow> None
         | Some w \<Rightarrow> Some (cmd @ '' AUTH:'' @ c_sha C (w_primary_address (c_wallet C) w)))
      else Some cmd)"

definition send_cmd ::
  "'w cli_env \<Rightarrow> poll_event list \<Rightarrow> string \<Rightarrow> string \<Rightarrow> string \<Rightarrow> keypair \<Rightarrow> 'w option
    \<Rightarrow> cli_out list res" where
  "send_cmd C evs cmd0 host rpc_server_public_key client_keys wallet =
     (case auth_cmd C (trim cmd0) wallet of
        None \<Rightarrow> Inr [Out need_wallet_msg]
      | Some cmd \<Rightarrow>
          bindr (daemon_socket (c_key_ok C) (c_reach C) host rpc_server_public_key client_keys) (\<lambda>opts.
            case pirate_send evs of
              None \<Rightarrow> Inl Blocked
            | Some (reply, n) \<Rightarrow>
                Inr (concat (replicate n [OpenSocket opts, Request cmd host]) @ [Out (reply @ eol)])))"

section \<open>Wallets\<close>

definition start_syncing :: "'w cli_env \<Rightarrow> string \<Rightarrow> 'w \<Rightarrow> cli_out list" where
  "start_syncing C msg wallet =
     Out msg #
     (if w_connected (c_wallet C) wallet then
        [Out ('', starting background sync, check progress with '' @ [CHR 0x27] @ ''balance'' @
              [CHR 0x27] @ eol), AddListener, StartSyncing 10000]
      else [Out ('', no connection to monero daemon'' @ eol)])"

definition new_wallet_help :: string where
  "new_wallet_help =
     ''This is your monero wallet mnemonic seed that identifies you within'' @ eol @
     ''piac. You can use it to create your ads or pay for a product. This seed'' @ eol @
     ''can be restored within your favorite monero wallet software and you can'' @ eol @
     ''use this wallet just like any other monero wallet. Save this seed and'' @ eol @
     ''keep it secret.'' @ eol"

definition create_wallet :: "'w cli_env \<Rightarrow> string \<Rightarrow> ('w \<times> cli_out list) res" where
  "create_wallet C monerod_host =
     bindr (w_create (c_wallet C) None monerod_host) (\<lambda>wallet.
       Inr (wallet, start_syncing C ''Created new user/wallet'' wallet @
         [Out (''Mnemonic seed: '' @ w_mnemonic (c_wallet C) wallet @ eol @ new_wallet_help)]))"

definition no_wallet_msg :: "string \<Rightarrow> string" where
  "no_wallet_msg need = need @ '' active user id (wallet). See '' @ [CHR 0x27] @ ''new'' @ [CHR 0x27] @
     '' or '' @ [CHR 0x27] @ ''user'' @ [CHR 0x27] @ ''.'' @ eol"

definition show_wallet_keys :: "'w cli_env \<Rightarrow> 'w option \<Rightarrow> cli_out list" where
  "show_wallet_keys C wallet =
     (case wallet of
        None \<Rightarrow> [Out (no_wallet_msg ''Need'')]
      | Some w \<Rightarrow>
          [Out (''Mnemonic seed: '' @ w_mnemonic (c_wallet C) w @ eol),
           Out (''Primary address: '' @ w_primary_address (c_wallet C) w @ eol),
           Out (''Secret view key: '' @ w_private_view_key (c_wallet C) w @ eol),
           Out (''Public view key: '' @ w_public_view_key (c_wallet C) w @ eol),
           Out (''Secret spend key: '' @ w_private_spend_key (c_wallet C) w @ eol),
           Out (''Public spend key: '' @ w_public_spend_key (c_wallet C) w @ eol)])"

definition show_wallet_balance ::
  "'w cli_env \<Rightarrow> 'w option \<Rightarrow> wallet_listener \<Rightarrow> cli_out list" where
  "show_wallet_balance C wallet listener =
     (case wallet of
        None \<Rightarrow> [Out (no_wallet_msg ''Need'')]
      | Some w \<Rightarrow>
          [Out (''Balance = '' @ w_balance_text (c_wallet C) w @ '' XMR'' @ eol),
           Out (''Wallet sync start height: '' @ nat_to_string (unat (m_start_height listener)) @ eol),
           Out (''Wallet sync height: '' @ nat_to_string (unat (m_height listener)) @ eol),
           Out (''Wallet sync end height: '' @ nat_to_string (unat (m_end_height listener)) @ eol),
           Out (''Wallet sync at: '' @ w_percent_text (c_wallet C) (m_percent_done listener) @ ''%'' @ eol)])"

definition switch_user :: "'w cli_env \<Rightarrow> string \<Rightarrow> string \<Rightarrow> ('w \<times> cli_out list) res" where
  "switch_user C mnemonic monerod_host =
     bindr (cassert (c_dbg C) (mnemonic \<noteq> [])) (\<lambda>_.
     bindr (w_create (c_wallet C) (Some mnemonic) monerod_host) (\<lambda>wallet.
       Inr (wallet, start_syncing C ''Switched to new user/wallet'' wallet)))"

definition show_user :: "'w cli_env \<Rightarrow> 'w option \<Rightarrow> cli_out list" where
  "show_user C wallet =
     (case wallet of
        None \<Rightarrow> [Out (no_wallet_msg ''No'')]
      | Some w \<Rightarrow> [Out (''Mnemonic seed: '' @ w_mnemonic (c_wallet C) w @ eol)])"

section \<open>What reaches the daemon\<close>

text \<open>The requests among the actions.\<close>

fun requests :: "cli_out list \<Rightarrow> (string \<times> string) list" where
  "requests [] = []"
| "requests (Request c h # os) = (c, h) # requests os"
| "requests (_ # os) = requests os"

lemma requests_append: "requests (xs @ ys) = requests xs @ requests ys"
  by (induction xs rule: requests.induct) auto

lemma requests_replicate [simp]:
  "requests (concat (replicate n [OpenSocket opts, Request c h])) = replicate n (c, h)"
  by (induction n) auto

lemma send_cmd_requests:
  assumes "send_cmd C evs cmd0 host key keys wallet = Inr out" and "(m, h) \<in> set (requests out)"
  shows "auth_cmd C (trim cmd0) wallet = Some m \<and> h = host"
  using assms
  by (auto simp: send_cmd_def bindr_Inr_conv requests_append split: option.splits)

text \<open>No request of a user without a wallet changes the database.\<close>

lemma auth_cmd_None: "auth_cmd C cmd wallet = None \<longleftrightarrow> needs_auth cmd \<and> wallet = None"
  by (auto simp: auth_cmd_def split: option.splits)

end
