(* ===== verification/Usage.thy ===== *)
theory Usage
  imports Program Cpp_Number
begin

text \<open>
  The texts that explain the options and the commands: \<open>usage\<close> of src/daemon.cpp and of src/cli.cpp, and
  the answer to the command help. The values they call defaults are those of the moment.
\<close>

definition daemon_usage :: "build_info \<Rightarrow> string \<Rightarrow> string \<Rightarrow> string \<Rightarrow> int \<Rightarrow> int \<Rightarrow> string" where
  "daemon_usage B db_name logfile rpc_server_save_public_key_file rpc_port p2p_port =
     ''Usage: '' @ daemon_executable B @ '' [OPTIONS]'' @ eol @
     eol @
     ''OPTIONS'' @ eol @
     ''  --db <directory>'' @ eol @
     ''         Use database, default: '' @ db_name @ ''.'' @ eol @
     eol @
     ''  --detach'' @ eol @
     ''         Run as a daemon in the background.'' @ eol @
     eol @
     ''  --help'' @ eol @
     ''         Show help message.'' @ eol @
     eol @
     ''  --log-file <filename.log>'' @ eol @
     ''         Specify log filename, default: '' @ logfile @ ''.'' @ eol @
     eol @
     ''  --log-level <[0-4]>'' @ eol @
     ''         Specify log level: 0: minimum, 4: maximum.'' @ eol @
     eol @
     ''  --max-log-file-size <size-in-bytes> '' @ eol @
     ''         Specify maximum log file size in bytes. Default: '' @ nat_to_string (MAX_LOG_FILE_SIZE B) @ ''. Once the log file'' @ eol @
     ''         grows past that limit, the next log file is created with a UTC timestamp postfix'' @ eol @
     ''         -YYYY-MM-DD-HH-MM-SS. Set --max-log-file-size 0 to prevent '' @ cli_executable B @ '' from managing'' @ eol @
     ''         the log files.'' @ eol @
     eol @
     ''  --max-log-files <num> '' @ eol @
     ''         Specify a limit on the number of log files. Default: '' @ nat_to_string (MAX_LOG_FILES B) @ ''. The oldest log files'' @ eol @
     ''         are removed. In production deployments, you would probably prefer to use'' @ eol @
     ''         established solutions like logrotate instead.'' @ eol @
     eol @
     ''  --peer <hostname>[:port]'' @ eol @
     ''         Specify a peer to connect to.'' @ eol @
     eol @
     ''  --rpc-bind-port <port>'' @ eol @
     ''         Listen on RPC port given, default: '' @ int_to_string (rpc_port) @ ''.'' @ eol @
     eol @
     ''  --rpc-secure'' @ eol @
     ''         Enable secure connection to clients.'' @ eol @
     eol @
     ''  --rpc-server-public-key-file <filename>'' @ eol @
     ''         Load server public key from file. Need to also set --rpc-secure.'' @ eol @
     eol @
     ''  --rpc-server-secret-key-file <filename>'' @ eol @
     ''         Load server secret key from file. Need to also set --rpc-secure.'' @ eol @
     eol @
     ''  --rpc-authorized-clients-file <filename>'' @ eol @
     ''         Only allow client connections with public keys read from this file. Need to also'' @ eol @
     ''         set --rpc-secure.'' @ eol @
     eol @
     ''  --rpc-server-save-public-key-file <filename>'' @ eol @
     ''         Save self-generated server public key to file. Default: '' @ rpc_server_save_public_key_file @ ''. Need to'' @ eol @
     ''         also set --rpc-secure.'' @ eol @
     eol @
     ''  --p2p-bind-port <port>'' @ eol @
     ''         Listen on P2P port given, default: '' @ int_to_string (p2p_port) @ ''.'' @ eol @
     eol @
     ''  --version'' @ eol @
     ''         Show version information.'' @ eol @
     eol"

definition cli_usage :: "build_info \<Rightarrow> nat \<Rightarrow> string \<Rightarrow> string" where
  "cli_usage B sync_timeout logfile =
     ''Usage: '' @ cli_executable B @ '' [OPTIONS]'' @ eol @
     eol @
     ''OPTIONS'' @ eol @
     ''  --help'' @ eol @
     ''         Show help message.'' @ eol @
     eol @
     ''  --log-file <filename.log>'' @ eol @
     ''         Specify log filename, default: '' @ logfile @ ''.'' @ eol @
     eol @
     ''  --log-level <[0-4]>'' @ eol @
     ''         Specify log level: 0: minimum, 4: maximum.'' @ eol @
     eol @
     ''  --max-log-file-size <size-in-bytes> '' @ eol @
     ''         Specify maximum log file size in bytes. Default: '' @ nat_to_string (MAX_LOG_FILE_SIZE B) @ ''. Once the log file'' @ eol @
     ''         grows past that limit, the next log file is created with a UTC timestamp postfix'' @ eol @
     ''         -YYYY-MM-DD-HH-MM-SS. Set --max-log-file-size 0 to prevent '' @ cli_executable B @ '' from managing'' @ eol @
     ''         the log files.'' @ eol @
     eol @
     ''  --max-log-files <num> '' @ eol @
     ''         Specify a limit on the number of log files. Default: '' @ nat_to_string (MAX_LOG_FILES B) @ ''. The oldest log files'' @ eol @
     ''         are removed. In production deployments, you would probably prefer to use'' @ eol @
     ''         established solutions like logrotate instead.'' @ eol @
     eol @
     ''  --rpc-secure'' @ eol @
     ''         Enable secure connection to server.'' @ eol @
     eol @
     ''  --rpc-client-public-key-file <filename>'' @ eol @
     ''         Load client public key from file. Need to also set --rpc-secure.'' @ eol @
     eol @
     ''  --rpc-client-secret-key-file <filename>'' @ eol @
     ''         Load client secret key from file. Need to also set --rpc-secure.'' @ eol @
     eol @
     ''  --rpc-server-public-key <key>'' @ eol @
     ''         Specify server public key. Need to also set --rpc-secure.'' @ eol @
     eol @
     ''  --rpc-server-public-key-file <filename>'' @ eol @
     ''         Load server public key from file. Neet to also set --rpc-secure. If given,'' @ eol @
     ''         --rpc-server-public-key takes precedence.'' @ eol @
     eol @
     ''  --matrix-sync-timeout'' @ eol @
     ''         Timeout in milliseconds for matrix sync calls. The default is '' @ nat_to_string (sync_timeout) @ ''.'' @ eol @
     eol @
     ''  --version'' @ eol @
     ''         Show version information.'' @ eol @
     eol"

definition cli_help :: "build_info \<Rightarrow> string \<Rightarrow> string \<Rightarrow> string" where
  "cli_help B monerod_host piac_host =
     ''COMMANDS'' @ eol @
     ''      balance'' @ eol @
     ''                Show monero wallet balance and sync status'' @ eol @
     eol @
     ''      db <command>'' @ eol @
     ''                Send database command to piac daemon. Example db commands:'' @ eol @
     ''                > db query cat - search for the word '' @ [CHR 0x27] @ ''cat'' @ [CHR 0x27] @ eol @
     ''                > db query race -condition - search for '' @ [CHR 0x27] @ ''race'' @ [CHR 0x27] @ '' but not '' @ [CHR 0x27] @ ''condition'' @ [CHR 0x27] @ eol @
     ''                > db add json <path-to-json-db-entry>'' @ eol @
     ''                > db rm <hash> - remove document'' @ eol @
     ''                > db list - list all documents'' @ eol @
     ''                > db list hash - list all document hashes'' @ eol @
     ''                > db list numdoc - list number of documents'' @ eol @
     ''                > db list numusr - list number of users in db'' @ eol @
     eol @
     ''      exit, quit, q'' @ eol @
     ''                Exit'' @ eol @
     eol @
     ''      help'' @ eol @
     ''                This help message'' @ eol @
     eol @
     ''      keys'' @ eol @
     ''                Show monero wallet keys of current user'' @ eol @
     eol @
     ''      matrix <host>[:<port>] <username> <password>]'' @ eol @
     ''                Specify matrix server login information to connect to. The <host>'' @ eol @
     ''                argument specifies a hostname or an IPv4 address in standard dot'' @ eol @
     ''                notation. The optional <port> argument is an integer specifying a'' @ eol @
     ''                port. If unspecified, the default port is 443. The <host>[:<port>]'' @ eol @
     ''                argument must be followed by <username> and <password>. Use'' @ eol @
     ''                '' @ [CHR 0x27] @ ''matrix '' @ [CHR 0x22] @ [CHR 0x22] @ [CHR 0x27] @ '' to clear the setting and disable communication via the'' @ eol @
     ''                built-in matrix client. Note that connecting to a matrix server also'' @ eol @
     ''                requires an active user id, see also '' @ [CHR 0x27] @ ''new'' @ [CHR 0x27] @ '' or '' @ [CHR 0x27] @ ''user'' @ [CHR 0x27] @ ''.'' @ eol @
     eol @
     ''      msg <user> <message>'' @ eol @
     ''                Send a message to user, where <user> is a matrix user id and message'' @ eol @
     ''                is either a single word or a doubly-quoted multi-word message.'' @ eol @
     eol @
     ''      monerod [<host>[:<port>]]'' @ eol @
     ''                Specify monero node to connect to. The <host> argument specifies'' @ eol @
     ''                a hostname or an IPv4 address in standard dot notation. The'' @ eol @
     ''                optional <port> argument is an integer specifying a port. The'' @ eol @
     ''                default is '' @ monerod_host @ ''. Without an argument, show current'' @ eol @
     ''                setting. Use '' @ [CHR 0x27] @ ''monerod '' @ [CHR 0x22] @ [CHR 0x22] @ [CHR 0x27] @ '' to clear the setting and use an'' @ eol @
     ''                offline wallet.'' @ eol @
     eol @
     ''      new'' @ eol @
     ''                Create new user identity. This will generate a new monero wallet'' @ eol @
     ''                which will be used as a user id when creating an ad or paying for'' @ eol @
     ''                an item. This wallet can be used just like any other monero wallet.'' @ eol @
     ''                If you want to use your existing monero wallet, see '' @ [CHR 0x27] @ ''user'' @ [CHR 0x27] @ ''.'' @ eol @
     eol @
     ''      peers'' @ eol @
     ''                List server peers'' @ eol @
     eol @
     ''      server [<host>[:<port>]] [<public-key>]'' @ eol @
     ''                Specify server to send commands to. The <host> argument specifies'' @ eol @
     ''                a hostname or an IPv4 address in standard dot notation. The'' @ eol @
     ''                optional <port> argument is an integer specifying a port. The'' @ eol @
     ''                default is '' @ piac_host @ ''. The optional public-key is the'' @ eol @
     ''                server'' @ [CHR 0x27] @ ''s public key to use for authenticated and secure'' @ eol @
     ''                connections. Without an argument, show current setting. Use'' @ eol @
     ''                '' @ [CHR 0x27] @ ''server '' @ [CHR 0x22] @ [CHR 0x22] @ [CHR 0x27] @ '' to clear the setting and to not communicate with'' @ eol @
     ''                the peer-to-peer piac network.'' @ eol @
     eol @
     ''      user [<mnemonic>]'' @ eol @
     ''                Show active monero wallet mnemonic seed (user id) if no mnemonic is'' @ eol @
     ''                given. Switch to mnemonic if given.'' @ eol @
     eol @
     ''      version'' @ eol @
     ''                Display '' @ cli_executable B @ '' version'' @ eol"

end
