(* ===== verification/Cli_Main.thy ===== *)
theory Cli_Main
  imports Monero_Util Json_Document Usage
begin

text \<open>
  src/cli.cpp: the options of the client, the keys of its RPC channel, the loop that reads command lines,
  and the main function that composes them. getopt_long and readline are libraries: the model starts from
  the options and the lines they return. One event of the loop is a line, with what the network does while
  the command runs and whether the matrix thread is connected (\<open>g_matrix_connected\<close>, set by that thread).
\<close>

section \<open>Options and keys\<close>

datatype cli_opt =
    CliHelp
  | CliLogFile string
  | CliLogLevel string
  | CliMaxLogFileSize string
  | CliMaxLogFiles string
  | CliRpcSecure
  | CliRpcClientPublicKeyFile string
  | CliRpcClientSecretKeyFile string
  | CliRpcServerPublicKey string
  | CliRpcServerPublicKeyFile string
  | CliMatrixSyncTimeout string
  | CliVersion
  | CliUnknown

record cli_conf =
  cli_logfile :: string
  cli_log_level :: string
  cli_max_log_file_size :: nat
  cli_max_log_files :: nat
  cli_rpc_secure :: bool
  rpc_client_public_key_file :: string
  rpc_client_secret_key_file :: string
  rpc_server_public_key :: string
  rpc_server_key_file :: string
  matrix_sync_timeout :: nat
  cli_num_err :: nat

definition cli_defaults :: "build_info \<Rightarrow> cli_conf" where
  "cli_defaults B =
     \<lparr> cli_logfile = cli_executable B @ ''.log'', cli_log_level = ''4'',
       cli_max_log_file_size = MAX_LOG_FILE_SIZE B, cli_max_log_files = MAX_LOG_FILES B,
       cli_rpc_secure = False, rpc_client_public_key_file = [], rpc_client_secret_key_file = [],
       rpc_server_public_key = [], rpc_server_key_file = [], matrix_sync_timeout = 10000,
       cli_num_err = 0 \<rparr>"

definition cli_clamp_level :: "string \<Rightarrow> string res" where
  "cli_clamp_level arg =
     (case stream_int arg of
        None \<Rightarrow> Inl Undefined
      | Some level \<Rightarrow>
          let level1 = (if level < 0 then 0 else level);
              level2 = (if level1 > 4 then 4 else level1)
          in Inr (int_to_string level2))"

definition cli_version :: "build_info \<Rightarrow> string" where
  "cli_version B = version_of (cli_executable B) B"

definition cli_usage_of :: "build_info \<Rightarrow> cli_conf \<Rightarrow> string" where
  "cli_usage_of B c = cli_usage B (matrix_sync_timeout c) (cli_logfile c)"

fun cli_option :: "build_info \<Rightarrow> cli_opt \<Rightarrow> cli_conf \<Rightarrow> cli_conf prog" where
  "cli_option B CliHelp c = halt [Out (cli_version B @ eol @ eol @ cli_usage_of B c)] EXIT_SUCCESS"
| "cli_option B (CliLogFile a) c = go_on (c\<lparr>cli_logfile := a\<rparr>)"
| "cli_option B (CliLogLevel a) c =
     andthen (attempt (cli_clamp_level a)) (\<lambda>l. go_on (c\<lparr>cli_log_level := l\<rparr>))"
| "cli_option B (CliMaxLogFileSize a) c =
     go_on (case stream_uint 64 a of None \<Rightarrow> c | Some n \<Rightarrow> c\<lparr>cli_max_log_file_size := n\<rparr>)"
| "cli_option B (CliMaxLogFiles a) c =
     go_on (case stream_uint 64 a of None \<Rightarrow> c | Some n \<Rightarrow> c\<lparr>cli_max_log_files := n\<rparr>)"
| "cli_option B CliRpcSecure c = go_on (c\<lparr>cli_rpc_secure := True\<rparr>)"
| "cli_option B (CliRpcClientPublicKeyFile a) c = go_on (c\<lparr>rpc_client_public_key_file := a\<rparr>)"
| "cli_option B (CliRpcClientSecretKeyFile a) c = go_on (c\<lparr>rpc_client_secret_key_file := a\<rparr>)"
| "cli_option B (CliRpcServerPublicKey a) c = go_on (c\<lparr>rpc_server_public_key := a\<rparr>)"
| "cli_option B (CliRpcServerPublicKeyFile a) c = go_on (c\<lparr>rpc_server_key_file := a\<rparr>)"
| "cli_option B (CliMatrixSyncTimeout a) c =
     go_on (case stream_uint 16 a of None \<Rightarrow> c | Some n \<Rightarrow> c\<lparr>matrix_sync_timeout := n\<rparr>)"
| "cli_option B CliVersion c = halt [Out (cli_version B @ eol)] EXIT_SUCCESS"
| "cli_option B CliUnknown c = go_on (c\<lparr>cli_num_err := cli_num_err c + 1\<rparr>)"

fun cli_options :: "build_info \<Rightarrow> cli_opt list \<Rightarrow> cli_conf \<Rightarrow> cli_conf prog" where
  "cli_options B [] c = go_on c"
| "cli_options B (a # as) c = andthen (cli_option B a c) (cli_options B as)"

definition cli_validate :: "build_info \<Rightarrow> string list \<Rightarrow> string list \<Rightarrow> cli_conf \<Rightarrow> unit prog" where
  "cli_validate B argv left_args c =
     (if left_args \<noteq> [] then halt [invalid_options argv left_args] EXIT_FAILURE
      else if cli_num_err c \<noteq> 0 then halt [parse_errors argv (cli_usage_of B c)] EXIT_FAILURE
      else if (rpc_client_public_key_file c \<noteq> [] \<or> rpc_client_secret_key_file c \<noteq> [] \<or>
               rpc_server_public_key c \<noteq> [] \<or> rpc_server_key_file c \<noteq> []) \<and>
              \<not> cli_rpc_secure c
      then halt [ErrOut (''Need --rpc-secure to secure RPC channel.'' @ eol)] EXIT_FAILURE
      else if cli_rpc_secure c \<and> rpc_server_public_key c = [] \<and> rpc_server_key_file c = []
      then halt [ErrOut (''Need --rpc-server-public-key or --rpc-server-public-key-file '' @
                   ''to secure RPC channel.'' @ eol)] EXIT_FAILURE
      else go_on ())"

definition load_key :: "bool \<Rightarrow> files \<Rightarrow> string \<Rightarrow> string \<Rightarrow> string prog" where
  "load_key dbg fs filename key =
     (if filename = [] \<or> key \<noteq> [] then go_on key
      else case fs filename of
        None \<Rightarrow> halt [cannot_open ''reading'' filename] EXIT_FAILURE
      | Some content \<Rightarrow>
          let key' = takeWhile (\<lambda>c. \<not> isspace c) (dropWhile isspace content)
          in andthen (attempt (cassert dbg (length key' = 40))) (\<lambda>_. go_on key'))"

text \<open>The server's key, the client's pair, and whether the pair is the user's own (ironhouse).\<close>

definition cli_setup_rpc ::
  "bool \<Rightarrow> keypair \<Rightarrow> files \<Rightarrow> cli_conf \<Rightarrow> (string \<times> keypair \<times> bool) prog" where
  "cli_setup_rpc dbg generated fs c =
     (if \<not> cli_rpc_secure c then
        go_on (rpc_server_public_key c, \<lparr>public_key = [], secret_key = []\<rparr>, True)
      else
        andthen (load_key dbg fs (rpc_server_key_file c) (rpc_server_public_key c)) (\<lambda>srv.
        andthen (attempt (cassert dbg (srv \<noteq> []))) (\<lambda>_.
        andthen (attempt (cassert dbg (length srv = 40))) (\<lambda>_.
        andthen (load_key dbg fs (rpc_client_public_key_file c) []) (\<lambda>pub.
        andthen (load_key dbg fs (rpc_client_secret_key_file c) []) (\<lambda>sec.
          go_on (if sec = [] \<or> pub = [] then (srv, generated, False)
                 else (srv, \<lparr>public_key = pub, secret_key = sec\<rparr>, True))))))))"

definition secure_text :: "bool \<Rightarrow> string" where
  "secure_text ironhouse =
     (if ironhouse then ''Connection to piac daemon is secure and authenticated.'' @ eol
      else ''Connection to piac daemon is secure but not authenticated.'' @ eol)"

definition insecure_text :: string where
  "insecure_text = ''WARNING: Connection to piac daemon is not secure'' @ eol"

definition cli_echo_rpc :: "cli_conf \<Rightarrow> bool \<Rightarrow> cli_out list" where
  "cli_echo_rpc c ironhouse = [Out (if cli_rpc_secure c then secure_text ironhouse else insecure_text)]"

section \<open>Command lines\<close>

record 'w cli_state =
  g_wallet :: "'w option"
  listener :: wallet_listener
  piac_host :: string
  monerod_host :: string
  server_key :: string
  client_keys :: keypair
  matrix_host :: string
  matrix_user :: string
  matrix_password :: string
  matrix_shutdown :: bool
  g_threads :: nat
  quitting :: bool

type_synonym cli_event = "string \<times> poll_event list \<times> bool"

definition echo_connection :: "string \<Rightarrow> string \<Rightarrow> cli_out list" where
  "echo_connection info server = [Out info, Out (server @ eol)]"

definition empty_quotes :: string where
  "empty_quotes = [CHR 0x22, CHR 0x22]"

definition cmd_msg :: "string \<Rightarrow> 'w cli_state \<Rightarrow> cli_out list" where
  "cmd_msg buf s =
     (if g_wallet s = None then [ErrOut (no_wallet_msg ''Need'')] else []) @
     (let t = tokenize buf in
      if length t = 3 then [MatrixMessage (t ! 1) ''ad'' (t ! 2)]
      else [ErrOut (''Need exactly 3 tokens.'' @ eol)])"

text \<open>The spend key is read through the wallet pointer, which is null without a wallet.\<close>

definition cmd_matrix ::
  "'w cli_env \<Rightarrow> bool \<Rightarrow> string \<Rightarrow> 'w cli_state \<Rightarrow> ('w cli_state \<times> cli_out list) res" where
  "cmd_matrix C connected buf s =
     (let pre = (if g_wallet s = None then [ErrOut (no_wallet_msg ''Need'')] else []);
          t = tokenize buf
      in if length t = 1 then
           Inr (s, pre @
             (if connected then
                echo_connection ''Connected to matrix server as '' (''@'' @ matrix_user s @ '':'' @ matrix_host s)
              else [Out (''Offline'' @ eol)]))
         else if length t = 2 then
           let s1 = s\<lparr>matrix_host := t ! 1\<rparr> in
           if t ! 1 = ''disconnect'' then
             (if connected then
                Inr (s1\<lparr>matrix_shutdown := True, g_threads := 0\<rparr>,
                     pre @ [Out (''Waiting for matrix thread to quit...'' @ eol), JoinThreads,
                            Out (''Disconnected'' @ eol)])
              else Inr (s1, pre))
           else if t ! 1 = empty_quotes then
             Inr (s1\<lparr>matrix_host := []\<rparr>, pre @ [Out (''Offline'' @ eol)])
           else Inr (s1, pre)
         else if length t = 4 then
           (case g_wallet s of
              None \<Rightarrow> Inl Undefined
            | Some w \<Rightarrow>
                Inr (s\<lparr>matrix_host := t ! 1, matrix_user := t ! 2, matrix_password := t ! 3,
                       g_threads := g_threads s + 2\<rparr>,
                     pre @ echo_connection ''Connecting to matrix server as '' (''@'' @ t ! 2 @ '':'' @ t ! 1) @
                     [StartMatrix (t ! 1) (t ! 2) (t ! 3) (w_private_spend_key (c_wallet C) w),
                      StartMessages]))
         else
           Inr (s, pre @ [Out (''The command '' @ [CHR 0x27] @ ''matrix'' @ [CHR 0x27] @
             '' must be followed by 3 arguments separated by spaces. See '' @ [CHR 0x27] @ ''help'' @
             [CHR 0x27] @ ''.'' @ eol)]))"

definition wallet_to :: string where
  "wallet_to = ''Wallet connecting to monero daemon at ''"

definition cmd_monerod :: "string \<Rightarrow> 'w cli_state \<Rightarrow> 'w cli_state \<times> cli_out list" where
  "cmd_monerod buf s =
     (let t = tokenize buf in
      if length t = 1 then
        (s, if monerod_host s = [] then [Out (''Wallet offline'' @ eol)]
            else echo_connection wallet_to (monerod_host s))
      else if t ! 1 = empty_quotes then
        (s\<lparr>monerod_host := []\<rparr>, [Out (''Wallet will not connect to monero daemon'' @ eol)])
      else (s\<lparr>monerod_host := t ! 1\<rparr>, echo_connection wallet_to (t ! 1)))"

definition will_connect :: string where
  "will_connect = ''Will connect to piac daemon at ''"

definition cmd_server :: "string \<Rightarrow> 'w cli_state \<Rightarrow> 'w cli_state \<times> cli_out list" where
  "cmd_server buf s =
     (let t = tokenize buf in
      if length t = 1 then
        (s, if piac_host s = [] then [Out (''Offline'' @ eol)]
            else echo_connection will_connect (piac_host s))
      else if t ! 1 = empty_quotes then (s\<lparr>piac_host := []\<rparr>, [Out (''Offline'' @ eol)])
      else
        let s1 = s\<lparr>piac_host := t ! 1\<rparr> in
        if length t > 2 then
          (s1\<lparr>server_key := t ! 2\<rparr>,
           echo_connection will_connect (t ! 1) @ [Out ('', using public key: '' @ t ! 2), Out eol])
        else (s1, echo_connection will_connect (t ! 1) @ [Out eol]))"

definition cmd_user ::
  "'w cli_env \<Rightarrow> string \<Rightarrow> 'w cli_state \<Rightarrow> ('w cli_state \<times> cli_out list) res" where
  "cmd_user C buf s =
     (let mnemonic = drop 5 buf in
      if mnemonic = [] then Inr (s, show_user C (g_wallet s))
      else if wordcount mnemonic \<noteq> 25 then Inr (s, [Out (''Need 25 words'' @ eol)])
      else bindr (switch_user C mnemonic (monerod_host s)) (\<lambda>(w, out).
             Inr (s\<lparr>g_wallet := Some w\<rparr>, out)))"

text \<open>The chain of comparisons of the loop, in its order; the version is printed by the last but one.\<close>

definition cli_command ::
  "'w cli_env \<Rightarrow> string \<Rightarrow> cli_event \<Rightarrow> 'w cli_state \<Rightarrow> ('w cli_state \<times> cli_out list) res" where
  "cli_command C version ev s =
     (case ev of (buf, evs, connected) \<Rightarrow>
       if buf = ''balance'' then Inr (s, show_wallet_balance C (g_wallet s) (listener s))
       else if chars_match ''db'' buf then
         bindr (send_cmd C evs buf (piac_host s) (server_key s) (client_keys s) (g_wallet s))
           (\<lambda>out. Inr (s, out))
       else if buf = ''exit'' \<or> buf = ''quit'' \<or> chars_match ''q'' buf then
         Inr (s\<lparr>quitting := True\<rparr>, [])
       else if buf = ''help'' then Inr (s, [Out (cli_help (c_build C) (monerod_host s) (piac_host s))])
       else if buf = ''keys'' then Inr (s, show_wallet_keys C (g_wallet s))
       else if chars_match ''msg'' buf then Inr (s, cmd_msg buf s)
       else if chars_match ''matrix'' buf then cmd_matrix C connected buf s
       else if chars_match ''monerod'' buf then Inr (cmd_monerod buf s)
       else if buf = ''new'' then
         bindr (create_wallet C (monerod_host s)) (\<lambda>(w, out). Inr (s\<lparr>g_wallet := Some w\<rparr>, out))
       else if buf = ''peers'' then
         bindr (send_cmd C evs ''peers'' (piac_host s) (server_key s) (client_keys s) (g_wallet s))
           (\<lambda>out. Inr (s, out))
       else if chars_match ''server'' buf then Inr (cmd_server buf s)
       else if chars_match ''sleep'' buf then
         bindr (atoi (drop 6 buf)) (\<lambda>n. Inr (s, [SleepSecs n]))
       else if chars_match ''user'' buf then cmd_user C buf s
       else if buf = ''version'' then Inr (s, [Out (version @ eol)])
       else Inr (s, [Out (''unknown cmd'' @ eol)]))"

text \<open>One turn of the loop; a line that ends it is not added to the history.\<close>

definition cli_turn ::
  "'w cli_env \<Rightarrow> string \<Rightarrow> cli_event \<Rightarrow> 'w cli_state \<Rightarrow> ('w cli_state \<times> cli_out list) res" where
  "cli_turn C version ev s =
     (if quitting s then Inr (s, [])
      else bindr (cli_command C version ev s) (\<lambda>(s', out).
        Inr (s', out @ (if \<not> quitting s' \<and> fst ev \<noteq> [] then [History (fst ev)] else []))))"

definition graceful_exit :: "bool \<Rightarrow> 'w cli_state \<Rightarrow> 'w cli_state \<times> cli_out list" where
  "graceful_exit connected s =
     (let s1 = s\<lparr>g_wallet := None\<rparr> in
      if connected then
        (s1\<lparr>matrix_shutdown := True, g_threads := 0\<rparr>,
         [Out (''Waiting for matrix thread to quit ...'' @ eol), JoinThreads])
      else (s1, []))"

text \<open>The whole session: the lines until one of them quits or the input ends, then the exit.\<close>

definition cli_session ::
  "'w cli_env \<Rightarrow> string \<Rightarrow> cli_event list \<Rightarrow> bool \<Rightarrow> 'w cli_state \<Rightarrow> ('w cli_state \<times> cli_out list) res" where
  "cli_session C version lines connected s =
     bindr (run_machine (cli_turn C version) lines s) (\<lambda>(s1, out1).
       case graceful_exit connected s1 of (s2, out2) \<Rightarrow> Inr (s2, out1 @ out2))"

text \<open>SIGINT and SIGTERM, at any time: the same exit, and the program ends.\<close>

definition s_signal_handler :: "bool \<Rightarrow> 'w cli_state \<Rightarrow> unit prog" where
  "s_signal_handler connected s = (case graceful_exit connected s of (s', out) \<Rightarrow> halt out EXIT_SUCCESS)"

section \<open>The main function\<close>

datatype color = RED | GREEN | BLUE | GRAY | YELLOW

definition color_string :: "string \<Rightarrow> color \<Rightarrow> string" where
  "color_string s col =
     (let esc = [CHR 0x1B];
          start = (case col of
            RED \<Rightarrow> esc @ ''[0;31m'' | GREEN \<Rightarrow> esc @ ''[0;32m'' | BLUE \<Rightarrow> esc @ ''[0;34m''
          | GRAY \<Rightarrow> esc @ ''[0;37m'' | YELLOW \<Rightarrow> esc @ ''[0;33m'')
      in start @ s @ esc @ ''[0m'')"

definition cli_prompt :: string where
  "cli_prompt = color_string ''piac'' GREEN @ color_string ''> '' YELLOW"

definition listener_new :: wallet_listener where
  "listener_new =
     \<lparr> m_height = 0, m_start_height = 0, m_end_height = 0, m_percent_done = 0, m_message = [] \<rparr>"

definition cli_state_new :: "string \<Rightarrow> keypair \<Rightarrow> 'w cli_state" where
  "cli_state_new srv keys =
     \<lparr> g_wallet = None, listener = listener_new, piac_host = ''localhost:55090'',
       monerod_host = ''localhost:38089'', server_key = srv, client_keys = keys, matrix_host = [],
       matrix_user = [], matrix_password = [], matrix_shutdown = False, g_threads = 0, quitting = False \<rparr>"

definition cli_welcome :: "build_info \<Rightarrow> cli_out list" where
  "cli_welcome B =
     [Out (cli_version B @ eol),
      Out (''Welcome to piac, where anyone can buy and sell anything privately and'' @ eol @
        ''securely using the private digital cash, monero. For more information'' @ eol @
        ''on monero, see https://getmonero.org. This is the command line client'' @ eol @
        ''of piac. It needs to connect to a '' @ daemon_executable B @ '' to work correctly. Type'' @ eol @
        [CHR 0x27] @ ''help'' @ [CHR 0x27] @ '' to list the available commands.'' @ eol)]"

text \<open>From the command line to the state in which the loop starts.\<close>

definition cli_start ::
  "'w cli_env \<Rightarrow> keypair \<Rightarrow> files \<Rightarrow> string list \<Rightarrow> cli_opt list \<Rightarrow> string list \<Rightarrow> 'w cli_state prog" where
  "cli_start C generated fs argv opts left_args =
     andthen (cli_options (c_build C) opts (cli_defaults (c_build C))) (\<lambda>c.
     andthen (cli_validate (c_build C) argv left_args c) (\<lambda>_.
     andthen (emit (cli_welcome (c_build C) @
       setup_logging (cli_logfile c) (cli_log_level c) False (cli_max_log_file_size c) (cli_max_log_files c) @
       echo_connection will_connect ''localhost:55090'' @ echo_connection wallet_to ''localhost:38089'')) (\<lambda>_.
     andthen (cli_setup_rpc (c_dbg C) generated fs c) (\<lambda>(srv, keys, ironhouse).
     andthen (emit (cli_echo_rpc c ironhouse @ [CatchSignals])) (\<lambda>_.
       go_on (cli_state_new srv keys))))))"

definition cli_main ::
  "'w cli_env \<Rightarrow> keypair \<Rightarrow> files \<Rightarrow> string list \<Rightarrow> cli_opt list \<Rightarrow> string list
    \<Rightarrow> cli_event list \<Rightarrow> bool \<Rightarrow> unit prog" where
  "cli_main C generated fs argv opts left_args lines connected =
     andthen (cli_start C generated fs argv opts left_args) (\<lambda>s.
     andthen (attempt (cli_session C (cli_version (c_build C)) lines connected s)) (\<lambda>(s', out).
       halt out EXIT_SUCCESS))"

end
