(* ===== verification/Cli_Protocol.thy ===== *)
theory Cli_Protocol
  imports Cli_Main
begin

text \<open>
  The client's loop as a machine: whatever the lines are, the requests it sends to a daemon carry the
  digest of a wallet's address whenever the client takes them for changes of the database, and the
  number of its threads is even (the matrix thread and the message thread start and end together).
\<close>

definition signed_request :: "'w cli_env \<Rightarrow> string \<Rightarrow> bool" where
  "signed_request C m \<longleftrightarrow>
     (\<exists>cmd w. m = cmd @ '' AUTH:'' @ c_sha C (w_primary_address (c_wallet C) w))"

fun good_cli_out :: "'w cli_env \<Rightarrow> cli_out \<Rightarrow> bool" where
  "good_cli_out C (Request m h) \<longleftrightarrow> (needs_auth m \<longrightarrow> signed_request C m)"
| "good_cli_out C _ \<longleftrightarrow> True"

definition all_good :: "'w cli_env \<Rightarrow> cli_out list \<Rightarrow> bool" where
  "all_good C out \<longleftrightarrow> (\<forall>x\<in>set out. good_cli_out C x)"

lemma all_good_simps [simp]:
  "all_good C []" "all_good C (x # xs) \<longleftrightarrow> good_cli_out C x \<and> all_good C xs"
  "all_good C (xs @ ys) \<longleftrightarrow> all_good C xs \<and> all_good C ys"
  "all_good C (concat xss) \<longleftrightarrow> (\<forall>xs\<in>set xss. all_good C xs)"
  by (auto simp: all_good_def)

lemma auth_cmd_signed: "auth_cmd C cmd wallet = Some m \<Longrightarrow> needs_auth m \<longrightarrow> signed_request C m"
  by (auto simp: auth_cmd_def signed_request_def split: if_splits option.splits)

lemma send_cmd_good:
  assumes "send_cmd C evs cmd host key keys wallet = Inr out"
  shows "all_good C out"
proof (cases "auth_cmd C (trim cmd) wallet")
  case None
  with assms show ?thesis by (auto simp: send_cmd_def)
next
  case (Some m)
  with assms auth_cmd_signed [OF Some] show ?thesis
    by (auto simp: send_cmd_def bindr_Inr_conv split: option.splits)
qed

lemma start_syncing_good: "all_good C (start_syncing C msg w)"
  by (simp add: start_syncing_def)

lemma cmd_good:
  "all_good C (show_wallet_balance C w l)" "all_good C (show_wallet_keys C w)"
  "all_good C (show_user C w)" "all_good C (cmd_msg buf s)" "all_good C (echo_connection a b)"
  by (simp_all add: show_wallet_balance_def show_wallet_keys_def show_user_def cmd_msg_def Let_def
      echo_connection_def split: option.splits)

text \<open>The thread count, and what each kind of command does to it.\<close>

definition cli_inv :: "'w cli_state \<Rightarrow> bool" where
  "cli_inv s \<longleftrightarrow> even (g_threads s)"

definition keeps :: "'w cli_env \<Rightarrow> ('w cli_state \<times> cli_out list) res \<Rightarrow> bool" where
  "keeps C r \<longleftrightarrow> (\<forall>s out. r = Inr (s, out) \<longrightarrow> cli_inv s \<and> all_good C out)"

named_theorems keeps_rules

lemma keepsD: "keeps C r \<Longrightarrow> r = Inr (s, out) \<Longrightarrow> cli_inv s \<and> all_good C out"
  by (simp add: keeps_def)

lemma keeps_if [keeps_rules]: "keeps C a \<Longrightarrow> keeps C b \<Longrightarrow> keeps C (if c then a else b)"
  by simp

lemma keeps_pair: "keeps C (Inr (s, out)) \<longleftrightarrow> cli_inv s \<and> all_good C out"
  by (auto simp: keeps_def)

lemma keeps_same [keeps_rules]: "cli_inv s \<Longrightarrow> all_good C out \<Longrightarrow> keeps C (Inr (s, out))"
  by (simp add: keeps_pair)

lemma keeps_matrix [keeps_rules]: "cli_inv s \<Longrightarrow> keeps C (cmd_matrix C connected buf s)"
  by (auto simp: keeps_def cmd_matrix_def Let_def cli_inv_def cmd_good split: if_splits option.splits)

lemma keeps_monerod [keeps_rules]: "cli_inv s \<Longrightarrow> keeps C (Inr (cmd_monerod buf s))"
  by (auto simp: keeps_def cmd_monerod_def Let_def cli_inv_def cmd_good split: if_splits)

lemma keeps_server [keeps_rules]: "cli_inv s \<Longrightarrow> keeps C (Inr (cmd_server buf s))"
  by (auto simp: keeps_def cmd_server_def Let_def cli_inv_def cmd_good split: if_splits)

lemma keeps_user [keeps_rules]: "cli_inv s \<Longrightarrow> keeps C (cmd_user C buf s)"
  by (auto simp: keeps_def cmd_user_def Let_def cli_inv_def cmd_good switch_user_def start_syncing_good
      bindr_Inr_conv split: if_splits)

lemma keeps_new [keeps_rules]:
  "cli_inv s \<Longrightarrow> keeps C (bindr (create_wallet C h) (\<lambda>(w, out). Inr (s\<lparr>g_wallet := Some w\<rparr>, out)))"
  by (auto simp: keeps_def create_wallet_def bindr_Inr_conv start_syncing_good cli_inv_def)

lemma keeps_send [keeps_rules]:
  "cli_inv s \<Longrightarrow> keeps C (bindr (send_cmd C evs cmd host key keys wallet) (\<lambda>out. Inr (s, out)))"
  using send_cmd_good by (fastforce simp: keeps_def bindr_Inr_conv)

lemma keeps_sleep [keeps_rules]: "cli_inv s \<Longrightarrow> keeps C (bindr (atoi a) (\<lambda>n. Inr (s, [SleepSecs n])))"
  by (auto simp: keeps_def bindr_Inr_conv)

lemma cli_command_keeps:
  assumes "cli_inv s"
  shows "keeps C (cli_command C version (buf, evs, connected) s)"
  unfolding cli_command_def prod.case
  by (intro keeps_rules; (use assms in \<open>simp add: cmd_good cli_inv_def\<close>)?)

lemma cli_turn_keeps:
  assumes "cli_inv s"
  shows "keeps C (cli_turn C version ev s)"
proof -
  obtain buf evs connected where "ev = (buf, evs, connected)" by (cases ev) auto
  with cli_command_keeps [OF assms, of C version buf evs connected] assms show ?thesis
    by (auto simp: cli_turn_def keeps_def bindr_Inr_conv split: if_splits)
qed

interpretation cli: machine "cli_turn C version" cli_inv "good_cli_out C"
  for C :: "'w cli_env" and version
  by unfold_locales (use cli_turn_keeps keepsD all_good_def in metis)+

lemma graceful_exit_good: "all_good C (snd (graceful_exit connected s))"
  by (simp add: graceful_exit_def Let_def)

lemma cli_session_good:
  assumes "cli_inv s" and "cli_session C version lines connected s = Inr (s', out)"
    and "x \<in> set out"
  shows "good_cli_out C x"
proof -
  from assms(2) obtain s1 out1 where r: "run_machine (cli_turn C version) lines s = Inr (s1, out1)"
    and out: "out = out1 @ snd (graceful_exit connected s1)"
    by (auto simp: cli_session_def bindr_Inr_conv split_beta)
  from assms(3) out consider "x \<in> set out1" | "x \<in> set (snd (graceful_exit connected s1))" by auto
  then show ?thesis
  proof cases
    case 1
    then show ?thesis by (rule cli.run_out [OF assms(1) r])
  next
    case 2
    then show ?thesis using graceful_exit_good [of C connected s1] by (auto simp: all_good_def)
  qed
qed

end
