(* ===== verification/Cli_Security.thy ===== *)
theory Cli_Security
  imports Cli_Protocol
begin

text \<open>
  The encryption of the client's channel: which keys the sockets of a session get, and what the client
  announces about them when it starts.
\<close>

section \<open>The sockets of a session\<close>

text \<open>A session in which the server is not changed: such a line is none of the machine's events.\<close>

definition same_server_turn ::
  "'w cli_env \<Rightarrow> string \<Rightarrow> cli_event \<Rightarrow> 'w cli_state \<Rightarrow> ('w cli_state \<times> cli_out list) res" where
  "same_server_turn C version ev s =
     (if chars_match ''server'' (fst ev) then Inl Undefined else cli_turn C version ev s)"

definition with_key :: "string \<Rightarrow> keypair \<Rightarrow> 'w cli_state \<Rightarrow> bool" where
  "with_key k keys s \<longleftrightarrow> server_key s = k \<and> client_keys s = keys"

definition socket_for :: "'w cli_env \<Rightarrow> string \<Rightarrow> keypair \<Rightarrow> cli_out \<Rightarrow> bool" where
  "socket_for C k keys x \<longleftrightarrow>
     (\<forall>opts. x = OpenSocket opts \<longrightarrow> (\<exists>host. daemon_socket (c_key_ok C) (c_reach C) host k keys = Inr opts))"

lemma socket_for_simps [simp]:
  "socket_for C k keys (Out t)" "socket_for C k keys (ErrOut t)" "socket_for C k keys (Request m h)"
  "socket_for C k keys AddListener" "socket_for C k keys (StartSyncing n)"
  "socket_for C k keys (MatrixMessage u v w)" "socket_for C k keys (StartMatrix u v w z)"
  "socket_for C k keys StartMessages" "socket_for C k keys JoinThreads"
  "socket_for C k keys (SleepSecs i)" "socket_for C k keys (History t)"
  by (simp_all add: socket_for_def)

definition keeps_key :: "'w cli_env \<Rightarrow> string \<Rightarrow> keypair \<Rightarrow> ('w cli_state \<times> cli_out list) res \<Rightarrow> bool" where
  "keeps_key C k keys r \<longleftrightarrow>
     (\<forall>s out. r = Inr (s, out) \<longrightarrow> with_key k keys s \<and> (\<forall>x\<in>set out. socket_for C k keys x))"

named_theorems key_rules

lemma keeps_key_if [key_rules]:
  "(c \<Longrightarrow> keeps_key C k keys a) \<Longrightarrow> (\<not> c \<Longrightarrow> keeps_key C k keys b) \<Longrightarrow> keeps_key C k keys (if c then a else b)"
  by simp

lemma keeps_key_same [key_rules]:
  "with_key k keys s \<Longrightarrow> \<forall>x\<in>set out. socket_for C k keys x \<Longrightarrow> keeps_key C k keys (Inr (s, out))"
  by (simp add: keeps_key_def)

lemma cmd_sockets:
  "\<forall>x\<in>set (show_wallet_balance C w l). socket_for C k keys x"
  "\<forall>x\<in>set (show_wallet_keys C w). socket_for C k keys x" "\<forall>x\<in>set (show_user C w). socket_for C k keys x"
  "\<forall>x\<in>set (cmd_msg buf s). socket_for C k keys x" "\<forall>x\<in>set (echo_connection a b). socket_for C k keys x"
  "\<forall>x\<in>set (start_syncing C a w'). socket_for C k keys x"
  by (auto simp: show_wallet_balance_def show_wallet_keys_def show_user_def cmd_msg_def Let_def
      echo_connection_def start_syncing_def split: option.splits)

lemma keeps_key_matrix [key_rules]: "with_key k keys s \<Longrightarrow> keeps_key C k keys (cmd_matrix D connected buf s)"
  by (auto simp: keeps_key_def cmd_matrix_def Let_def with_key_def echo_connection_def split: if_splits option.splits)

lemma keeps_key_monerod [key_rules]: "with_key k keys s \<Longrightarrow> keeps_key C k keys (Inr (cmd_monerod buf s))"
  by (auto simp: keeps_key_def cmd_monerod_def Let_def with_key_def echo_connection_def split: if_splits)

lemma keeps_key_user [key_rules]: "with_key k keys s \<Longrightarrow> keeps_key C k keys (cmd_user D buf s)"
  by (auto simp: keeps_key_def cmd_user_def Let_def with_key_def switch_user_def show_user_def start_syncing_def
      bindr_Inr_conv split: if_splits option.splits)

lemma keeps_key_new [key_rules]:
  "with_key k keys s \<Longrightarrow> keeps_key C k keys (bindr (create_wallet D h) (\<lambda>(w, out). Inr (s\<lparr>g_wallet := Some w\<rparr>, out)))"
  by (auto simp: keeps_key_def create_wallet_def bindr_Inr_conv start_syncing_def with_key_def split: if_splits)

lemma keeps_key_send [key_rules]:
  "with_key k keys s \<Longrightarrow>
     keeps_key C k keys (bindr (send_cmd C evs cmd host (server_key s) (client_keys s) wallet) (\<lambda>out. Inr (s, out)))"
  by (auto simp: keeps_key_def send_cmd_def bindr_Inr_conv with_key_def socket_for_def split: option.splits if_splits)

lemma keeps_key_sleep [key_rules]: "with_key k keys s \<Longrightarrow> keeps_key C k keys (bindr (atoi a) (\<lambda>n. Inr (s, [SleepSecs n])))"
  by (auto simp: keeps_key_def bindr_Inr_conv)

lemma cli_command_keeps_key:
  assumes "with_key k keys s" and "\<not> chars_match ''server'' buf"
  shows "keeps_key C k keys (cli_command C version (buf, evs, connected) s)"
  unfolding cli_command_def prod.case if_not_P [OF assms(2)]
  by (intro key_rules; (use assms in \<open>simp add: cmd_sockets with_key_def\<close>)?)

interpretation keyed: machine "same_server_turn C version" "with_key k keys" "socket_for C k keys"
  for C :: "'w cli_env" and version k keys
proof (unfold_locales, goal_cases)
  case (1 s ev s' out)
  then show ?case using cli_command_keeps_key [OF 1(1)]
    by (cases ev) (fastforce simp: same_server_turn_def cli_turn_def keeps_key_def bindr_Inr_conv split: if_splits)
next
  case (2 s ev s' out x)
  then show ?case using cli_command_keeps_key [OF 2(1)]
    by (cases ev) (fastforce simp: same_server_turn_def cli_turn_def keeps_key_def bindr_Inr_conv split: if_splits)
qed

lemma session_sockets:
  assumes "cli_session C version lines connected s = Inr (s', out)" and "OpenSocket so \<in> set out"
    and "\<forall>ev\<in>set lines. \<not> chars_match ''server'' (fst ev)"
  shows "\<exists>host. daemon_socket (c_key_ok C) (c_reach C) host (server_key s) (client_keys s) = Inr so"
proof -
  from assms(1) obtain s1 out1 where r: "run_machine (cli_turn C version) lines s = Inr (s1, out1)"
    and out: "out = out1 @ snd (graceful_exit connected s1)"
    by (auto simp: cli_session_def bindr_Inr_conv split_beta)
  have "\<forall>ev\<in>set lines. same_server_turn C version ev = cli_turn C version ev"
    using assms(3) by (auto simp: same_server_turn_def fun_eq_iff)
  then have "run_machine (same_server_turn C version) lines s = Inr (s1, out1)"
    using r by (simp add: run_machine_cong [of lines "same_server_turn C version" "cli_turn C version"])
  moreover have "OpenSocket so \<in> set out1" using assms(2) out by (auto simp: graceful_exit_def Let_def split: if_splits)
  ultimately have "socket_for C (server_key s) (client_keys s) (OpenSocket so)"
    by (rule keyed.run_out [rotated]) (simp add: with_key_def)
  then show ?thesis by (simp add: socket_for_def)
qed

text \<open>A rejected key leaves no trace: the socket is an open one.\<close>

lemma daemon_socket_keys:
  assumes "daemon_socket key_ok reach host k keys = Inr so"
  shows "SetServerKey k \<in> set so \<longleftrightarrow> k \<noteq> [] \<and> key_ok k"
    and "\<not> (k \<noteq> [] \<and> key_ok k) \<Longrightarrow> so = [ConnectTo (''tcp://'' @ host), SetLinger 0]"
  using assms by (auto simp: daemon_socket_def Let_def split: if_splits)

section \<open>What the client announces\<close>

lemma cli_option_secure:
  assumes "cli_option B a c = Inr (acts, Inr c')"
  shows "cli_rpc_secure c' \<longleftrightarrow> cli_rpc_secure c \<or> a = CliRpcSecure"
  using assms by (cases a) (auto simp: andthen_value split: option.splits)

lemma cli_options_secure:
  "cli_options B opts c = Inr (acts, Inr c') \<Longrightarrow> cli_rpc_secure c' \<longleftrightarrow> cli_rpc_secure c \<or> CliRpcSecure \<in> set opts"
proof (induction opts arbitrary: c acts)
  case (Cons a opts)
  then obtain c1 acts1 acts2 where "cli_option B a c = Inr (acts1, Inr c1)" "cli_options B opts c1 = Inr (acts2, Inr c')"
    by (auto simp: andthen_value)
  then show ?case using Cons.IH cli_option_secure by (metis list.set_intros(1) set_ConsD list.set_intros(2))
qed simp

lemma cli_start_announces:
  assumes "cli_start C generated fs argv opts left_args = Inr (acts, Inr s)" and "CliRpcSecure \<in> set opts"
  shows "\<exists>own. Out (secure_text own) \<in> set acts"
  using assms by (auto simp: cli_start_def andthen_value cli_echo_rpc_def cli_options_secure)

end
