(* ===== verification/Db.thy ===== *)
theory Db
  imports Xapian
begin

text \<open>
  The database operations of src/db.cpp over the Xapian parameters: adding, querying, fetching,
  inserting, removing and listing ads, and the textual commands \<open>db_add\<close>, \<open>db_rm\<close>, \<open>db_list\<close>. A function
  that catches Xapian::Error returns what the code returns after logging; what it does not catch
  is an error of the result. Log output is not modelled.
\<close>

abbreviation nl :: string where "nl \<equiv> [CHR 0x0A]"

section \<open>Operations\<close>

definition get_doccount :: "'db env \<Rightarrow> string \<Rightarrow> 'db \<Rightarrow> nat" where
  "get_doccount E db_name db =
     (case x_open (e_xap E) db db_name of
        Some e \<Rightarrow> 0
      | None \<Rightarrow> x_doccount (e_xap E) db)"

text \<open>
  The terms that \<open>add_document\<close> gives a document: each field with its prefix, each field again
  without a prefix, and the id.
\<close>

definition index_terms :: "'db env \<Rightarrow> document \<Rightarrow> string list" where
  "index_terms E d =
     (let idx = x_index_text (e_xap E) in
      idx (m_title d) ''S'' @ idx (m_description d) ''XD'' @ idx (m_category d) ''XC'' @
      idx (m_condition d) ''XO'' @ idx (m_shipping d) ''XS'' @ idx (m_format d) ''XF'' @
      idx (m_location d) ''XL'' @ idx (m_keywords d) ''K'' @
      idx (m_title d) [] @ idx (m_description d) [] @ idx (m_category d) [] @
      idx (m_condition d) [] @ idx (m_shipping d) [] @ idx (m_format d) [] @
      idx (m_location d) [] @ idx (m_keywords d) [])"

definition add_document ::
  "'db env \<Rightarrow> string \<Rightarrow> document \<Rightarrow> 'db \<Rightarrow> (xerr + string \<times> document \<times> 'db) res" where
  "add_document E author ndoc db =
     bindr (cassert (e_dbg E) (author \<noteq> [])) (\<lambda>_.
       let terms = index_terms E ndoc;
           values = [(1, e_dstr E (m_price ndoc))];
           ndoc1 = ndoc\<lparr>m_author := author\<rparr>;
           entry = Document_serialize (e_json E) ndoc1;
           ndoc2 = ndoc1\<lparr>m_sha := sha256 E entry\<rparr>;
           sha = m_sha ndoc2;
           doc = \<lparr> xd_data = entry,
                   xd_terms = terms @ [int_to_string (sint (m_id ndoc2)), CHR ''Q'' # sha],
                   xd_values = values \<rparr>
       in case x_replace_document (e_xap E) db (CHR ''Q'' # sha) doc of
            Inl x \<Rightarrow> Inr (Inl x)
          | Inr db' \<Rightarrow> Inr (Inr (sha, ndoc2, db')))"

fun index_loop ::
  "'db env \<Rightarrow> string \<Rightarrow> string list \<Rightarrow> document list \<Rightarrow> 'db \<Rightarrow> nat
    \<Rightarrow> (xerr option \<times> nat \<times> 'db) res" where
  "index_loop E author my_hashes [] db numins = Inr (None, numins, db)"
| "index_loop E author my_hashes (d # ds) db numins =
     (let d1 = d\<lparr>m_author := author\<rparr>;
          entry = Document_serialize (e_json E) d1
      in if sha256 E entry \<notin> set my_hashes then
           bindr (add_document E author d1 db) (\<lambda>r.
             case r of
               Inl x \<Rightarrow> Inr (Some x, numins, db)
             | Inr (sha, d2, db') \<Rightarrow> index_loop E author my_hashes ds db' (numins + 1))
         else index_loop E author my_hashes ds db numins)"

definition added_info :: "nat \<Rightarrow> string" where
  "added_info numins = ''Added '' @ nat_to_string numins @ '' entries''"

text \<open>The WritableDatabase is opened before the try block: its failure is not caught here.\<close>

definition index_db ::
  "'db env \<Rightarrow> string \<Rightarrow> string \<Rightarrow> string \<Rightarrow> string list \<Rightarrow> 'db \<Rightarrow> (string \<times> 'db) res" where
  "index_db E author db_name input_filename my_hashes db =
     bindr (cassert (e_dbg E) (author \<noteq> [])) (\<lambda>_.
       if e_files E input_filename = None then
         Inr (''Cannot open database input file: '' @ input_filename, db)
       else case x_open_rw (e_xap E) db db_name of
         Inl x \<Rightarrow> Inl XapianError
       | Inr db1 \<Rightarrow>
           bindr (deserializeFromFile (e_json E) (e_files E) input_filename []) (\<lambda>(ok, ndoc).
           bindr (index_loop E author my_hashes ndoc db1 0) (\<lambda>(err, numins, db2).
             Inr (added_info numins, snd (x_commit (e_xap E) db1 db2)))))"

definition match_line :: "'db env \<Rightarrow> 'db \<Rightarrow> xmatch \<Rightarrow> string" where
  "match_line E db m =
     nat_to_string (xm_rank m + 1) @ '': '' @ xm_weight m @ '' docid='' @
     nat_to_string (xm_docid m) @ '' ['' @ x_get_data (e_xap E) db (xm_docid m) @ '']'' @ nl"

definition db_query :: "'db env \<Rightarrow> string \<Rightarrow> string \<Rightarrow> 'db \<Rightarrow> string" where
  "db_query E db_name cmd db =
     (case x_open (e_xap E) db db_name of
        Some x \<Rightarrow> []
      | None \<Rightarrow>
          (case x_mset (e_xap E) db cmd 0 10 of
             Inl x \<Rightarrow> []
           | Inr (nr, ms) \<Rightarrow>
               nat_to_string nr @ '' results found.'' @
               (if nr \<noteq> 0 then
                  nl @ ''matches 1-'' @ nat_to_string (length ms) @ '':'' @ nl @ nl @
                  concat (map (match_line E db) ms)
                else [])))"

fun get_loop :: "'db env \<Rightarrow> string list \<Rightarrow> 'db \<Rightarrow> string list \<Rightarrow> string list res" where
  "get_loop E [] db docs = Inr docs"
| "get_loop E (h # hs) db docs =
     bindr (cassert (e_dbg E) (length h = 32)) (\<lambda>_.
       case x_postlist (e_xap E) db (CHR ''Q'' # h) of
         p # ps \<Rightarrow> get_loop E hs db (docs @ [x_get_data (e_xap E) db p])
       | [] \<Rightarrow> get_loop E hs db docs)"

definition db_get_docs :: "'db env \<Rightarrow> string \<Rightarrow> string list \<Rightarrow> 'db \<Rightarrow> string list res" where
  "db_get_docs E db_name hashes db =
     (case x_open (e_xap E) db db_name of
        Some x \<Rightarrow> Inr []
      | None \<Rightarrow>
          if x_doccount (e_xap E) db = 0 then Inr [] else get_loop E hashes db [])"

fun put_loop :: "'db env \<Rightarrow> string list \<Rightarrow> 'db \<Rightarrow> (xerr option \<times> 'db) res" where
  "put_loop E [] db = Inr (None, db)"
| "put_loop E (d # ds) db =
     bindr (JSONBase_deserialize (e_json E) d Document_new) (\<lambda>(ok, ndoc).
       let author = m_author ndoc in
       if author \<noteq> [] then
         bindr (add_document E author ndoc db) (\<lambda>r.
           case r of
             Inl x \<Rightarrow> Inr (Some x, db)
           | Inr (sha, ndoc', db') \<Rightarrow> put_loop E ds db')
       else put_loop E ds db)"

definition db_put_docs ::
  "'db env \<Rightarrow> string \<Rightarrow> string list \<Rightarrow> 'db \<Rightarrow> (nat \<times> 'db) res" where
  "db_put_docs E db_name docs db =
     (case x_open_rw (e_xap E) db db_name of
        Inl x \<Rightarrow> Inr (0, db)
      | Inr db1 \<Rightarrow>
          bindr (put_loop E docs db1) (\<lambda>(err, db2).
            case x_commit (e_xap E) db1 db2 of
              (cerr, db3) \<Rightarrow>
                if err = None \<and> cerr = None then Inr (length docs, db3) else Inr (0, db3)))"

text \<open>The removal loop ends after the last hash, at a Xapian::Error, or at a foreign author.\<close>

datatype rm_outcome = RmDone | RmNotAuthor

fun rm_loop ::
  "'db env \<Rightarrow> string \<Rightarrow> string list \<Rightarrow> string list \<Rightarrow> 'db \<Rightarrow> nat \<Rightarrow> (rm_outcome \<times> nat \<times> 'db) res" where
  "rm_loop E author hashes_to_delete [] db numrm = Inr (RmDone, numrm, db)"
| "rm_loop E author hashes_to_delete (h # hs) db numrm =
     bindr (cassert (e_dbg E) (length h = 32)) (\<lambda>_.
       case x_postlist (e_xap E) db (CHR ''Q'' # h) of
         p # ps \<Rightarrow>
           if hex E h \<in> set hashes_to_delete then
             bindr (JSONBase_deserialize (e_json E) (x_get_data (e_xap E) db p) Document_new)
               (\<lambda>(ok, ndoc).
                 if author = m_author ndoc then
                   (case x_delete_document (e_xap E) db (CHR ''Q'' # h) of
                      Inl x \<Rightarrow> Inr (RmDone, numrm, db)
                    | Inr db' \<Rightarrow> rm_loop E author hashes_to_delete hs db' (numrm + 1))
                 else Inr (RmNotAuthor, numrm, db))
           else rm_loop E author hashes_to_delete hs db numrm
       | [] \<Rightarrow> rm_loop E author hashes_to_delete hs db numrm)"

definition removed_info :: "nat \<Rightarrow> string" where
  "removed_info numrm = ''Removed '' @ nat_to_string numrm @ '' entries''"

definition db_rm_docs ::
  "'db env \<Rightarrow> string \<Rightarrow> string \<Rightarrow> string list \<Rightarrow> string list \<Rightarrow> 'db \<Rightarrow> (string \<times> 'db) res" where
  "db_rm_docs E author db_name hashes_to_delete my_hashes db =
     (case x_open_rw (e_xap E) db db_name of
        Inl x \<Rightarrow> Inr (removed_info 0, db)
      | Inr db1 \<Rightarrow>
          if x_doccount (e_xap E) db1 = 0 then
            Inr (''no docs'', snd (x_commit (e_xap E) db1 db1))
          else
            bindr (rm_loop E author hashes_to_delete my_hashes db1 0) (\<lambda>(out, numrm, db2).
              Inr (case out of
                     RmDone \<Rightarrow> removed_info numrm
                   | RmNotAuthor \<Rightarrow> ''db rm: author != user'',
                   snd (x_commit (e_xap E) db1 db2))))"

text \<open>The loops over \<open>postlist_begin({})\<close> visit the data of every document.\<close>

definition db_entries :: "'db env \<Rightarrow> string \<Rightarrow> 'db \<Rightarrow> string list" where
  "db_entries E db_name db =
     (case x_open (e_xap E) db db_name of
        Some x \<Rightarrow> []
      | None \<Rightarrow>
          if x_doccount (e_xap E) db = 0 then []
          else map (x_get_data (e_xap E) db) (x_postlist (e_xap E) db []))"

definition db_list_hash :: "'db env \<Rightarrow> string \<Rightarrow> bool \<Rightarrow> 'db \<Rightarrow> string list" where
  "db_list_hash E db_name inhex db =
     map (\<lambda>entry. let digest = sha256 E entry in if inhex then hex E digest else digest)
       (db_entries E db_name db)"

fun list_doc_loop :: "'db env \<Rightarrow> string list \<Rightarrow> string list \<Rightarrow> string list res" where
  "list_doc_loop E [] docs = Inr docs"
| "list_doc_loop E (entry # es) docs =
     bindr (JSONBase_deserialize (e_json E) entry Document_new) (\<lambda>(ok, d).
       let d' = d\<lparr>m_author := hex E (m_author d)\<rparr> in
       list_doc_loop E es
         (docs @ [hex E (sha256 E entry) @ '': '' @ Document_serialize (e_json E) d']))"

definition db_list_doc :: "'db env \<Rightarrow> string \<Rightarrow> 'db \<Rightarrow> string list res" where
  "db_list_doc E db_name db = list_doc_loop E (db_entries E db_name db) []"

fun numuser_loop :: "'db env \<Rightarrow> string list \<Rightarrow> string list \<Rightarrow> string list res" where
  "numuser_loop E [] user = Inr user"
| "numuser_loop E (entry # es) user =
     bindr (JSONBase_deserialize (e_json E) entry Document_new) (\<lambda>(ok, d).
       numuser_loop E es (uset_insert (m_author d) user))"

definition db_list_numuser :: "'db env \<Rightarrow> string \<Rightarrow> 'db \<Rightarrow> nat res" where
  "db_list_numuser E db_name db =
     bindr (numuser_loop E (db_entries E db_name db) []) (\<lambda>user. Inr (length user))"

section \<open>Textual commands\<close>

definition db_add ::
  "'db env \<Rightarrow> string \<Rightarrow> string \<Rightarrow> string \<Rightarrow> string list \<Rightarrow> 'db \<Rightarrow> (string \<times> 'db) res" where
  "db_add E author db_name cmd my_hashes db =
     (let cmd1 = trim cmd in
      bindr (cassert (e_dbg E) (author \<noteq> [])) (\<lambda>_.
        if chars_match ''json'' cmd1 then
          index_db E author db_name (drop 5 cmd1) my_hashes db
        else Inr (''unknown cmd'', db)))"

definition db_rm ::
  "'db env \<Rightarrow> string \<Rightarrow> string \<Rightarrow> string \<Rightarrow> string list \<Rightarrow> 'db \<Rightarrow> (string \<times> 'db) res" where
  "db_rm E author db_name cmd my_hashes db =
     (let cmd1 = trim cmd in
      bindr (cassert (e_dbg E) (author \<noteq> [])) (\<lambda>_.
        if cmd1 \<noteq> [] then
          db_rm_docs E author db_name (uset_of (tokenize cmd1)) my_hashes db
        else Inr (''unknown cmd'', db)))"

definition list_info :: "string list \<Rightarrow> string" where
  "list_info ds =
     butlast (''Number of documents: '' @ nat_to_string (length ds) @ nl @
              concat (map (\<lambda>d. d @ nl) ds))"

definition db_list :: "'db env \<Rightarrow> string \<Rightarrow> string \<Rightarrow> 'db \<Rightarrow> string res" where
  "db_list E db_name cmd db =
     (let cmd1 = trim cmd in
      if cmd1 = [] then
        bindr (db_list_doc E db_name db) (\<lambda>docs. Inr (list_info docs))
      else if chars_match ''numdoc'' cmd1 then
        Inr (''Number of documents: '' @ nat_to_string (get_doccount E db_name db))
      else if chars_match ''numusr'' cmd1 then
        bindr (db_list_numuser E db_name db) (\<lambda>n. Inr (''Number of users: '' @ nat_to_string n))
      else if chars_match ''hash'' cmd1 then
        Inr (list_info (db_list_hash E db_name True db))
      else Inr ''unknown cmd'')"

end
