(* ===== verification/Db_Lemmas.thy ===== *)
theory Db_Lemmas
  imports Db
begin

text \<open>
  What the operations of \<open>Db\<close> do to the set of stored ads, seen through the Xapian view: the key
  invariant is kept, the digests listed are those of the stored ads, insertion adds, fetching finds,
  and removal touches only ads of the caller. \<open>env_laws\<close> collects the documented behaviour of
  the libraries; \<open>healthy\<close> says that a database that holds ads can be opened.
\<close>

definition env_laws :: "'db env \<Rightarrow> (double \<Rightarrow> double) \<Rightarrow> ('db \<Rightarrow> xview) \<Rightarrow> bool" where
  "env_laws E rr view \<longleftrightarrow>
     xapian_laws (e_xap E) view \<and> json_laws (e_json E) rr \<and>
     (\<forall>s. length (e_sha E s) = 32) \<and> inj (e_hex E)"

definition healthy :: "'db env \<Rightarrow> ('db \<Rightarrow> xview) \<Rightarrow> string \<Rightarrow> bool" where
  "healthy E view db_name \<longleftrightarrow>
     (\<forall>db. x_open (e_xap E) db db_name \<noteq> None \<longrightarrow> view db = Map.empty)"

definition stored :: "'db env \<Rightarrow> ('db \<Rightarrow> xview) \<Rightarrow> 'db \<Rightarrow> string set" where
  "stored E view db = e_sha E ` entries (view db)"

text \<open>The author recorded in a stored ad.\<close>

definition author_of :: "'db env \<Rightarrow> string \<Rightarrow> string option" where
  "author_of E e =
     (case JSONBase_deserialize (e_json E) e Document_new of
        Inl err \<Rightarrow> None
      | Inr (ok, d) \<Rightarrow> Some (m_author d))"

lemma env_lawsD:
  assumes "env_laws E rr view"
  shows "xapian_laws (e_xap E) view" "json_laws (e_json E) rr"
    "length (e_sha E s) = 32" "inj (e_hex E)"
  using assms by (auto simp: env_laws_def)

section \<open>Adding one document\<close>

lemma index_terms_no_Q:
  assumes "xapian_laws (e_xap E) view" and "w \<in> set (index_terms E d)"
  shows "w \<noteq> [] \<and> hd w \<noteq> CHR ''Q''"
  using assms(2) unfolding index_terms_def Let_def
  by (auto dest!: laws_index_text [OF assms(1)])

lemma int_to_string_no_Q: "int_to_string i \<noteq> CHR ''Q'' # h"
proof
  assume eq: "int_to_string i = CHR ''Q'' # h"
  then have "isdigit (CHR ''Q'')"
    using hd_nat_to_string [of "nat i"] by (auto simp: int_to_string_def split: if_splits)
  then show False by (simp add: isdigit_def)
qed

lemma add_document_view:
  fixes E :: "'db env"
  assumes laws: "xapian_laws (e_xap E) view" and key: "keyed (e_sha E) (view db)"
    and add: "add_document E author ndoc db = Inr (Inr (sha, ndoc', db'))"
  defines "entry \<equiv> Document_serialize (e_json E) (ndoc\<lparr>m_author := author\<rparr>)"
  shows "keyed (e_sha E) (view db')"
    and "entries (view db') = insert entry {e \<in> entries (view db). e_sha E e \<noteq> e_sha E entry}"
    and "sha = e_sha E entry"
proof -
  let ?doc = "\<lparr> xd_data = entry,
     xd_terms = index_terms E ndoc @ [int_to_string (sint (m_id ndoc)), CHR ''Q'' # e_sha E entry],
     xd_values = [(1, e_dstr E (m_price ndoc))] \<rparr>"
  have rep: "x_replace_document (e_xap E) db (CHR ''Q'' # e_sha E entry) ?doc = Inr db'"
    and sha: "sha = e_sha E entry"
    using add unfolding entry_def
    by (auto simp: add_document_def Let_def sha256_def bindr_Inr_conv split: sum.splits)
  obtain i where i: "view db i = None \<or> i \<in> indexed_by (view db) (CHR ''Q'' # e_sha E entry)"
    and v: "view db' = ((view db) |` (- indexed_by (view db) (CHR ''Q'' # e_sha E entry)))(i \<mapsto> ?doc)"
    using laws_replace [OF laws rep] by blast
  have "CHR ''Q'' # h \<notin> set (index_terms E ndoc)" for h
    using index_terms_no_Q [OF laws, of "CHR ''Q'' # h" ndoc] by auto
  then have "doc_keyed (e_sha E) ?doc"
    using int_to_string_no_Q [of "sint (m_id ndoc)"] by (simp add: doc_keyed_def eq_commute)
  then show "keyed (e_sha E) (view db')"
    unfolding v using keyed_replace [OF key, of ?doc] by simp
  show "entries (view db') = insert entry {e \<in> entries (view db). e_sha E e \<noteq> e_sha E entry}"
    using entries_replace_key [OF key, of i ?doc] i v by simp
  show "sha = e_sha E entry" by (rule sha)
qed

corollary add_document_stored:
  assumes "xapian_laws (e_xap E) view" and "keyed (e_sha E) (view db)"
    and "add_document E author ndoc db = Inr (Inr (sha, ndoc', db'))"
  shows "keyed (e_sha E) (view db')" and "stored E view db' = insert sha (stored E view db)"
  using add_document_view [OF assms] by (auto simp: stored_def)

section \<open>Listing\<close>

lemma set_db_entries:
  assumes "xapian_laws (e_xap E) view" and "healthy E view db_name"
  shows "set (db_entries E db_name db) = entries (view db)"
proof (cases "x_open (e_xap E) db db_name = None")
  case True
  have "x_get_data (e_xap E) db ` indexed_by (view db) [] = entries (view db)"
    using laws_get_data [OF assms(1), of db]
    by (fastforce simp: indexed_by_def entries_iff image_iff)
  moreover have "x_doccount (e_xap E) db = 0 \<Longrightarrow> view db = Map.empty"
    using laws_doccount [OF assms(1)] laws_finite [OF assms(1)] by simp
  ultimately show ?thesis
    using True laws_postlist [OF assms(1)] by (auto simp: db_entries_def entries_def)
next
  case False
  with assms(2) show ?thesis by (auto simp: db_entries_def healthy_def entries_def)
qed

lemma set_db_list_hash:
  assumes "xapian_laws (e_xap E) view" and "healthy E view db_name"
  shows "set (db_list_hash E db_name False db) = stored E view db"
  using set_db_entries [OF assms] by (simp add: db_list_hash_def stored_def sha256_def)

section \<open>Fetching\<close>

lemma postlist_key:
  assumes "xapian_laws (e_xap E) view" and "keyed (e_sha E) (view db)"
    and "x_postlist (e_xap E) db (CHR ''Q'' # h) = p # ps"
  shows "x_get_data (e_xap E) db p \<in> entries (view db)"
    and "e_sha E (x_get_data (e_xap E) db p) = h"
proof -
  have "p \<in> indexed_by (view db) (CHR ''Q'' # h)"
    using laws_postlist [OF assms(1), of db "CHR ''Q'' # h"] assms(3) by auto
  then obtain d where "view db p = Some d" "e_sha E (xd_data d) = h"
    unfolding keyed_indexed_by [OF assms(2)] by auto
  then show "x_get_data (e_xap E) db p \<in> entries (view db)"
    and "e_sha E (x_get_data (e_xap E) db p) = h"
    using laws_get_data [OF assms(1)] by (auto simp: entries_iff)
qed

lemma postlist_key_Nil:
  assumes "xapian_laws (e_xap E) view" and "keyed (e_sha E) (view db)"
  shows "x_postlist (e_xap E) db (CHR ''Q'' # h) = [] \<longleftrightarrow> h \<notin> stored E view db"
proof -
  have "x_postlist (e_xap E) db (CHR ''Q'' # h) = [] \<longleftrightarrow> indexed_by (view db) (CHR ''Q'' # h) = {}"
    using laws_postlist [OF assms(1), of db "CHR ''Q'' # h"] by (metis set_empty)
  moreover have "indexed_by (view db) (CHR ''Q'' # h) = {} \<longleftrightarrow> h \<notin> stored E view db"
    unfolding keyed_indexed_by [OF assms(2)] stored_def image_iff Bex_def entries_iff by blast
  ultimately show ?thesis by simp
qed

lemma get_loop_correct:
  assumes laws: "xapian_laws (e_xap E) view" and key: "keyed (e_sha E) (view db)"
    and len: "\<forall>h\<in>set hs. length h = 32"
  shows "\<exists>ds. get_loop E hs db acc = Inr (acc @ ds) \<and> set ds \<subseteq> entries (view db) \<and>
    map (e_sha E) ds = filter (\<lambda>h. h \<in> stored E view db) hs"
  using len
proof (induction hs arbitrary: acc)
  case (Cons h hs)
  show ?case
  proof (cases "x_postlist (e_xap E) db (CHR ''Q'' # h)")
    case Nil
    then have "h \<notin> stored E view db" using postlist_key_Nil [OF laws key] by blast
    with Nil Cons show ?thesis by simp
  next
    case (Cons p ps)
    let ?d = "x_get_data (e_xap E) db p"
    obtain ds where "get_loop E hs db (acc @ [?d]) = Inr (acc @ ?d # ds)"
      "set ds \<subseteq> entries (view db)" "map (e_sha E) ds = filter (\<lambda>h. h \<in> stored E view db) hs"
      using Cons.IH [of "acc @ [?d]"] Cons.prems by auto
    moreover have "h \<in> stored E view db"
      using postlist_key_Nil [OF laws key, of h] Cons by auto
    ultimately show ?thesis
      using Cons Cons.prems postlist_key [OF laws key Cons] by (intro exI [of _ "?d # ds"]) auto
  qed
qed simp

lemma db_get_docs_correct:
  assumes "env_laws E rr view" and "healthy E view db_name" and "keyed (e_sha E) (view db)"
    and "\<forall>h\<in>set hs. length h = 32"
  shows "\<exists>ds. db_get_docs E db_name hs db = Inr ds \<and> set ds \<subseteq> entries (view db) \<and>
    map (e_sha E) ds = filter (\<lambda>h. h \<in> stored E view db) hs"
proof (cases "x_open (e_xap E) db db_name = None \<and> x_doccount (e_xap E) db \<noteq> 0")
  case True
  then show ?thesis
    using get_loop_correct [OF env_lawsD(1) [OF assms(1)] assms(3,4), of "[]"]
    by (auto simp: db_get_docs_def)
next
  case False
  have "view db = Map.empty"
    using False assms(2) laws_doccount [OF env_lawsD(1) [OF assms(1)], of db]
      laws_finite [OF env_lawsD(1) [OF assms(1)], of db]
    by (auto simp: healthy_def)
  then have "stored E view db = {}" by (simp add: stored_def entries_def)
  with False show ?thesis by (auto simp: db_get_docs_def split: option.split)
qed

section \<open>Inserting ads of peers\<close>

text \<open>The entry that \<open>db_put_docs\<close> stores for the text of an ad, if it has an author.\<close>

definition peer_entry :: "'db env \<Rightarrow> string \<Rightarrow> string option" where
  "peer_entry E txt =
     (case JSONBase_deserialize (e_json E) txt Document_new of
        Inl err \<Rightarrow> None
      | Inr (ok, d) \<Rightarrow>
          if m_author d = [] then None else Some (Document_serialize (e_json E) d))"

definition peer_digests :: "'db env \<Rightarrow> string list \<Rightarrow> string set" where
  "peer_digests E txts = e_sha E ` {e. \<exists>txt\<in>set txts. peer_entry E txt = Some e}"

lemma peer_digests_Nil [simp]: "peer_digests E [] = {}"
  by (simp add: peer_digests_def)

lemma peer_digests_Cons:
  "peer_digests E (t # ts) =
     (case peer_entry E t of None \<Rightarrow> {} | Some e \<Rightarrow> {e_sha E e}) \<union> peer_digests E ts"
  by (auto simp: peer_digests_def split: option.splits)

lemma put_loop_stored:
  assumes "xapian_laws (e_xap E) view" and "keyed (e_sha E) (view db)"
    and "put_loop E ds db = Inr (err, db')"
  shows "keyed (e_sha E) (view db') \<and> stored E view db \<subseteq> stored E view db' \<and>
    stored E view db' \<subseteq> stored E view db \<union> peer_digests E ds \<and>
    (err = None \<longrightarrow> stored E view db' = stored E view db \<union> peer_digests E ds)"
  using assms(2,3)
proof (induction ds arbitrary: db)
  case (Cons t ts)
  from Cons.prems(2) obtain ok d where d: "JSONBase_deserialize (e_json E) t Document_new = Inr (ok, d)"
    by (auto simp: bindr_Inr_conv)
  show ?case
  proof (cases "m_author d = []")
    case True
    with Cons d show ?thesis by (auto simp: peer_digests_Cons peer_entry_def)
  next
    case False
    then have pe: "peer_entry E t = Some (Document_serialize (e_json E) d)"
      using d by (simp add: peer_entry_def)
    from Cons.prems(2) d False obtain r where r: "add_document E (m_author d) d db = Inr r"
      by (auto simp: bindr_Inr_conv Let_def)
    show ?thesis
    proof (cases r)
      case (Inl x)
      with Cons.prems d False r have "err = Some x \<and> db' = db" by auto
      with Cons.prems(1) show ?thesis by simp
    next
      case (Inr q)
      then obtain sha d' db1 where q: "r = Inr (sha, d', db1)" by (cases q) auto
      have "put_loop E ts db1 = Inr (err, db')"
        using Cons.prems(2) d False r q by (simp add: Let_def)
      moreover have "keyed (e_sha E) (view db1)" "stored E view db1 = insert sha (stored E view db)"
        and "sha = e_sha E (Document_serialize (e_json E) d)"
        using add_document_stored [OF assms(1) Cons.prems(1) r [unfolded q]]
          add_document_view(3) [OF assms(1) Cons.prems(1) r [unfolded q]] by simp_all
      ultimately show ?thesis using Cons.IH [of db1] pe by (auto simp: peer_digests_Cons)
    qed
  qed
qed simp

text \<open>A database that never fails, and texts that the JSON accessors can read.\<close>

definition no_faults :: "'db env \<Rightarrow> bool" where
  "no_faults E \<longleftrightarrow>
     (\<forall>db name. \<exists>db'. x_open_rw (e_xap E) db name = Inr db') \<and>
     (\<forall>db t d. \<exists>db'. x_replace_document (e_xap E) db t d = Inr db') \<and>
     (\<forall>db t. \<exists>db'. x_delete_document (e_xap E) db t = Inr db') \<and>
     (\<forall>db0 db. fst (x_commit (e_xap E) db0 db) = None)"

definition readable :: "'db env \<Rightarrow> string \<Rightarrow> bool" where
  "readable E txt \<longleftrightarrow> (\<exists>r. JSONBase_deserialize (e_json E) txt Document_new = Inr r)"

lemma add_document_total:
  "author \<noteq> [] \<Longrightarrow> \<exists>r. add_document E author d db = Inr r"
  by (auto simp: add_document_def Let_def split: sum.split)

lemma add_document_no_fault:
  assumes "no_faults E" and "author \<noteq> []"
  shows "\<exists>sha d' db'. add_document E author d db = Inr (Inr (sha, d', db'))"
  using assms
  by (auto simp: add_document_def Let_def no_faults_def split: sum.split)
     (metis sum.distinct(1))

lemma put_loop_total:
  "\<forall>t\<in>set ds. readable E t \<Longrightarrow> \<exists>err db'. put_loop E ds db = Inr (err, db')"
proof (induction ds arbitrary: db)
  case (Cons t ts)
  then obtain ok d where d: "JSONBase_deserialize (e_json E) t Document_new = Inr (ok, d)"
    by (auto simp: readable_def)
  show ?case
  proof (cases "m_author d = []")
    case False
    then obtain r where r: "add_document E (m_author d) d db = Inr r" 
      using add_document_total [OF False, of E d db] by blast
    show ?thesis
    proof (cases r)
      case (Inl x)
      with d False r show ?thesis by (simp add: Let_def)
    next
      case (Inr q)
      then obtain sha d' db1 where "r = Inr (sha, d', db1)" by (cases q) auto
      then have "put_loop E (t # ts) db = put_loop E ts db1" using d False r by (simp add: Let_def)
      then show ?thesis using Cons.IH [of db1] Cons.prems by simp
    qed
  next
    case True
    then have "put_loop E (t # ts) db = put_loop E ts db" using d by (simp add: Let_def)
    then show ?thesis using Cons.IH [of db] Cons.prems by simp
  qed
qed simp

lemma put_loop_no_fault:
  "no_faults E \<Longrightarrow> put_loop E ds db = Inr (err, db') \<Longrightarrow> err = None"
proof (induction ds arbitrary: db)
  case (Cons t ts)
  from Cons.prems(2) obtain ok d where d: "JSONBase_deserialize (e_json E) t Document_new = Inr (ok, d)"
    by (auto simp: bindr_Inr_conv)
  show ?case
  proof (cases "m_author d = []")
    case False
    then obtain sha d' db1 where "add_document E (m_author d) d db = Inr (Inr (sha, d', db1))"
      using add_document_no_fault [OF Cons.prems(1) False, of d db] by blast
    then have "put_loop E (t # ts) db = put_loop E ts db1" using d False by (simp add: Let_def)
    then show ?thesis using Cons.IH [of db1] Cons.prems by simp
  next
    case True
    then have "put_loop E (t # ts) db = put_loop E ts db" using d by (simp add: Let_def)
    then show ?thesis using Cons.IH [of db] Cons.prems by simp
  qed
qed simp

lemma db_put_docs_stored:
  assumes "xapian_laws (e_xap E) view" and "keyed (e_sha E) (view db)"
    and "db_put_docs E db_name ds db = Inr (n, db')"
  shows "keyed (e_sha E) (view db') \<and> stored E view db \<subseteq> stored E view db' \<and>
    stored E view db' \<subseteq> stored E view db \<union> peer_digests E ds \<and>
    (n \<noteq> 0 \<or> no_faults E \<longrightarrow> stored E view db' = stored E view db \<union> peer_digests E ds)"
proof (cases "x_open_rw (e_xap E) db db_name")
  case (Inl x)
  with assms have "n = 0 \<and> db' = db" by (simp add: db_put_docs_def)
  moreover have "\<not> no_faults E" using Inl by (auto simp: no_faults_def) (metis sum.distinct(1))
  ultimately show ?thesis using assms(2) by auto
next
  case (Inr db1)
  from assms(3) Inr obtain err db2 where p: "put_loop E ds db1 = Inr (err, db2)"
    by (auto simp: db_put_docs_def bindr_Inr_conv)
  obtain cerr db3 where c0: "x_commit (e_xap E) db1 db2 = (cerr, db3)" by fastforce
  with assms(3) Inr p have c: "x_commit (e_xap E) db1 db2 = (cerr, db')"
    and n: "n = (if err = None \<and> cerr = None then length ds else 0)"
    by (auto simp: db_put_docs_def split: if_splits)
  have v1: "view db1 = view db" by (rule laws_open_rw [OF assms(1) Inr])
  then have s1: "stored E view db1 = stored E view db" by (simp add: stored_def)
  from c have v: "view db' = view db2 \<or> cerr \<noteq> None \<and> view db' = view db1"
    by (rule laws_commit [OF assms(1)])
  have "no_faults E \<longrightarrow> err = None \<and> cerr = None"
    using put_loop_no_fault [OF _ p] c by (metis fst_conv no_faults_def)
  moreover have "keyed (e_sha E) (view db1)" using assms(2) v1 by simp
  note p' = put_loop_stored [OF assms(1) this p, unfolded s1]
  moreover have "stored E view db' = stored E view db2 \<or>
      cerr \<noteq> None \<and> stored E view db' = stored E view db"
    using v v1 by (auto simp: stored_def)
  moreover have "keyed (e_sha E) (view db')" using v v1 p' assms(2) by auto
  ultimately show ?thesis using n by (elim disjE) (simp_all split: if_splits)
qed

lemma db_put_docs_total:
  assumes "\<forall>t\<in>set ds. readable E t"
  shows "\<exists>n db'. db_put_docs E db_name ds db = Inr (n, db')"
proof (cases "x_open_rw (e_xap E) db db_name")
  case (Inr db1)
  obtain err db2 where p: "put_loop E ds db1 = Inr (err, db2)"
    using put_loop_total [OF assms] by blast
  obtain cerr db3 where "x_commit (e_xap E) db1 db2 = (cerr, db3)" by fastforce
  with Inr p show ?thesis by (simp add: db_put_docs_def)
qed (simp add: db_put_docs_def)

section \<open>Adding ads of a client\<close>

text \<open>What \<open>index_db\<close> stores for a document it read, under the author given by the client.\<close>

definition client_entry :: "'db env \<Rightarrow> string \<Rightarrow> document \<Rightarrow> string" where
  "client_entry E author d = Document_serialize (e_json E) (d\<lparr>m_author := author\<rparr>)"

definition new_docs :: "'db env \<Rightarrow> string \<Rightarrow> string list \<Rightarrow> document list \<Rightarrow> document list" where
  "new_docs E author my_hashes ds =
     filter (\<lambda>d. e_sha E (client_entry E author d) \<notin> set my_hashes) ds"

lemma index_loop_stored:
  assumes "xapian_laws (e_xap E) view" and "keyed (e_sha E) (view db)"
    and "index_loop E author my_hashes ds db n0 = Inr (err, n, db')"
  shows "keyed (e_sha E) (view db') \<and>
    (\<exists>ds'. ds' = take (n - n0) (new_docs E author my_hashes ds) \<and> n0 \<le> n \<and> n = n0 + length ds' \<and>
      stored E view db' = stored E view db \<union> (\<lambda>d. e_sha E (client_entry E author d)) ` set ds' \<and>
      (err = None \<longrightarrow> ds' = new_docs E author my_hashes ds))"
  using assms(2,3)
proof (induction ds arbitrary: db n0)
  case Nil
  then show ?case by (simp add: new_docs_def)
next
  case (Cons d ds)
  let ?e = "client_entry E author d"
  show ?case
  proof (cases "e_sha E ?e \<in> set my_hashes")
    case True
    then have "index_loop E author my_hashes ds db n0 = Inr (err, n, db')"
      and "new_docs E author my_hashes (d # ds) = new_docs E author my_hashes ds"
      using Cons.prems(2) by (simp_all add: Let_def sha256_def client_entry_def new_docs_def)
    then show ?thesis using Cons.IH [OF Cons.prems(1)] by simp
  next
    case False
    then have nd: "new_docs E author my_hashes (d # ds) = d # new_docs E author my_hashes ds"
      by (simp add: new_docs_def)
    from False Cons.prems(2) obtain r where
      r: "add_document E author (d\<lparr>m_author := author\<rparr>) db = Inr r"
      by (auto simp: Let_def sha256_def client_entry_def bindr_Inr_conv)
    show ?thesis
    proof (cases r)
      case (Inl x)
      with Cons.prems False r have "err = Some x \<and> n = n0 \<and> db' = db"
        by (simp add: Let_def sha256_def client_entry_def)
      with Cons.prems(1) show ?thesis by simp
    next
      case (Inr q)
      then obtain sha d' db1 where q: "r = Inr (sha, d', db1)" by (cases q) auto
      have l: "index_loop E author my_hashes ds db1 (n0 + 1) = Inr (err, n, db')"
        using Cons.prems(2) False r q by (simp add: Let_def sha256_def client_entry_def)
      note r' = r [unfolded q]
      have k: "keyed (e_sha E) (view db1)" "stored E view db1 = insert sha (stored E view db)"
        by (fact add_document_stored [OF assms(1) Cons.prems(1) r'])+
      have sha: "sha = e_sha E ?e"
        using add_document_view(3) [OF assms(1) Cons.prems(1) r'] by (simp add: client_entry_def)
      obtain ds' where ds': "ds' = take (n - (n0 + 1)) (new_docs E author my_hashes ds)"
        "n0 + 1 \<le> n" "n = n0 + 1 + length ds'" "keyed (e_sha E) (view db')"
        "stored E view db' = stored E view db1 \<union> (\<lambda>d. e_sha E (client_entry E author d)) ` set ds'"
        "err = None \<longrightarrow> ds' = new_docs E author my_hashes ds"
        using Cons.IH [OF k(1) l] by blast
      then have "n - n0 = Suc (n - (n0 + 1))" by simp
      with ds' k(2) sha nd show ?thesis by (intro conjI exI [of _ "d # ds'"]) simp_all
    qed
  qed
qed

lemma author_of_client_entry:
  assumes "json_laws (e_json E) rr" and "dbl_finite (m_price d)"
  shows "author_of E (client_entry E author d) = Some (cstr author)"
  using serialize_deserialize [OF assms(1), of "d\<lparr>m_author := author\<rparr>" Document_new] assms(2)
  by (simp add: author_of_def client_entry_def)

section \<open>Removing ads\<close>

text \<open>
  The effect of a removal run, as a relation between the stored ads before and after: \<open>D\<close> is the
  set of digests removed.
\<close>

definition removes ::
  "'db env \<Rightarrow> string \<Rightarrow> string list \<Rightarrow> string list \<Rightarrow> string set \<Rightarrow> string set \<Rightarrow> string set \<Rightarrow> bool" where
  "removes E author del hs D es es' \<longleftrightarrow>
     D \<subseteq> set hs \<and> es' = {e \<in> es. e_sha E e \<notin> D} \<and>
     (\<forall>h\<in>D. hex E h \<in> set del \<and> (\<exists>e\<in>es. e_sha E e = h \<and> author_of E e = Some author))"

text \<open>When the run ends normally everything asked for is gone; otherwise a foreign ad was asked for.\<close>

definition rm_exit ::
  "'db env \<Rightarrow> string \<Rightarrow> string list \<Rightarrow> string list \<Rightarrow> string set \<Rightarrow> string set \<Rightarrow> rm_outcome \<Rightarrow> bool" where
  "rm_exit E author del hs D es out \<longleftrightarrow>
     (out = RmDone \<longrightarrow> no_faults E \<longrightarrow>
        D = {h \<in> set hs. h \<in> e_sha E ` es \<and> hex E h \<in> set del}) \<and>
     (out = RmNotAuthor \<longrightarrow>
        (\<exists>e\<in>es. e_sha E e \<in> set hs \<and> hex E (e_sha E e) \<in> set del \<and>
           author_of E e \<noteq> None \<and> author_of E e \<noteq> Some author))"

lemma removes_Cons: "removes E author del hs D es es' \<Longrightarrow> removes E author del (h # hs) D es es'"
  by (auto simp: removes_def)

lemma rm_exit_Cons:
  assumes "rm_exit E author del hs D es out" and "h \<notin> e_sha E ` es \<or> hex E h \<notin> set del"
  shows "rm_exit E author del (h # hs) D es out"
proof -
  have "{x \<in> set (h # hs). x \<in> e_sha E ` es \<and> hex E x \<in> set del}
      = {x \<in> set hs. x \<in> e_sha E ` es \<and> hex E x \<in> set del}"
    using assms(2) by (cases "h \<in> set hs") auto
  with assms(1) show ?thesis unfolding rm_exit_def by (simp only:) auto
qed

lemma rm_loop_skip:
  assumes "rm_loop E author del (h # hs) db n0 = Inr r"
    and "x_postlist (e_xap E) db (CHR ''Q'' # h) = [] \<or> hex E h \<notin> set del"
  shows "rm_loop E author del hs db n0 = Inr r"
  using assms by (auto simp: bindr_Inr_conv split: list.splits)

lemma rm_loop_hit:
  assumes "rm_loop E author del (h # hs) db n0 = Inr (out, n, db')"
    and "x_postlist (e_xap E) db (CHR ''Q'' # h) = p # ps" and "hex E h \<in> set del"
  obtains (foreign) a where "author_of E (x_get_data (e_xap E) db p) = Some a"
      "a \<noteq> author" "out = RmNotAuthor" "n = n0" "db' = db"
  | (fault) x where "author_of E (x_get_data (e_xap E) db p) = Some author"
      "x_delete_document (e_xap E) db (CHR ''Q'' # h) = Inl x" "out = RmDone" "n = n0" "db' = db"
  | (removed) db1 where "author_of E (x_get_data (e_xap E) db p) = Some author"
      "x_delete_document (e_xap E) db (CHR ''Q'' # h) = Inr db1"
      "rm_loop E author del hs db1 (n0 + 1) = Inr (out, n, db')"
proof -
  obtain ok d where d: "JSONBase_deserialize (e_json E) (x_get_data (e_xap E) db p) Document_new = Inr (ok, d)"
    using assms by (auto simp: bindr_Inr_conv)
  then have a: "author_of E (x_get_data (e_xap E) db p) = Some (m_author d)"
    by (simp add: author_of_def)
  show ?thesis
  proof (cases "author = m_author d")
    case False
    with assms d show ?thesis by (auto intro: foreign [OF a] simp: bindr_Inr_conv)
  next
    case True
    show ?thesis
    proof (cases "x_delete_document (e_xap E) db (CHR ''Q'' # h)")
      case (Inl x)
      with assms d True show ?thesis by (intro fault [of x]) (auto simp: bindr_Inr_conv author_of_def)
    next
      case (Inr db1)
      with assms d True show ?thesis by (intro removed [of db1]) (auto simp: bindr_Inr_conv author_of_def)
    qed
  qed
qed

lemma rm_loop_removes:
  assumes laws: "xapian_laws (e_xap E) view" and "keyed (e_sha E) (view db)"
    and "rm_loop E author del hs db n0 = Inr (out, n, db')"
  shows "keyed (e_sha E) (view db') \<and>
    (\<exists>D. finite D \<and> n = n0 + card D \<and>
       removes E author del hs D (entries (view db)) (entries (view db')) \<and>
       rm_exit E author del hs D (entries (view db)) out)"
  using assms(2,3)
proof (induction hs arbitrary: db n0)
  case Nil
  then show ?case by (intro conjI exI [of _ "{}"]) (auto simp: removes_def rm_exit_def)
next
  case (Cons h hs)
  let ?es = "entries (view db)"
  note nil = postlist_key_Nil [OF laws Cons.prems(1), of h]
  show ?case
  proof (cases "x_postlist (e_xap E) db (CHR ''Q'' # h) = [] \<or> hex E h \<notin> set del")
    case True
    note Cons.IH [OF Cons.prems(1) rm_loop_skip [OF Cons.prems(2) True]]
    then obtain D where D: "keyed (e_sha E) (view db')" "finite D" "n = n0 + card D"
      "removes E author del hs D ?es (entries (view db'))" "rm_exit E author del hs D ?es out"
      by blast
    have nh: "h \<notin> e_sha E ` ?es \<or> hex E h \<notin> set del" using True nil by (auto simp: stored_def)
    show ?thesis
      by (intro conjI exI [of _ D] removes_Cons rm_exit_Cons) (fact D nh)+
  next
    case False
    then obtain p ps where p: "x_postlist (e_xap E) db (CHR ''Q'' # h) = p # ps"
      by (cases "x_postlist (e_xap E) db (CHR ''Q'' # h)") auto
    let ?e = "x_get_data (e_xap E) db p"
    have e: "?e \<in> ?es" "e_sha E ?e = h" by (fact postlist_key [OF laws Cons.prems(1) p])+
    from False have del: "hex E h \<in> set del" by simp
    from Cons.prems(2) p del show ?thesis
    proof (cases rule: rm_loop_hit)
      case (foreign d)
      with e del Cons.prems(1) show ?thesis
        by (intro conjI exI [of _ "{}"]) (auto simp: removes_def rm_exit_def intro!: bexI [of _ ?e])
    next
      case (fault x)
      then have "\<not> no_faults E" by (auto simp: no_faults_def) (metis sum.distinct(1))
      with fault Cons.prems(1) show ?thesis
        by (intro conjI exI [of _ "{}"]) (auto simp: removes_def rm_exit_def)
    next
      case (removed db1)
      have v1: "view db1 = view db |` (- indexed_by (view db) (CHR ''Q'' # h))"
        using laws_delete [OF laws removed(2)] .
      then have k1: "keyed (e_sha E) (view db1)" using keyed_restrict Cons.prems(1) by metis
      have e1: "entries (view db1) = {e \<in> ?es. e_sha E e \<noteq> h}"
        unfolding v1 by (rule entries_remove_key [OF Cons.prems(1)])
      obtain D where D: "keyed (e_sha E) (view db')" "finite D" "n = n0 + 1 + card D"
        "removes E author del hs D (entries (view db1)) (entries (view db'))"
        "rm_exit E author del hs D (entries (view db1)) out"
        using Cons.IH [OF k1 removed(3)] by blast
      have "h \<notin> D" using D(4) e1 by (auto simp: removes_def)
      then have "n = n0 + card (insert h D)" using D(2,3) by simp
      moreover have "removes E author del (h # hs) (insert h D) ?es (entries (view db'))"
        using D(4) e1 e removed(1) del by (auto simp: removes_def)
      moreover have "rm_exit E author del (h # hs) (insert h D) ?es out"
        using D(5) e1 e del by (auto simp: rm_exit_def)
      ultimately show ?thesis using D(1,2) by blast
    qed
  qed
qed

lemma db_rm_docs_removes:
  assumes laws: "xapian_laws (e_xap E) view" and key: "keyed (e_sha E) (view db)"
    and rm: "db_rm_docs E author db_name del hs db = Inr (info, db')"
  shows "keyed (e_sha E) (view db') \<and>
    (\<exists>D. removes E author del hs D (entries (view db)) (entries (view db')))"
proof -
  have none: "removes E author del hs {} es es" for es by (simp add: removes_def)
  show ?thesis
  proof (cases "x_open_rw (e_xap E) db db_name")
    case (Inl x)
    with rm key none show ?thesis by (auto simp: db_rm_docs_def)
  next
    case (Inr db1)
    have v1: "view db1 = view db" by (rule laws_open_rw [OF laws Inr])
    show ?thesis
    proof (cases "x_doccount (e_xap E) db1 = 0")
      case True
      obtain c where "x_commit (e_xap E) db1 db1 = (c, db')"
        using rm Inr True by (cases "x_commit (e_xap E) db1 db1") (auto simp: db_rm_docs_def)
      then have "view db' = view db" using laws_commit [OF laws] v1 by fastforce
      with key none show ?thesis by auto
    next
      case False
      with rm Inr obtain out n db2 where l: "rm_loop E author del hs db1 0 = Inr (out, n, db2)"
        and d: "db' = snd (x_commit (e_xap E) db1 db2)"
        by (auto simp: db_rm_docs_def bindr_Inr_conv)
      have "view db' = view db2 \<or> view db' = view db1"
        using laws_commit [OF laws, of db1 db2] d by (cases "x_commit (e_xap E) db1 db2") auto
      moreover have "keyed (e_sha E) (view db2) \<and>
          (\<exists>D. removes E author del hs D (entries (view db)) (entries (view db2)))"
        using rm_loop_removes [OF laws _ l] key v1 by auto
      ultimately show ?thesis using key v1 none by (elim disjE) (simp_all, blast)
    qed
  qed
qed

end
