(* ===== verification/Db_Store.thy ===== *)
theory Db_Store
  imports Db_Lemmas
begin

text \<open>
  The interface between the database module and the database thread, as a locale: a store of ads
  known by their digests, which can be listed, fetched from and added to. The thread's cache lemmas
  are proved from these laws; src/db.cpp's operations over any lawful Xapian provide them.
\<close>

locale doc_store =
  fixes ok :: "'db \<Rightarrow> bool"
    and digests :: "'db \<Rightarrow> string set"
    and digest :: "string \<Rightarrow> string"
    and offered :: "string list \<Rightarrow> string set"
    and list_hash :: "'db \<Rightarrow> string list"
    and get_docs :: "string list \<Rightarrow> 'db \<Rightarrow> string list res"
    and put_docs :: "string list \<Rightarrow> 'db \<Rightarrow> (nat \<times> 'db) res"
  assumes list_hash: "ok db \<Longrightarrow> set (list_hash db) = digests db"
    and get_docs: "ok db \<Longrightarrow> \<forall>h\<in>set hs. length h = 32 \<Longrightarrow>
          \<exists>ds. get_docs hs db = Inr ds \<and> map digest ds = filter (\<lambda>h. h \<in> digests db) hs"
    and put_docs_ok: "ok db \<Longrightarrow> put_docs ds db = Inr (n, db') \<Longrightarrow> ok db'"
    and put_docs: "ok db \<Longrightarrow> put_docs ds db = Inr (n, db') \<Longrightarrow>
          digests db \<subseteq> digests db' \<and> digests db' \<subseteq> digests db \<union> offered ds"
begin

text \<open>The cache rebuilt from a listing holds exactly the digests of the store.\<close>

lemma refreshed: "ok db \<Longrightarrow> set (uset_of (list_hash db)) = digests db"
  by (simp add: list_hash)

lemma get_known:
  assumes "ok db" and "\<forall>h\<in>set hs. length h = 32" and "set hs \<subseteq> digests db"
  shows "\<exists>ds. get_docs hs db = Inr ds \<and> map digest ds = hs \<and> length ds = length hs"
proof -
  have "filter (\<lambda>h. h \<in> digests db) hs = hs" using assms(3) by (auto simp: filter_id_conv)
  then show ?thesis using get_docs [OF assms(1,2)] by (metis length_map)
qed

lemma refreshed_after_put:
  assumes "ok db" and "put_docs ds db = Inr (n, db')"
  shows "set (uset_of (list_hash db')) = digests db'"
  using put_docs_ok [OF assms] by (rule refreshed)

end

definition db_ok :: "'db env \<Rightarrow> (double \<Rightarrow> double) \<Rightarrow> ('db \<Rightarrow> xview) \<Rightarrow> string \<Rightarrow> 'db \<Rightarrow> bool" where
  "db_ok E rr view db_name db \<longleftrightarrow>
     env_laws E rr view \<and> healthy E view db_name \<and> keyed (e_sha E) (view db)"

interpretation store: doc_store "db_ok E rr view db_name" "stored E view" "e_sha E" "peer_digests E"
    "db_list_hash E db_name False" "db_get_docs E db_name" "db_put_docs E db_name"
  for E rr view db_name
proof (unfold_locales, goal_cases)
  case (1 db)
  then have "xapian_laws (e_xap E) view" "healthy E view db_name"
    by (auto simp: db_ok_def env_laws_def)
  then show ?case by (rule set_db_list_hash)
next
  case (2 db hs)
  then have "env_laws E rr view" "healthy E view db_name" "keyed (e_sha E) (view db)"
    by (auto simp: db_ok_def)
  from db_get_docs_correct [OF this 2(2)] show ?case by blast
next
  case (3 db ds n db')
  then have "xapian_laws (e_xap E) view" "keyed (e_sha E) (view db)"
    by (auto simp: db_ok_def env_laws_def)
  from db_put_docs_stored [OF this 3(2)] 3(1) show ?case by (simp add: db_ok_def)
next
  case (4 db ds n db')
  then have "xapian_laws (e_xap E) view" "keyed (e_sha E) (view db)"
    by (auto simp: db_ok_def env_laws_def)
  from db_put_docs_stored [OF this 4(2)] show ?case by simp
qed

end
