(* ===== verification/Db_Thread.thy ===== *)
theory Db_Thread
  imports Db_Store Message
begin

text \<open>
  The database thread of the daemon, src/daemon_db_thread.cpp: the cache of digests, the requests of
  RPC clients, the requests of the p2p thread, and one turn of the thread's loop. A handler returns
  the new state and the messages it sends, in order; the locking around the cache is the subject
  of the theory \<open>Hash_Sync\<close>.
\<close>

record 'db db_state =
  ds_db :: 'db
  my_hashes :: "string list"

datatype db_out = ToClient message | ToP2p message

section \<open>Handlers\<close>

definition db_update_hashes :: "'db env \<Rightarrow> string \<Rightarrow> 'db db_state \<Rightarrow> 'db db_state" where
  "db_update_hashes E db_name s =
     s\<lparr>my_hashes := uset_of (db_list_hash E db_name False (ds_db s))\<rparr>"

text \<open>The user authentication at the end of a command: the user, and the command without it.\<close>

definition split_auth :: "string \<Rightarrow> (string \<times> string) res" where
  "split_auth cmd =
     (case rfind_sub ''AUTH:'' cmd of
        None \<Rightarrow> Inr ([], cmd)
      | Some u \<Rightarrow> bindr (erase_from_pred u cmd) (\<lambda>cmd'. Inr (drop (u + 5) cmd, cmd')))"

lemma split_auth_append:
  assumes "rfind_sub ''AUTH:'' user = None"
  shows "split_auth (cmd @ '' AUTH:'' @ user) = Inr (user, cmd)"
proof -
  have "rfind_sub ''AUTH:'' (tl ''AUTH:'' @ user) = None"
    using assms by (simp add: starts_with_def)
  then have "rfind_sub ''AUTH:'' ((cmd @ '' '') @ ''AUTH:'' @ user) = Some (length (cmd @ '' ''))"
    by (rule rfind_sub_append) simp
  then show ?thesis by (simp add: split_auth_def erase_from_pred_def)
qed

lemma split_auth_front:
  assumes "rfind_sub ''AUTH:'' user = None"
  shows "split_auth (''AUTH:'' @ user) = Inl StdOutOfRange"
proof -
  have "rfind_sub ''AUTH:'' (tl ''AUTH:'' @ user) = None"
    using assms by (simp add: starts_with_def)
  then have "rfind_sub ''AUTH:'' ([] @ ''AUTH:'' @ user) = Some (length ([] :: string))"
    by (rule rfind_sub_append) simp
  then show ?thesis by (simp add: split_auth_def erase_from_pred_def)
qed

definition db_client_db ::
  "'db env \<Rightarrow> string \<Rightarrow> string \<Rightarrow> string \<Rightarrow> 'db db_state \<Rightarrow> ('db db_state \<times> db_out list) res" where
  "db_client_db E db_name user q s =
     (if chars_match ''query'' q then
        Inr (s, [ToClient [db_query E db_name (drop 6 q) (ds_db s)]])
      else if chars_match ''add'' q then
        bindr (cassert (e_dbg E) (user \<noteq> [])) (\<lambda>_.
        bindr (db_add E user db_name (drop 4 q) (my_hashes s) (ds_db s)) (\<lambda>(reply, db').
          Inr (db_update_hashes E db_name (s\<lparr>ds_db := db'\<rparr>), [ToP2p [''NEW''], ToClient [reply]])))
      else if chars_match ''rm'' q then
        bindr (cassert (e_dbg E) (user \<noteq> [])) (\<lambda>_.
        bindr (db_rm E user db_name (drop 3 q) (my_hashes s) (ds_db s)) (\<lambda>(reply, db').
          Inr (db_update_hashes E db_name (s\<lparr>ds_db := db'\<rparr>), [ToP2p [''NEW''], ToClient [reply]])))
      else if chars_match ''list'' q then
        bindr (db_list E db_name (drop 5 q) (ds_db s)) (\<lambda>reply. Inr (s, [ToClient [reply]]))
      else Inr (s, [ToClient [''unknown command'']]))"

definition peers_reply :: "string list \<Rightarrow> string" where
  "peers_reply my_peers =
     (if my_peers \<noteq> [] then concat (map (\<lambda>addr. addr @ '' '') my_peers) else ''No peers'')"

definition db_client_op ::
  "'db env \<Rightarrow> string \<Rightarrow> string list \<Rightarrow> message \<Rightarrow> 'db db_state
    \<Rightarrow> ('db db_state \<times> db_out list) res" where
  "db_client_op E db_name my_peers msg s =
     bindr (msg_get msg) (\<lambda>(cmd0, msg').
     bindr (split_auth cmd0) (\<lambda>(user, cmd).
       if cmd = ''connect'' then Inr (s, [ToClient [''accept'']])
       else if chars_match ''db'' cmd then db_client_db E db_name user (drop 3 cmd) s
       else if cmd = ''peers'' then Inr (s, [ToClient [peers_reply my_peers]])
       else Inr (s, [ToClient [''unknown command'']])))"

definition keep_unknown :: "'db env \<Rightarrow> string list \<Rightarrow> string \<Rightarrow> string list \<Rightarrow> string list" where
  "keep_unknown E hashes doc docs =
     (if sha256 E doc \<notin> set hashes then docs @ [doc] else docs)"

definition db_peer_op ::
  "'db env \<Rightarrow> string \<Rightarrow> message \<Rightarrow> 'db db_state \<Rightarrow> ('db db_state \<times> db_out list) res" where
  "db_peer_op E db_name msg s =
     bindr (msg_get msg) (\<lambda>(cmd, msg1).
       if cmd = ''GET'' then
         bindr (msg_get msg1) (\<lambda>(addr, msg2).
         bindr (msg_count msg2) (\<lambda>(num, msg3).
         bindr (cassert (e_dbg E) (num > 0)) (\<lambda>_.
         bindr (msg_loop collect num msg3 []) (\<lambda>hashes.
         bindr (db_get_docs E db_name hashes (ds_db s)) (\<lambda>docs.
           Inr (s, [ToP2p (''PUT'' # addr # nat_to_string (length docs) # docs)]))))))
       else if cmd = ''INS'' then
         bindr (msg_count msg1) (\<lambda>(num, msg2).
         bindr (cassert (e_dbg E) (num > 0)) (\<lambda>_.
         bindr (msg_loop (keep_unknown E (my_hashes s)) num msg2 []) (\<lambda>docs.
           if docs \<noteq> [] then
             bindr (db_put_docs E db_name docs (ds_db s)) (\<lambda>(n, db').
               Inr (db_update_hashes E db_name (s\<lparr>ds_db := db'\<rparr>), [ToP2p [''NEW'']]))
           else Inr (s, []))))
       else Inr (s, []))"

section \<open>The thread\<close>

text \<open>
  \<open>configure_curve\<close> calls on the authenticator: any client (stonehouse), the listed ones (ironhouse),
  or none when RPC is not secured.
\<close>

definition curve_domains :: "bool \<Rightarrow> string list \<Rightarrow> string list" where
  "curve_domains rpc_secure rpc_authorized_clients =
     (if rpc_secure then
        if rpc_authorized_clients = [] then [''CURVE_ALLOW_ANY''] else rpc_authorized_clients
      else [])"

text \<open>
  The thread first fills the cache. One turn of its loop then handles a client's message, if one is
  waiting, and a message of the p2p thread, if one comes within the poll.
\<close>

definition db_thread_init :: "'db env \<Rightarrow> string \<Rightarrow> 'db \<Rightarrow> 'db db_state" where
  "db_thread_init E db_name db =
     db_update_hashes E db_name \<lparr>ds_db = db, my_hashes = []\<rparr>"

definition db_thread_turn ::
  "'db env \<Rightarrow> string \<Rightarrow> string list \<times> message option \<times> message option \<Rightarrow> 'db db_state
    \<Rightarrow> ('db db_state \<times> db_out list) res" where
  "db_thread_turn E db_name ev s =
     (case ev of (my_peers, cl, pr) \<Rightarrow>
       bindr (case cl of None \<Rightarrow> Inr (s, []) | Some m \<Rightarrow> db_client_op E db_name my_peers m s)
         (\<lambda>(s1, out1).
       bindr (case pr of None \<Rightarrow> Inr (s1, []) | Some m \<Rightarrow> db_peer_op E db_name m s1)
         (\<lambda>(s2, out2). Inr (s2, out1 @ out2))))"

lemma fold_keep_unknown:
  "fold (keep_unknown E hs) ds acc = acc @ filter (\<lambda>d. e_sha E d \<notin> set hs) ds"
  by (induction ds arbitrary: acc) (auto simp: keep_unknown_def sha256_def)

section \<open>The cache\<close>

text \<open>
  The invariant of the thread: the database is lawful and keyed, and the cache holds exactly the
  digests of the stored ads.
\<close>

definition db_thread_inv ::
  "'db env \<Rightarrow> (double \<Rightarrow> double) \<Rightarrow> ('db \<Rightarrow> xview) \<Rightarrow> string \<Rightarrow> 'db db_state \<Rightarrow> bool" where
  "db_thread_inv E rr view db_name s \<longleftrightarrow>
     db_ok E rr view db_name (ds_db s) \<and> set (my_hashes s) = stored E view (ds_db s)"

lemma db_update_hashes_inv:
  assumes "db_ok E rr view db_name (ds_db s)"
  shows "db_thread_inv E rr view db_name (db_update_hashes E db_name s)"
  using store.refreshed [OF assms] assms
  by (simp add: db_thread_inv_def db_update_hashes_def)

lemma ds_db_update_hashes [simp]: "ds_db (db_update_hashes E db_name s) = ds_db s"
  by (simp add: db_update_hashes_def)

lemma db_ok_laws: "db_ok E rr view db_name db \<Longrightarrow> xapian_laws (e_xap E) view"
  by (simp add: db_ok_def env_laws_def)

lemma db_okD:
  assumes "db_ok E rr view db_name db"
  shows "env_laws E rr view" "healthy E view db_name" "keyed (e_sha E) (view db)"
  using assms by (auto simp: db_ok_def)

lemma index_db_ok:
  assumes ok: "db_ok E rr view db_name db"
    and ix: "index_db E author db_name file hs db = Inr (info, db')"
  shows "db_ok E rr view db_name db'"
proof (cases "e_files E file")
  case None
  with assms show ?thesis by (auto simp: index_db_def bindr_Inr_conv)
next
  case (Some body)
  note laws = db_ok_laws [OF ok]
  from ix Some obtain db1 where op: "x_open_rw (e_xap E) db db_name = Inr db1"
    by (auto simp: index_db_def bindr_Inr_conv split: sum.splits)
  from ix Some op obtain b ds err n db2 where
    l: "index_loop E author hs ds db1 0 = Inr (err, n, db2)"
    and d: "db' = snd (x_commit (e_xap E) db1 db2)"
    by (auto simp: index_db_def bindr_Inr_conv)
  have v1: "view db1 = view db" by (rule laws_open_rw [OF laws op])
  with db_okD(3) [OF ok] have k1: "keyed (e_sha E) (view db1)" by simp
  have "view db' = view db2 \<or> view db' = view db1"
    using laws_commit [OF laws, of db1 db2] d by (cases "x_commit (e_xap E) db1 db2") auto
  then have "keyed (e_sha E) (view db')"
    using index_loop_stored [OF laws k1 l] k1 by auto
  with ok show ?thesis by (simp add: db_ok_def)
qed

lemma db_add_ok:
  assumes "db_ok E rr view db_name db"
    and "db_add E author db_name cmd hs db = Inr (info, db')"
  shows "db_ok E rr view db_name db'"
  using assms index_db_ok
  by (auto simp: db_add_def Let_def bindr_Inr_conv split: if_splits)

lemma db_rm_ok:
  assumes "db_ok E rr view db_name db"
    and "db_rm E author db_name cmd hs db = Inr (info, db')"
  shows "db_ok E rr view db_name db'"
proof -
  from assms(2) have "db' = db \<or>
      db_rm_docs E author db_name (uset_of (tokenize (trim cmd))) hs db = Inr (info, db')"
    by (auto simp: db_rm_def Let_def bindr_Inr_conv split: if_splits)
  then show ?thesis
    using db_rm_docs_removes [OF db_ok_laws [OF assms(1)] db_okD(3) [OF assms(1)]] assms(1)
    by (auto simp: db_ok_def)
qed

text \<open>A client's request leaves the state, or is an addition or a removal followed by a refresh.\<close>

lemma db_client_db_cases:
  assumes op: "db_client_db E db_name user q s = Inr (s', out)"
  obtains (keep) r where "s' = s" "out = [ToClient [r]]"
  | (add) r db' where "db_add E user db_name (drop 4 q) (my_hashes s) (ds_db s) = Inr (r, db')"
      "s' = db_update_hashes E db_name (s\<lparr>ds_db := db'\<rparr>)" "out = [ToP2p [''NEW''], ToClient [r]]" "chars_match ''add'' q"
  | (rm) r db' where "db_rm E user db_name (drop 3 q) (my_hashes s) (ds_db s) = Inr (r, db')"
      "s' = db_update_hashes E db_name (s\<lparr>ds_db := db'\<rparr>)" "out = [ToP2p [''NEW''], ToClient [r]]" "chars_match ''rm'' q"
proof -
  consider "chars_match ''query'' q" | "\<not> chars_match ''query'' q" "chars_match ''add'' q"
    | "\<not> chars_match ''query'' q" "\<not> chars_match ''add'' q" "chars_match ''rm'' q"
    | "\<not> chars_match ''query'' q" "\<not> chars_match ''add'' q" "\<not> chars_match ''rm'' q" by blast
  then show thesis
  proof cases
    case 1
    with op have "s' = s" "out = [ToClient [db_query E db_name (drop 6 q) (ds_db s)]]"
      by (auto simp: db_client_db_def)
    then show ?thesis by (rule keep)
  next
    case 2
    with op obtain r db' where "db_add E user db_name (drop 4 q) (my_hashes s) (ds_db s) = Inr (r, db')"
      "s' = db_update_hashes E db_name (s\<lparr>ds_db := db'\<rparr>)" "out = [ToP2p [''NEW''], ToClient [r]]"
      by (auto simp: db_client_db_def bindr_Inr_conv)
    then show ?thesis using 2(2) by (rule add)
  next
    case 3
    with op obtain r db' where "db_rm E user db_name (drop 3 q) (my_hashes s) (ds_db s) = Inr (r, db')"
      "s' = db_update_hashes E db_name (s\<lparr>ds_db := db'\<rparr>)" "out = [ToP2p [''NEW''], ToClient [r]]"
      by (auto simp: db_client_db_def bindr_Inr_conv)
    then show ?thesis using 3(3) by (rule rm)
  next
    case 4
    with op have "s' = s \<and> (\<exists>r. out = [ToClient [r]])"
      by (cases "chars_match ''list'' q") (auto simp: db_client_db_def bindr_Inr_conv)
    with keep show ?thesis by blast
  qed
qed

lemma db_client_op_cases:
  assumes op: "db_client_op E db_name my_peers msg s = Inr (s', out)"
  obtains (keep) r where "s' = s" "out = [ToClient [r]]"
  | (db) cmd0 user cmd where "hd msg = cmd0" "split_auth cmd0 = Inr (user, cmd)"
      "chars_match ''db'' cmd" "db_client_db E db_name user (drop 3 cmd) s = Inr (s', out)"
proof -
  from op obtain cmd0 msg' user cmd where m: "msg = cmd0 # msg'" "split_auth cmd0 = Inr (user, cmd)"
    by (auto simp: db_client_op_def bindr_Inr_conv)
  consider "cmd = ''connect''" | "cmd \<noteq> ''connect''" "chars_match ''db'' cmd"
    | "cmd \<noteq> ''connect''" "\<not> chars_match ''db'' cmd" by blast
  then show thesis
  proof cases
    case 1
    with op m have "s' = s" "out = [ToClient [''accept'']]" by (auto simp: db_client_op_def)
    then show ?thesis by (rule keep)
  next
    case 2
    with op m have "db_client_db E db_name user (drop 3 cmd) s = Inr (s', out)"
      by (simp add: db_client_op_def)
    with m 2 db show ?thesis by simp
  next
    case 3
    with op m have "s' = s \<and> (\<exists>r. out = [ToClient [r]])"
      by (cases "cmd = ''peers''") (auto simp: db_client_op_def)
    with keep show ?thesis by blast
  qed
qed

lemma db_client_op_inv:
  assumes inv: "db_thread_inv E rr view db_name s"
    and op: "db_client_op E db_name my_peers msg s = Inr (s', out)"
  shows "db_thread_inv E rr view db_name s'"
proof -
  have ok: "db_ok E rr view db_name (ds_db s)" using inv by (simp add: db_thread_inv_def)
  from op show ?thesis
  proof (cases rule: db_client_op_cases)
    case keep
    with inv show ?thesis by simp
  next
    case (db cmd0 user cmd)
    from db(4) show ?thesis
    proof (cases rule: db_client_db_cases)
      case keep
      with inv show ?thesis by simp
    next
      case (add r db')
      with db_add_ok [OF ok add(1)] show ?thesis by (simp add: db_update_hashes_inv)
    next
      case (rm r db')
      with db_rm_ok [OF ok rm(1)] show ?thesis by (simp add: db_update_hashes_inv)
    qed
  qed
qed

lemma db_client_op_out:
  assumes "db_client_op E db_name my_peers msg s = Inr (s', out)"
  shows "\<exists>r. out = [ToClient [r]] \<or> out = [ToP2p [''NEW''], ToClient [r]]"
  using assms by (elim db_client_op_cases db_client_db_cases) auto

text \<open>
  The p2p thread is told of news exactly when the command is an addition or a removal; every other command
  leaves the state alone.
\<close>

lemma db_client_db_news:
  assumes op: "db_client_db E db_name user q s = Inr (s', out)"
  shows "\<exists>r. if chars_match ''add'' q \<or> chars_match ''rm'' q then out = [ToP2p [''NEW''], ToClient [r]]
    else out = [ToClient [r]] \<and> s' = s"
proof -
  have "\<not> (chars_match ''add'' q \<or> chars_match ''rm'' q)" if "chars_match ''query'' q"
    using that by (auto simp: chars_match_def split: option.splits if_splits)
  then show ?thesis using op by (auto simp: db_client_db_def bindr_Inr_conv split: if_splits)
qed

lemma db_client_op_news:
  assumes op: "db_client_op E db_name my_peers msg s = Inr (s', out)"
  shows "\<exists>user cmd r. split_auth (hd msg) = Inr (user, cmd) \<and>
    (if chars_match ''db'' cmd \<and> (chars_match ''add'' (drop 3 cmd) \<or> chars_match ''rm'' (drop 3 cmd))
     then out = [ToP2p [''NEW''], ToClient [r]] else out = [ToClient [r]] \<and> s' = s)"
proof -
  from op obtain cmd0 msg' user cmd where m: "msg = cmd0 # msg'" "split_auth cmd0 = Inr (user, cmd)"
    by (auto simp: db_client_op_def bindr_Inr_conv)
  show ?thesis
  proof (cases "chars_match ''db'' cmd")
    case True
    then have "cmd \<noteq> ''connect''" by (auto simp: chars_match_def char_at_def)
    with op m True have "db_client_db E db_name user (drop 3 cmd) s = Inr (s', out)" by (simp add: db_client_op_def)
    from db_client_db_news [OF this] m True show ?thesis by auto
  next
    case False
    with op m show ?thesis by (auto simp: db_client_op_def split: if_splits)
  qed
qed

lemma db_peer_op_cases:
  assumes op: "db_peer_op E db_name msg s = Inr (s', out)"
  obtains (unknown) "s' = s" "out = []"
  | (get) addr size m hs ds where "msg = ''GET'' # addr # size # m" "stoul size = Inr (length hs)"
      "hs = take (length hs) m" "db_get_docs E db_name hs (ds_db s) = Inr ds" "s' = s"
      "out = [ToP2p (''PUT'' # addr # nat_to_string (length ds) # ds)]"
  | (ins) size m k ds n db' where "msg = ''INS'' # size # m" "stoul size = Inr k"
      "ds = fold (keep_unknown E (my_hashes s)) (take k m) []" "ds \<noteq> []"
      "db_put_docs E db_name ds (ds_db s) = Inr (n, db')"
      "s' = db_update_hashes E db_name (s\<lparr>ds_db := db'\<rparr>)" "out = [ToP2p [''NEW'']]"
proof -
  have "msg \<noteq> []" using op by (cases msg) (simp_all add: db_peer_op_def)
  then obtain cmd m1 where m: "msg = cmd # m1" by (cases msg) simp_all
  consider (G) "cmd = ''GET''" | (I) "cmd = ''INS''" | (U) "cmd \<noteq> ''GET''" "cmd \<noteq> ''INS''" by blast
  then show thesis
  proof cases
    case G
    with op m have G': "bindr (msg_get m1) (\<lambda>(addr, msg2).
         bindr (msg_count msg2) (\<lambda>(num, msg3).
         bindr (cassert (e_dbg E) (num > 0)) (\<lambda>_.
         bindr (msg_loop collect num msg3 []) (\<lambda>hashes.
         bindr (db_get_docs E db_name hashes (ds_db s)) (\<lambda>docs.
           Inr (s, [ToP2p (''PUT'' # addr # nat_to_string (length docs) # docs)])))))) = Inr (s', out)"
      by (simp add: db_peer_op_def)
    then obtain addr msg2 k m3 where c: "m1 = addr # msg2" "msg_count msg2 = Inr (k, m3)"
      by (auto simp: bindr_Inr_conv)
    then obtain size where sz: "msg2 = size # m3" "stoul size = Inr k" by (auto simp: msg_count_Inr)
    from G' c have k: "k \<le> length m3" and G2: "bindr (db_get_docs E db_name (take k m3) (ds_db s))
        (\<lambda>docs. Inr (s, [ToP2p (''PUT'' # addr # nat_to_string (length docs) # docs)])) = Inr (s', out)"
      by (simp_all add: bindr_Inr_conv msg_loop_eq split: if_splits)
    from G2 obtain ds where "db_get_docs E db_name (take k m3) (ds_db s) = Inr ds" "s' = s"
      "out = [ToP2p (''PUT'' # addr # nat_to_string (length ds) # ds)]"
      by (auto simp: bindr_Inr_conv)
    note * = c(1) sz k this
    show ?thesis by (rule get [where hs = "take k m3"]) (use * G m in \<open>auto simp: min_absorb2\<close>)
  next
    case I
    with op m have I': "bindr (msg_count m1) (\<lambda>(num, msg2).
         bindr (cassert (e_dbg E) (num > 0)) (\<lambda>_.
         bindr (msg_loop (keep_unknown E (my_hashes s)) num msg2 []) (\<lambda>docs.
           if docs \<noteq> [] then
             bindr (db_put_docs E db_name docs (ds_db s)) (\<lambda>(n, db').
               Inr (db_update_hashes E db_name (s\<lparr>ds_db := db'\<rparr>), [ToP2p [''NEW'']]))
           else Inr (s, [])))) = Inr (s', out)"
      by (simp add: db_peer_op_def)
    then obtain k m2 where c: "msg_count m1 = Inr (k, m2)" by (auto simp: bindr_Inr_conv)
    then obtain size where *: "m1 = size # m2" "stoul size = Inr k" by (auto simp: msg_count_Inr)
    define ds where "ds = fold (keep_unknown E (my_hashes s)) (take k m2) []"
    from I' c have I2: "(if ds \<noteq> [] then
             bindr (db_put_docs E db_name ds (ds_db s)) (\<lambda>(n, db').
               Inr (db_update_hashes E db_name (s\<lparr>ds_db := db'\<rparr>), [ToP2p [''NEW'']]))
           else Inr (s, [])) = Inr (s', out)"
      by (simp add: bindr_Inr_conv msg_loop_eq ds_def split: if_splits)
    show ?thesis
    proof (cases "ds = []")
      case True
      with I2 have "s' = s" "out = []" by simp_all
      then show ?thesis by (rule unknown)
    next
      case False
      with I2 obtain n db' where "db_put_docs E db_name ds (ds_db s) = Inr (n, db')"
        "s' = db_update_hashes E db_name (s\<lparr>ds_db := db'\<rparr>)" "out = [ToP2p [''NEW'']]"
        by (auto simp: bindr_Inr_conv)
      with I m * ds_def False show ?thesis by (intro ins) simp_all
    qed
  next
    case U
    with op m unknown show ?thesis by (simp add: db_peer_op_def)
  qed
qed

lemma db_peer_op_inv:
  assumes inv: "db_thread_inv E rr view db_name s"
    and op: "db_peer_op E db_name msg s = Inr (s', out)"
  shows "db_thread_inv E rr view db_name s'"
proof -
  have ok: "db_ok E rr view db_name (ds_db s)" using inv by (simp add: db_thread_inv_def)
  from op show ?thesis
  proof (cases rule: db_peer_op_cases)
    case (ins size m k ds n db')
    with store.put_docs_ok [OF ok ins(5)] show ?thesis by (simp add: db_update_hashes_inv)
  qed (use inv in simp_all)
qed

end
