(* ===== verification/Db_Protocol.thy ===== *)
theory Db_Protocol
  imports Db_Thread
begin

text \<open>
  The database thread as a machine, and what its requests achieve: a removal that is allowed removes
  exactly what is asked for, an addition adds exactly the new ads, and no request of a client makes an
  ad of somebody else disappear.
\<close>

section \<open>Removal\<close>

lemma rm_loop_total:
  assumes laws: "xapian_laws (e_xap E) view" and "keyed (e_sha E) (view db)"
    and "\<forall>h\<in>set hs. length h = 32"
    and "\<forall>e\<in>entries (view db). hex E (e_sha E e) \<in> set del \<longrightarrow> author_of E e \<noteq> None"
  shows "\<exists>r. rm_loop E author del hs db n0 = Inr r"
  using assms(2-)
proof (induction hs arbitrary: db n0)
  case (Cons h hs)
  let ?pl = "x_postlist (e_xap E) db (CHR ''Q'' # h)"
  have len: "length h = 32" and len': "\<forall>h\<in>set hs. length h = 32" using Cons.prems(2) by auto
  have IH: "\<exists>r. rm_loop E author del hs db n0 = Inr r"
    by (rule Cons.IH [OF Cons.prems(1) len' Cons.prems(3)])
  show ?case
  proof (cases "?pl = [] \<or> hex E h \<notin> set del")
    case True
    then show ?thesis using IH len by (cases ?pl) simp_all
  next
    case False
    then obtain p ps where p: "?pl = p # ps" by (cases ?pl) auto
    let ?e = "x_get_data (e_xap E) db p"
    have e: "?e \<in> entries (view db)" "e_sha E ?e = h" by (fact postlist_key [OF laws Cons.prems(1) p])+
    then have "author_of E ?e \<noteq> None" using Cons.prems(3) False by simp
    then obtain b d where d: "JSONBase_deserialize (e_json E) ?e Document_new = Inr (b, d)"
      by (auto simp: author_of_def split: sum.splits)
    show ?thesis
    proof (cases "x_delete_document (e_xap E) db (CHR ''Q'' # h)")
      case (Inl x)
      then show ?thesis using False p d len by simp
    next
      case (Inr db1)
      have v1: "view db1 = view db |` (- indexed_by (view db) (CHR ''Q'' # h))"
        using laws_delete [OF laws Inr] .
      then have k1: "keyed (e_sha E) (view db1)" using keyed_restrict Cons.prems(1) by metis
      have "entries (view db1) \<subseteq> entries (view db)"
        unfolding v1 entries_remove_key [OF Cons.prems(1)] by blast
      then have "\<exists>r. rm_loop E author del hs db1 (n0 + 1) = Inr r"
        using Cons.prems(3) by (intro Cons.IH [OF k1 len']) blast
      then show ?thesis using False p d len Inr by (cases "author = m_author d") auto
    qed
  qed
qed simp

text \<open>When everything asked for belongs to the caller, exactly that is removed.\<close>

lemma db_rm_docs_complete:
  assumes laws: "xapian_laws (e_xap E) view" and key: "keyed (e_sha E) (view db)"
    and nf: "no_faults E" and sha: "\<forall>s. length (e_sha E s) = 32"
    and hs: "set hs = stored E view db" and ne: "stored E view db \<noteq> {}"
    and own: "\<forall>e\<in>entries (view db). hex E (e_sha E e) \<in> set del \<longrightarrow> author_of E e = Some author"
  shows "\<exists>db'. db_rm_docs E author db_name del hs db
      = Inr (removed_info (card {h \<in> stored E view db. hex E h \<in> set del}), db') \<and>
    stored E view db' = {h \<in> stored E view db. hex E h \<notin> set del}"
proof -
  obtain db1 where db1: "x_open_rw (e_xap E) db db_name = Inr db1" using nf unfolding no_faults_def by metis
  have v1: "view db1 = view db" by (rule laws_open_rw [OF laws db1])
  have k1: "keyed (e_sha E) (view db1)" using key v1 by simp
  have "\<forall>h\<in>set hs. length h = 32" using sha hs by (auto simp: stored_def)
  moreover have "\<forall>e\<in>entries (view db1). hex E (e_sha E e) \<in> set del \<longrightarrow> author_of E e \<noteq> None"
    using own v1 by simp
  ultimately obtain out n db2 where l: "rm_loop E author del hs db1 0 = Inr (out, n, db2)"
    using rm_loop_total [OF laws k1] by fastforce
  obtain D where D: "n = card D" "removes E author del hs D (entries (view db)) (entries (view db2))"
    "rm_exit E author del hs D (entries (view db)) out"
    using rm_loop_removes [OF laws k1 l] v1 by auto
  have "out \<noteq> RmNotAuthor" using D(3) own by (auto simp: rm_exit_def)
  then have rmd: "out = RmDone" by (cases out) auto
  with rmd D(3) nf hs have DD: "D = {h \<in> stored E view db. hex E h \<in> set del}"
    by (auto simp: rm_exit_def stored_def)
  have "x_doccount (e_xap E) db1 \<noteq> 0"
    using ne v1 laws_doccount [OF laws, of db1] laws_finite [OF laws, of db1] entries_empty [of "view db"]
    by (auto simp: stored_def)
  moreover obtain db3 where c: "x_commit (e_xap E) db1 db2 = (None, db3)"
    using nf by (metis no_faults_def prod.collapse)
  ultimately have "db_rm_docs E author db_name del hs db = Inr (removed_info n, db3)"
    using db1 l rmd by (simp add: db_rm_docs_def)
  moreover have "view db3 = view db2" using laws_commit [OF laws c] by simp
  then have "entries (view db3) = {e \<in> entries (view db). e_sha E e \<notin> D}"
    using D(2) by (simp add: removes_def)
  then have "stored E view db3 = {h \<in> stored E view db. hex E h \<notin> set del}"
    unfolding stored_def DD by (auto simp: stored_def)
  ultimately show ?thesis using D(1) DD by blast
qed

section \<open>Addition\<close>

lemma index_loop_total:
  assumes "no_faults E" and "author \<noteq> []"
  shows "\<exists>n db'. index_loop E author hs ds db n0 = Inr (None, n, db')"
proof (induction ds arbitrary: db n0)
  case (Cons d ds)
  show ?case
  proof (cases "e_sha E (client_entry E author d) \<in> set hs")
    case True
    then show ?thesis using Cons by (simp add: Let_def sha256_def client_entry_def)
  next
    case False
    obtain sha d' db1 where "add_document E author (d\<lparr>m_author := author\<rparr>) db = Inr (Inr (sha, d', db1))"
      using add_document_no_fault [OF assms] by blast
    with False Cons [of db1 "n0 + 1"] show ?thesis
      by (simp add: Let_def sha256_def client_entry_def)
  qed
qed simp

lemma index_db_adds:
  assumes laws: "xapian_laws (e_xap E) view" and key: "keyed (e_sha E) (view db)"
    and nf: "no_faults E" and au: "author \<noteq> []" and fl: "e_files E f \<noteq> None"
    and ds: "deserializeFromFile (e_json E) (e_files E) f [] = Inr (ok, ds)"
  shows "\<exists>db'. index_db E author db_name f hs db
      = Inr (added_info (length (new_docs E author hs ds)), db') \<and>
    stored E view db' = stored E view db \<union>
      (\<lambda>d. e_sha E (client_entry E author d)) ` set (new_docs E author hs ds)"
proof -
  obtain db1 where db1: "x_open_rw (e_xap E) db db_name = Inr db1" using nf unfolding no_faults_def by metis
  have v1: "view db1 = view db" by (rule laws_open_rw [OF laws db1])
  obtain n db2 where l: "index_loop E author hs ds db1 0 = Inr (None, n, db2)"
    using index_loop_total [OF nf au] by blast
  have k1: "keyed (e_sha E) (view db1)" using key v1 by simp
  have st: "n = length (new_docs E author hs ds)" "stored E view db2 = stored E view db1 \<union>
      (\<lambda>d. e_sha E (client_entry E author d)) ` set (new_docs E author hs ds)"
    using index_loop_stored [OF laws k1 l] by auto
  obtain db3 where c: "x_commit (e_xap E) db1 db2 = (None, db3)"
    using nf by (metis no_faults_def prod.collapse)
  have "view db3 = view db2" using laws_commit [OF laws c] by simp
  then have "stored E view db3 = stored E view db2" by (simp add: stored_def)
  moreover have "index_db E author db_name f hs db = Inr (added_info n, db3)"
    using au fl db1 ds l c by (auto simp: index_db_def)
  ultimately show ?thesis using st v1 by (auto simp: stored_def)
qed

lemma index_db_keeps:
  assumes laws: "xapian_laws (e_xap E) view" and key: "keyed (e_sha E) (view db)"
    and ix: "index_db E author db_name f hs db = Inr (info, db')"
  shows "stored E view db \<subseteq> stored E view db'"
proof (cases "e_files E f")
  case None
  with ix show ?thesis by (auto simp: index_db_def bindr_Inr_conv)
next
  case (Some body)
  from ix Some obtain db1 where op: "x_open_rw (e_xap E) db db_name = Inr db1"
    by (auto simp: index_db_def bindr_Inr_conv split: sum.splits)
  from ix Some op obtain ds err n db2 where l: "index_loop E author hs ds db1 0 = Inr (err, n, db2)"
    and d: "db' = snd (x_commit (e_xap E) db1 db2)"
    by (auto simp: index_db_def bindr_Inr_conv)
  have v1: "view db1 = view db" by (rule laws_open_rw [OF laws op])
  with key have k1: "keyed (e_sha E) (view db1)" by simp
  have "stored E view db1 \<subseteq> stored E view db2" using index_loop_stored [OF laws k1 l] by auto
  moreover have "view db' = view db2 \<or> view db' = view db1"
    using laws_commit [OF laws, of db1 db2] d by (cases "x_commit (e_xap E) db1 db2") auto
  ultimately show ?thesis using v1 by (auto simp: stored_def)
qed

section \<open>Requests of clients\<close>

lemma db_rm_removes:
  assumes "xapian_laws (e_xap E) view" and "keyed (e_sha E) (view db)"
    and "db_rm E author db_name cmd hs db = Inr (info, db')"
    and "e \<in> entries (view db)" and "e_sha E e \<notin> stored E view db'"
  shows "\<exists>e'\<in>entries (view db). e_sha E e' = e_sha E e \<and> author_of E e' = Some author \<and>
    hex E (e_sha E e) \<in> set (tokenize (trim cmd))"
proof -
  from assms(3) have "db' = db \<or>
      db_rm_docs E author db_name (uset_of (tokenize (trim cmd))) hs db = Inr (info, db')"
    by (auto simp: db_rm_def Let_def bindr_Inr_conv split: if_splits)
  moreover have "db' \<noteq> db" using assms(4,5) by (auto simp: stored_def)
  ultimately obtain D where D: "removes E author (uset_of (tokenize (trim cmd))) hs D
      (entries (view db)) (entries (view db'))"
    using db_rm_docs_removes [OF assms(1,2)] by blast
  have "e \<notin> entries (view db')" using assms(5) by (auto simp: stored_def)
  then have "e_sha E e \<in> D" using D assms(4) by (simp add: removes_def)
  with D show ?thesis by (auto simp: removes_def)
qed

text \<open>An ad that a client's request makes disappear is an ad of that user, and was named by its hash.\<close>

lemma db_client_op_removes:
  assumes inv: "db_thread_inv E rr view db_name s"
    and op: "db_client_op E db_name my_peers msg s = Inr (s', out)"
    and e: "e \<in> entries (view (ds_db s))" "e_sha E e \<notin> stored E view (ds_db s')"
  shows "\<exists>user cmd e'. split_auth (hd msg) = Inr (user, cmd) \<and> e' \<in> entries (view (ds_db s)) \<and>
    e_sha E e' = e_sha E e \<and> author_of E e' = Some user \<and>
    chars_match ''rm'' (drop 3 cmd) \<and> hex E (e_sha E e) \<in> set (tokenize (trim (drop 6 cmd)))"
proof -
  have ok: "db_ok E rr view db_name (ds_db s)" using inv by (simp add: db_thread_inv_def)
  note laws = db_ok_laws [OF ok] and key = db_okD(3) [OF ok]
  have same: "\<not> stored E view (ds_db s) \<subseteq> stored E view (ds_db s')" using e by (auto simp: stored_def)
  from op show ?thesis
  proof (cases rule: db_client_op_cases)
    case keep
    with same show ?thesis by simp
  next
    case (db cmd0 user cmd)
    from db(4) show ?thesis
    proof (cases rule: db_client_db_cases)
      case keep
      with same show ?thesis by simp
    next
      case (add r db')
      have "stored E view (ds_db s) \<subseteq> stored E view db'"
      proof (cases "chars_match ''json'' (trim (drop 4 (drop 3 cmd)))")
        case True
        with add(1) have "index_db E user db_name (drop 5 (trim (drop 4 (drop 3 cmd)))) (my_hashes s)
            (ds_db s) = Inr (r, db')" by (simp add: db_add_def Let_def bindr_Inr_conv)
        then show ?thesis by (rule index_db_keeps [OF laws key])
      next
        case False
        with add(1) show ?thesis by (simp add: db_add_def Let_def bindr_Inr_conv)
      qed
      with same add(2) show ?thesis by simp
    next
      case (rm r db')
      then show ?thesis using db_rm_removes [OF laws key rm(1) e(1)] e(2) db by auto
    qed
  qed
qed

section \<open>The thread\<close>

fun good_db_out :: "db_out \<Rightarrow> bool" where
  "good_db_out (ToClient m) \<longleftrightarrow> length m = 1"
| "good_db_out (ToP2p m) \<longleftrightarrow>
     m = [''NEW''] \<or> (\<exists>a ds. m = ''PUT'' # a # nat_to_string (length ds) # ds)"

lemma db_thread_turnE:
  assumes "db_thread_turn E db_name (my_peers, cl, pr) s = Inr (s', out)"
  obtains s1 out1 out2 where
    "(case cl of None \<Rightarrow> Inr (s, []) | Some m \<Rightarrow> db_client_op E db_name my_peers m s) = Inr (s1, out1)"
    "(case pr of None \<Rightarrow> Inr (s1, []) | Some m \<Rightarrow> db_peer_op E db_name m s1) = Inr (s', out2)"
    "out = out1 @ out2"
  using assms unfolding db_thread_turn_def prod.case by (elim bindr_InrE) (auto elim!: bindr_InrE)

text \<open>An ad that a request makes disappear: its author removed it, by name, and the p2p thread is told.\<close>

lemma own_ad_removed:
  assumes inv: "db_thread_inv E rr view db_name s"
    and op: "db_client_op E db_name my_peers msg s = Inr (s', out)"
    and e: "e \<in> entries (view (ds_db s))" "e_sha E e \<notin> stored E view (ds_db s')"
  shows "\<exists>user cmd r. split_auth (hd msg) = Inr (user, cmd) \<and> author_of E e = Some user \<and>
    chars_match ''rm'' (drop 3 cmd) \<and> hex E (e_sha E e) \<in> set (tokenize (trim (drop 6 cmd))) \<and>
    out = [ToP2p [''NEW''], ToClient [r]]"
proof -
  obtain user cmd e' where u: "split_auth (hd msg) = Inr (user, cmd)" "e' \<in> entries (view (ds_db s))"
    "e_sha E e' = e_sha E e" "author_of E e' = Some user" "chars_match ''rm'' (drop 3 cmd)"
    "hex E (e_sha E e) \<in> set (tokenize (trim (drop 6 cmd)))"
    using db_client_op_removes [OF inv op e] by blast
  have "keyed (e_sha E) (view (ds_db s))" using inv by (simp add: db_thread_inv_def db_ok_def)
  with e(1) u(2,3) have "e' = e" unfolding keyed_def entries_def ran_def by (smt (verit) mem_Collect_eq option.inject)
  moreover have "ds_db s' \<noteq> ds_db s" using e by (auto simp: stored_def)
  then obtain r where "out = [ToP2p [''NEW''], ToClient [r]]"
    using db_client_op_news [OF op] by (auto split: if_splits)
  ultimately show ?thesis using u by blast
qed

lemma db_client_op_good:
  assumes "db_client_op E db_name my_peers msg s = Inr (s', out)" and "x \<in> set out"
  shows "good_db_out x"
  using db_client_op_out [OF assms(1)] assms(2) by auto

lemma db_peer_op_good:
  assumes "db_peer_op E db_name msg s = Inr (s', out)" and "x \<in> set out"
  shows "good_db_out x"
  using assms(1) by (cases rule: db_peer_op_cases) (use assms(2) in auto)

interpretation dbt: machine "db_thread_turn E db_name" "db_thread_inv E rr view db_name" good_db_out
  for E rr view db_name
proof (unfold_locales, goal_cases)
  case (1 s e s' out)
  obtain ps cl pr where e: "e = (ps, cl, pr)" by (cases e) auto
  from 1(2)[unfolded e] show ?case
  proof (cases rule: db_thread_turnE)
    case t: (1 s1 out1 out2)
    have "db_thread_inv E rr view db_name s1"
    proof (cases cl)
      case (Some m)
      with t(1) have "db_client_op E db_name ps m s = Inr (s1, out1)" by simp
      then show ?thesis by (rule db_client_op_inv [OF 1(1)])
    qed (use t(1) 1(1) in simp)
    then show ?thesis
    proof (cases pr)
      case (Some m)
      with t(2) have "db_peer_op E db_name m s1 = Inr (s', out2)" by simp
      then show ?thesis by (rule db_peer_op_inv [OF \<open>db_thread_inv E rr view db_name s1\<close>])
    qed (use t(2) in simp)
  qed
next
  case (2 s e s' out x)
  obtain ps cl pr where e: "e = (ps, cl, pr)" by (cases e) auto
  from 2(2)[unfolded e] show ?case
  proof (cases rule: db_thread_turnE)
    case t: (1 s1 out1 out2)
    have "x \<in> set out1 \<Longrightarrow> good_db_out x"
      using t(1) db_client_op_good by (cases cl) auto
    moreover have "x \<in> set out2 \<Longrightarrow> good_db_out x"
      using t(2) db_peer_op_good by (cases pr) auto
    ultimately show ?thesis using t(3) 2(3) by auto
  qed
qed

lemma db_thread_init_inv:
  assumes "db_ok E rr view db_name db"
  shows "db_thread_inv E rr view db_name (db_thread_init E db_name db)"
  unfolding db_thread_init_def by (rule db_update_hashes_inv) (use assms in simp)

end
