(* ===== verification/P2p_Thread.thy ===== *)
theory P2p_Thread
  imports Message Xapian
begin

text \<open>
  The peer-to-peer thread of the daemon, src/daemon_p2p_thread.cpp. Its state is the peers (the keys
  of \<open>my_peers\<close>; the socket of an address is named by the address), the hashes to request from each
  peer, and three flags. A handler returns the new state and what it does to the sockets, in order.
  Hash tables are lists of distinct keys: the code iterates over them in an order it does not
  choose, and no lemma depends on the order. \<open>reach\<close> says to which addresses \<open>connect\<close> succeeds
  (ZeroMQ throws on an endpoint it cannot parse). The wait for the first digests is the subject of
  the theory \<open>Hash_Sync\<close>.
\<close>

record p2p_state =
  my_peers :: "string list"
  db_requests :: "(string \<times> string list) list"
  to_bcast_peers :: bool
  to_bcast_hashes :: bool
  to_send_db_requests :: bool

datatype p2p_out =
    Connect string
  | SendPeer string message
  | SendDb message

definition own_addr :: "int \<Rightarrow> string" where
  "own_addr p2p_port = ''localhost:'' @ int_to_string p2p_port"

section \<open>Broadcasts and requests\<close>

definition p2p_connect_peer :: "(string \<Rightarrow> bool) \<Rightarrow> string \<Rightarrow> p2p_out res" where
  "p2p_connect_peer reach addr = (if reach addr then Inr (Connect addr) else Inl ZmqError)"

definition peer_msg :: "int \<Rightarrow> string list \<Rightarrow> message" where
  "peer_msg p2p_port peers =
     ''PEER'' # nat_to_string (length peers + 1) # own_addr p2p_port # peers"

definition p2p_bcast_peers :: "int \<Rightarrow> p2p_state \<Rightarrow> p2p_state \<times> p2p_out list" where
  "p2p_bcast_peers p2p_port s =
     (if \<not> to_bcast_peers s then (s, [])
      else (s\<lparr>to_bcast_peers := False\<rparr>,
            map (\<lambda>addr. SendPeer addr (peer_msg p2p_port (my_peers s))) (my_peers s)))"

definition hash_msg :: "int \<Rightarrow> string list \<Rightarrow> message" where
  "hash_msg p2p_port hashes =
     ''HASH'' # own_addr p2p_port # nat_to_string (length hashes) # hashes"

definition p2p_bcast_hashes ::
  "int \<Rightarrow> string list \<Rightarrow> p2p_state \<Rightarrow> p2p_state \<times> p2p_out list" where
  "p2p_bcast_hashes p2p_port hashes s =
     (if \<not> to_bcast_hashes s then (s, [])
      else (s\<lparr>to_bcast_hashes := False\<rparr>,
            map (\<lambda>addr. SendPeer addr (hash_msg p2p_port hashes)) (my_peers s)))"

definition req_msg :: "int \<Rightarrow> string list \<Rightarrow> message" where
  "req_msg p2p_port hashes =
     ''REQ'' # own_addr p2p_port # nat_to_string (length hashes) # hashes"

text \<open>\<open>my_peers.at(addr)\<close> throws when the address is not a peer's.\<close>

definition peers_at :: "string \<Rightarrow> string list \<Rightarrow> unit res" where
  "peers_at addr peers = (if addr \<in> set peers then Inr () else Inl StdOutOfRange)"

fun send_requests ::
  "int \<Rightarrow> string list \<Rightarrow> (string \<times> string list) list \<Rightarrow> p2p_out list res" where
  "send_requests p2p_port peers [] = Inr []"
| "send_requests p2p_port peers ((addr, hashes) # rs) =
     bindr (peers_at addr peers) (\<lambda>_.
     bindr (send_requests p2p_port peers rs) (\<lambda>out.
       Inr (SendPeer addr (req_msg p2p_port hashes) # out)))"

definition p2p_send_db_requests :: "int \<Rightarrow> p2p_state \<Rightarrow> (p2p_state \<times> p2p_out list) res" where
  "p2p_send_db_requests p2p_port s =
     (if \<not> to_send_db_requests s then Inr (s, [])
      else bindr (send_requests p2p_port (my_peers s) (db_requests s)) (\<lambda>out.
        Inr (s\<lparr>db_requests := [], to_send_db_requests := False\<rparr>, out)))"

section \<open>Messages of peers\<close>

fun peer_loop ::
  "(string \<Rightarrow> bool) \<Rightarrow> int \<Rightarrow> nat \<Rightarrow> message \<Rightarrow> p2p_state \<Rightarrow> (p2p_state \<times> p2p_out list) res" where
  "peer_loop reach p2p_port 0 msg s = Inr (s, [])"
| "peer_loop reach p2p_port (Suc num) msg s =
     bindr (msg_get msg) (\<lambda>(addr, msg').
       if addr \<noteq> own_addr p2p_port \<and> addr \<notin> set (my_peers s) then
         bindr (p2p_connect_peer reach addr) (\<lambda>c.
         bindr (peer_loop reach p2p_port num msg'
                  (s\<lparr>my_peers := my_peers s @ [addr], to_bcast_peers := True,
                     to_bcast_hashes := True\<rparr>)) (\<lambda>(s', out).
           Inr (s', c # out)))
       else peer_loop reach p2p_port num msg' s)"

text \<open>\<open>db_requests[from].insert(hash)\<close>.\<close>

fun req_insert ::
  "string \<Rightarrow> string \<Rightarrow> (string \<times> string list) list \<Rightarrow> (string \<times> string list) list" where
  "req_insert addr h [] = [(addr, [h])]"
| "req_insert addr h ((a, hs) # rs) =
     (if a = addr then (a, uset_insert h hs) # rs else (a, hs) # req_insert addr h rs)"

definition want_hash :: "string list \<Rightarrow> string \<Rightarrow> string \<Rightarrow> p2p_state \<Rightarrow> p2p_state" where
  "want_hash hashes addr h s =
     (if h \<notin> set hashes then
        s\<lparr>db_requests := req_insert addr h (db_requests s), to_send_db_requests := True\<rparr>
      else s)"

definition keep_new_doc :: "(string \<Rightarrow> string) \<Rightarrow> string list \<Rightarrow> string \<Rightarrow> string list \<Rightarrow> string list" where
  "keep_new_doc sha hashes doc docs =
     (if sha doc \<notin> set hashes then docs @ [doc] else docs)"

definition p2p_answer_p2p ::
  "'db env \<Rightarrow> (string \<Rightarrow> bool) \<Rightarrow> int \<Rightarrow> string list \<Rightarrow> message \<Rightarrow> p2p_state
    \<Rightarrow> (p2p_state \<times> p2p_out list) res" where
  "p2p_answer_p2p E reach p2p_port hashes msg s =
     bindr (msg_get msg) (\<lambda>(ident, msg1).
     bindr (msg_get msg1) (\<lambda>(cmd, msg2).
       if cmd = ''PEER'' then
         bindr (msg_count msg2) (\<lambda>(num, msg3). peer_loop reach p2p_port num msg3 s)
       else if cmd = ''HASH'' then
         bindr (msg_get msg2) (\<lambda>(addr, msg3).
         bindr (msg_count msg3) (\<lambda>(num, msg4).
         bindr (msg_loop (want_hash hashes addr) num msg4 s) (\<lambda>s'. Inr (s', []))))
       else if cmd = ''REQ'' then
         bindr (msg_get msg2) (\<lambda>(addr, msg3).
         bindr (msg_get msg3) (\<lambda>(size, msg4).
         bindr (stoul size) (\<lambda>num.
         bindr (cassert (e_dbg E) (num > 0)) (\<lambda>_.
         bindr (msg_loop collect num msg4 [''GET'', addr, size]) (\<lambda>req.
           Inr (s, [SendDb req]))))))
       else if cmd = ''DOC'' then
         bindr (msg_count msg2) (\<lambda>(num, msg3).
         bindr (cassert (e_dbg E) (num > 0)) (\<lambda>_.
         bindr (msg_loop (keep_new_doc (sha256 E) hashes) num msg3 []) (\<lambda>docs.
           Inr (s, [SendDb (''INS'' # nat_to_string (length docs) # docs)]))))
       else Inr (s, [])))"

section \<open>Messages of the database thread\<close>

definition p2p_answer_db ::
  "bool \<Rightarrow> message \<Rightarrow> p2p_state \<Rightarrow> (p2p_state \<times> p2p_out list) res" where
  "p2p_answer_db dbg msg s =
     bindr (msg_get msg) (\<lambda>(cmd, msg1).
       if cmd = ''PUT'' then
         bindr (msg_get msg1) (\<lambda>(addr, msg2).
         bindr (msg_get msg2) (\<lambda>(size, msg3).
         bindr (stoul size) (\<lambda>num.
         bindr (cassert dbg (num > 0)) (\<lambda>_.
         bindr (msg_loop collect num msg3 [''DOC'', size]) (\<lambda>rep.
         bindr (peers_at addr (my_peers s)) (\<lambda>_.
           Inr (s, [SendPeer addr rep])))))))
       else if cmd = ''NEW'' then Inr (s\<lparr>to_bcast_hashes := True\<rparr>, [])
       else Inr (s, []))"

section \<open>The thread\<close>

fun default_peers :: "int list \<Rightarrow> string list \<Rightarrow> string list" where
  "default_peers [] peers = peers"
| "default_peers (p # ps) peers = default_peers ps (uset_insert (own_addr p) peers)"

fun connect_all :: "(string \<Rightarrow> bool) \<Rightarrow> string list \<Rightarrow> p2p_out list res" where
  "connect_all reach [] = Inr []"
| "connect_all reach (addr # peers) =
     bindr (p2p_connect_peer reach addr) (\<lambda>c.
     bindr (connect_all reach peers) (\<lambda>out. Inr (c # out)))"

definition p2p_thread_init ::
  "(string \<Rightarrow> bool) \<Rightarrow> int \<Rightarrow> int \<Rightarrow> string list \<Rightarrow> (p2p_state \<times> p2p_out list) res" where
  "p2p_thread_init reach default_p2p_port p2p_port peers0 =
     (let peers = default_peers [default_p2p_port..p2p_port - 1]
                    (filter (\<lambda>a. a \<noteq> own_addr p2p_port) peers0)
      in bindr (connect_all reach peers) (\<lambda>out.
           Inr (\<lparr>my_peers = peers, db_requests = [], to_bcast_peers = True,
                 to_bcast_hashes = True, to_send_db_requests = False\<rparr>, out)))"

text \<open>
  One turn of the loop: the pending broadcasts and requests, then a message of a peer and one of the
  database thread, if they have arrived. The event names the digests the thread reads in the turn.
\<close>

type_synonym p2p_event = "string list \<times> message option \<times> message option"

definition p2p_sends ::
  "int \<Rightarrow> string list \<Rightarrow> p2p_state \<Rightarrow> (p2p_state \<times> p2p_out list) res" where
  "p2p_sends p2p_port hashes s =
     (case p2p_bcast_peers p2p_port s of (s1, out1) \<Rightarrow>
      case p2p_bcast_hashes p2p_port hashes s1 of (s2, out2) \<Rightarrow>
      bindr (p2p_send_db_requests p2p_port s2) (\<lambda>(s3, out3). Inr (s3, out1 @ out2 @ out3)))"

definition p2p_thread_turn ::
  "'db env \<Rightarrow> (string \<Rightarrow> bool) \<Rightarrow> int \<Rightarrow> p2p_event \<Rightarrow> p2p_state
    \<Rightarrow> (p2p_state \<times> p2p_out list) res" where
  "p2p_thread_turn E reach p2p_port ev s =
     (case ev of (hashes, pm, dm) \<Rightarrow>
       bindr (p2p_sends p2p_port hashes s) (\<lambda>(s1, out1).
       bindr (case pm of None \<Rightarrow> Inr (s1, [])
              | Some m \<Rightarrow> p2p_answer_p2p E reach p2p_port hashes m s1) (\<lambda>(s2, out2).
       bindr (case dm of None \<Rightarrow> Inr (s2, [])
              | Some m \<Rightarrow> p2p_answer_db (e_dbg E) m s2) (\<lambda>(s3, out3).
         Inr (s3, out1 @ out2 @ out3)))))"

end
