(* ===== verification/P2p_Lemmas.thy ===== *)
theory P2p_Lemmas
  imports P2p_Thread
begin

text \<open>
  What the handlers of the peer-to-peer thread keep and compute: the table of requests, the list of
  peers, the well-formedness of every message sent, and the order in which a peer hears of this
  daemon (its address before its digests).
\<close>

section \<open>The table of requests\<close>

definition reqs_ok :: "(string \<times> string list) list \<Rightarrow> bool" where
  "reqs_ok rs \<longleftrightarrow> distinct (map fst rs) \<and> (\<forall>(a, hs)\<in>set rs. hs \<noteq> [] \<and> distinct hs)"

definition requested :: "(string \<times> string list) list \<Rightarrow> string \<Rightarrow> string set" where
  "requested rs a = (case map_of rs a of None \<Rightarrow> {} | Some hs \<Rightarrow> set hs)"

lemma requested_Nil [simp]: "requested [] a = {}"
  by (simp add: requested_def)

lemma fst_req_insert: "fst ` set (req_insert a h rs) = insert a (fst ` set rs)"
proof (induction rs)
  case (Cons r rs)
  then show ?case by (cases r) auto
qed simp

lemma reqs_ok_Cons:
  "reqs_ok ((a, hs) # rs) \<longleftrightarrow> a \<notin> fst ` set rs \<and> hs \<noteq> [] \<and> distinct hs \<and> reqs_ok rs"
  by (auto simp: reqs_ok_def)

lemma reqs_ok_insert: "reqs_ok rs \<Longrightarrow> reqs_ok (req_insert a h rs)"
proof (induction rs)
  case Nil
  show ?case by (simp add: reqs_ok_def)
next
  case (Cons r rs)
  obtain b hs where r: "r = (b, hs)" by fastforce
  show ?case
    using Cons by (auto simp: r reqs_ok_Cons fst_req_insert)
qed

lemma requested_insert:
  "requested (req_insert a h rs) b = (if b = a then insert h (requested rs b) else requested rs b)"
  by (induction rs) (auto simp: requested_def)

lemma req_insert_not_Nil [simp]: "req_insert a h rs \<noteq> []"
  by (cases "(a, h, rs)" rule: req_insert.cases) auto

section \<open>The invariant\<close>

definition p2p_inv :: "int \<Rightarrow> p2p_state \<Rightarrow> bool" where
  "p2p_inv p2p_port s \<longleftrightarrow>
     distinct (my_peers s) \<and> own_addr p2p_port \<notin> set (my_peers s) \<and> reqs_ok (db_requests s) \<and>
     (to_send_db_requests s \<longleftrightarrow> db_requests s \<noteq> [])"

lemma want_hash_inv: "p2p_inv p2p_port s \<Longrightarrow> p2p_inv p2p_port (want_hash hashes a h s)"
  by (auto simp: p2p_inv_def want_hash_def reqs_ok_insert)

lemma fold_want_hash_inv:
  "p2p_inv p2p_port s \<Longrightarrow> p2p_inv p2p_port (fold (want_hash hashes a) hs s)"
  by (induction hs arbitrary: s) (auto intro: want_hash_inv)

text \<open>After a HASH message exactly the unknown digests are wanted from its sender.\<close>

lemma fold_want_hash_requested:
  "requested (db_requests (fold (want_hash hashes a) hs s)) b =
     requested (db_requests s) b \<union> (if b = a then set hs - set hashes else {})"
  by (induction hs arbitrary: s) (auto simp: want_hash_def requested_insert)

lemma fold_want_hash_frame:
  "my_peers (fold (want_hash hashes a) hs s) = my_peers s"
  "to_bcast_peers (fold (want_hash hashes a) hs s) = to_bcast_peers s"
  "to_bcast_hashes (fold (want_hash hashes a) hs s) = to_bcast_hashes s"
  by (induction hs arbitrary: s) (auto simp: want_hash_def)

text \<open>The peers learnt from a PEER message, in order.\<close>

fun learn :: "int \<Rightarrow> string list \<Rightarrow> string list \<Rightarrow> string list" where
  "learn p2p_port [] peers = peers"
| "learn p2p_port (a # as) peers =
     learn p2p_port as
       (if a \<noteq> own_addr p2p_port \<and> a \<notin> set peers then peers @ [a] else peers)"

lemma set_learn: "set (learn p2p_port as peers) = set peers \<union> (set as - {own_addr p2p_port})"
  by (induction p2p_port as peers rule: learn.induct) auto

lemma distinct_learn: "distinct peers \<Longrightarrow> distinct (learn p2p_port as peers)"
  by (induction p2p_port as peers rule: learn.induct) auto

lemma learn_prefix: "\<exists>new. learn p2p_port as peers = peers @ new"
  by (induction p2p_port as peers rule: learn.induct) (auto split: if_splits)

lemma peer_loop_effect:
  assumes "peer_loop reach p2p_port num msg s = Inr (s', out)"
  shows "num \<le> length msg \<and>
    my_peers s' = learn p2p_port (take num msg) (my_peers s) \<and>
    db_requests s' = db_requests s \<and> to_send_db_requests s' = to_send_db_requests s \<and>
    my_peers s' = my_peers s @ map (\<lambda>c. case c of Connect a \<Rightarrow> a) out \<and> (\<forall>c\<in>set out. \<exists>a. c = Connect a) \<and>
    (to_bcast_peers s' \<longleftrightarrow> to_bcast_peers s \<or> out \<noteq> []) \<and>
    (to_bcast_hashes s' \<longleftrightarrow> to_bcast_hashes s \<or> out \<noteq> [])"
  using assms
proof (induction num arbitrary: msg s out)
  case (Suc num)
  then obtain addr msg' where m: "msg = addr # msg'" by (cases msg) auto
  show ?case
  proof (cases "addr \<noteq> own_addr p2p_port \<and> addr \<notin> set (my_peers s)")
    case True
    let ?s1 = "s\<lparr>my_peers := my_peers s @ [addr], to_bcast_peers := True, to_bcast_hashes := True\<rparr>"
    from Suc.prems True m obtain out1 where
      "peer_loop reach p2p_port num msg' ?s1 = Inr (s', out1)" "out = Connect addr # out1"
      by (auto simp: bindr_Inr_conv p2p_connect_peer_def split: if_splits)
    with Suc.IH [of msg' ?s1 out1] True m show ?thesis by auto
  next
    case False
    with Suc.prems m have "peer_loop reach p2p_port num msg' s = Inr (s', out)" by simp
    with Suc.IH [of msg' s out] False m show ?thesis by auto
  qed
qed simp

lemma peer_loop_total:
  "\<forall>a\<in>set msg. reach a \<Longrightarrow> num \<le> length msg \<Longrightarrow>
     \<exists>s' out. peer_loop reach p2p_port num msg s = Inr (s', out)"
proof (induction num arbitrary: msg s)
  case (Suc num)
  from Suc.prems obtain addr msg' where m: "msg = addr # msg'" by (cases msg) auto
  let ?s1 = "s\<lparr>my_peers := my_peers s @ [addr], to_bcast_peers := True, to_bcast_hashes := True\<rparr>"
  from Suc m obtain r r1 where "peer_loop reach p2p_port num msg' s = Inr r"
    "peer_loop reach p2p_port num msg' ?s1 = Inr r1"
    by (metis Suc_le_mono length_Cons list.set_intros(2))
  with Suc.prems m show ?case
    by (cases r1) (auto simp: p2p_connect_peer_def)
qed simp


lemma peer_loop_inv:
  assumes "p2p_inv p2p_port s" and "peer_loop reach p2p_port num msg s = Inr (s', out)"
  shows "p2p_inv p2p_port s'"
  using peer_loop_effect [OF assms(2)] assms(1)
  by (simp add: p2p_inv_def distinct_learn set_learn)

lemma fold_keep_new_doc:
  "fold (keep_new_doc sha hs) ds acc = acc @ filter (\<lambda>d. sha d \<notin> set hs) ds"
  by (induction ds arbitrary: acc) (auto simp: keep_new_doc_def)

section \<open>Handlers by cases\<close>

text \<open>What a peer's message does, when it is handled without an error.\<close>

lemma p2p_answer_p2p_cases:
  assumes op: "p2p_answer_p2p E reach p2p_port hashes msg s = Inr (s', out)"
  obtains (peer) ident size m num where "msg = ident # ''PEER'' # size # m" "stoul size = Inr num"
      "peer_loop reach p2p_port num m s = Inr (s', out)"
  | (hash) ident addr size m num where "msg = ident # ''HASH'' # addr # size # m"
      "stoul size = Inr num" "num \<le> length m"
      "s' = fold (want_hash hashes addr) (take num m) s" "out = []"
  | (req) ident addr size m num where "msg = ident # ''REQ'' # addr # size # m"
      "stoul size = Inr num" "num \<le> length m" "s' = s"
      "out = [SendDb (''GET'' # addr # size # take num m)]"
  | (doc) ident size m num docs where "msg = ident # ''DOC'' # size # m"
      "stoul size = Inr num" "num \<le> length m" "s' = s"
      "docs = fold (keep_new_doc (sha256 E) hashes) (take num m) []"
      "out = [SendDb (''INS'' # nat_to_string (length docs) # docs)]"
  | (unknown) "s' = s" "out = []"
proof -
  from op obtain ident msg1 where m1: "msg = ident # msg1"
    unfolding p2p_answer_p2p_def by (elim bindr_InrE) auto
  with op obtain cmd m0 where m2: "msg1 = cmd # m0"
    unfolding p2p_answer_p2p_def by (elim bindr_InrE) auto
  note m = m1 [unfolded m2]
  consider (P) "cmd = ''PEER''" | (H) "cmd = ''HASH''" | (R) "cmd = ''REQ''" | (D) "cmd = ''DOC''"
    | (U) "cmd \<notin> {''PEER'', ''HASH'', ''REQ'', ''DOC''}" by blast
  then show thesis
  proof cases
    case P
    with op m have "bindr (msg_count m0) (\<lambda>(num, m3). peer_loop reach p2p_port num m3 s) = Inr (s', out)"
      by (simp add: p2p_answer_p2p_def)
    then obtain num m3 where "msg_count m0 = Inr (num, m3)"
      "peer_loop reach p2p_port num m3 s = Inr (s', out)"
      by (auto simp: bindr_Inr_conv)
    then show ?thesis using peer P m by (auto simp: msg_count_Inr)
  next
    case H
    with op m have "bindr (msg_get m0) (\<lambda>(addr, msg3). bindr (msg_count msg3) (\<lambda>(num, msg4).
        bindr (msg_loop (want_hash hashes addr) num msg4 s) (\<lambda>s'. Inr (s', [])))) = Inr (s', out)"
      by (simp add: p2p_answer_p2p_def)
    then obtain addr m3 num m4 where "m0 = addr # m3" "msg_count m3 = Inr (num, m4)"
      "num \<le> length m4" "s' = fold (want_hash hashes addr) (take num m4) s" "out = []"
      by (auto simp: bindr_Inr_conv msg_loop_eq split: if_splits)
    then show ?thesis using hash H m by (auto simp: msg_count_Inr)
  next
    case R
    with op m have "bindr (msg_get m0) (\<lambda>(addr, msg3). bindr (msg_get msg3) (\<lambda>(size, msg4).
        bindr (stoul size) (\<lambda>num. bindr (cassert (e_dbg E) (num > 0)) (\<lambda>_.
        bindr (msg_loop collect num msg4 [''GET'', addr, size]) (\<lambda>req.
          Inr (s, [SendDb req])))))) = Inr (s', out)"
      by (simp add: p2p_answer_p2p_def)
    then obtain addr size m4 num where "m0 = addr # size # m4" "stoul size = Inr num"
      "num \<le> length m4" "s' = s" "out = [SendDb (''GET'' # addr # size # take num m4)]"
      by (auto simp: bindr_Inr_conv msg_loop_eq split: if_splits)
    then show ?thesis using req R m by simp
  next
    case D
    with op m have "bindr (msg_count m0) (\<lambda>(num, msg3). bindr (cassert (e_dbg E) (num > 0)) (\<lambda>_.
        bindr (msg_loop (keep_new_doc (sha256 E) hashes) num msg3 []) (\<lambda>docs.
          Inr (s, [SendDb (''INS'' # nat_to_string (length docs) # docs)])))) = Inr (s', out)"
      by (simp add: p2p_answer_p2p_def)
    then obtain m3 num where "msg_count m0 = Inr (num, m3)" "num \<le> length m3" "s' = s"
      "out = [SendDb (''INS'' #
         nat_to_string (length (fold (keep_new_doc (sha256 E) hashes) (take num m3) [])) #
         fold (keep_new_doc (sha256 E) hashes) (take num m3) [])]"
      by (auto simp: bindr_Inr_conv msg_loop_eq split: if_splits)
    then show ?thesis using doc D m by (auto simp: msg_count_Inr)
  next
    case U
    with op m unknown show ?thesis by (simp add: p2p_answer_p2p_def)
  qed
qed

lemma p2p_answer_db_cases:
  assumes op: "p2p_answer_db dbg msg s = Inr (s', out)"
  obtains (put) addr size m num where "msg = ''PUT'' # addr # size # m" "stoul size = Inr num"
      "num \<le> length m" "addr \<in> set (my_peers s)" "s' = s"
      "out = [SendPeer addr (''DOC'' # size # take num m)]"
  | (new) m where "msg = ''NEW'' # m" "s' = s\<lparr>to_bcast_hashes := True\<rparr>" "out = []"
  | (unknown) "s' = s" "out = []"
proof -
  have "msg \<noteq> []" using op by (cases msg) (simp_all add: p2p_answer_db_def)
  then obtain cmd m0 where m: "msg = cmd # m0" by (cases msg) simp_all
  consider (P) "cmd = ''PUT''" | (N) "cmd = ''NEW''" | (U) "cmd \<noteq> ''PUT''" "cmd \<noteq> ''NEW''" by blast
  then show thesis
  proof cases
    case P
    with op m have "bindr (msg_get m0) (\<lambda>(addr, msg2). bindr (msg_get msg2) (\<lambda>(size, msg3).
        bindr (stoul size) (\<lambda>num. bindr (cassert dbg (num > 0)) (\<lambda>_.
        bindr (msg_loop collect num msg3 [''DOC'', size]) (\<lambda>rep.
        bindr (peers_at addr (my_peers s)) (\<lambda>_. Inr (s, [SendPeer addr rep]))))))) = Inr (s', out)"
      by (simp add: p2p_answer_db_def)
    then obtain addr size m3 num where "m0 = addr # size # m3" "stoul size = Inr num"
      "num \<le> length m3" "addr \<in> set (my_peers s)" "s' = s"
      "out = [SendPeer addr (''DOC'' # size # take num m3)]"
      by (auto simp: bindr_Inr_conv msg_loop_eq peers_at_def split: if_splits)
    then show ?thesis using put P m by simp
  next
    case N
    with op m have "s' = s\<lparr>to_bcast_hashes := True\<rparr>" "out = []"
      by (auto simp: p2p_answer_db_def)
    then show ?thesis using new N m by simp
  next
    case U
    with op m unknown show ?thesis by (simp add: p2p_answer_db_def)
  qed
qed

end
