(* ===== verification/P2p_Protocol.thy ===== *)
theory P2p_Protocol
  imports P2p_Lemmas
begin

text \<open>
  The messages between daemons and between the two threads of a daemon, and the peer-to-peer thread as
  a machine over them: it keeps its invariant, sends well-formed messages only, introduces itself to a
  peer before it offers or asks for anything, and does not stop on the messages it may receive.
\<close>

section \<open>Well-formed messages\<close>

text \<open>A count part announces the parts that follow it (counts are 64-bit in the code).\<close>

definition announces :: "string \<Rightarrow> string list \<Rightarrow> bool" where
  "announces sz xs \<longleftrightarrow> (length xs < 2 ^ 64 \<longrightarrow> stoul sz = Inr (length xs))"

lemma announces_length: "announces (nat_to_string (length xs)) xs"
  by (simp add: announces_def stoul_to_string)

lemma announces_take:
  "stoul sz = Inr num \<Longrightarrow> num \<le> length m \<Longrightarrow> announces sz (take num m)"
  by (simp add: announces_def min_absorb2)

definition wf_p2p :: "message \<Rightarrow> bool" where
  "wf_p2p m \<longleftrightarrow>
     (\<exists>sz xs. m = ''PEER'' # sz # xs \<and> announces sz xs) \<or>
     (\<exists>a sz xs. m = ''HASH'' # a # sz # xs \<and> announces sz xs) \<or>
     (\<exists>a sz xs. m = ''REQ'' # a # sz # xs \<and> announces sz xs \<and> xs \<noteq> []) \<or>
     (\<exists>sz xs. m = ''DOC'' # sz # xs \<and> announces sz xs)"

text \<open>From the p2p thread to the database thread, and back.\<close>

definition wf_db :: "message \<Rightarrow> bool" where
  "wf_db m \<longleftrightarrow>
     (\<exists>a sz xs. m = ''GET'' # a # sz # xs \<and> announces sz xs) \<or>
     (\<exists>sz xs. m = ''INS'' # sz # xs \<and> announces sz xs)"

definition wf_from_db :: "message \<Rightarrow> bool" where
  "wf_from_db m \<longleftrightarrow>
     (\<exists>a sz xs. m = ''PUT'' # a # sz # xs \<and> announces sz xs) \<or> m = [''NEW'']"

fun good_p2p_out :: "p2p_out \<Rightarrow> bool" where
  "good_p2p_out (Connect a) \<longleftrightarrow> True"
| "good_p2p_out (SendPeer a m) \<longleftrightarrow> wf_p2p m"
| "good_p2p_out (SendDb m) \<longleftrightarrow> wf_db m"

lemma wf_peer_msg: "wf_p2p (peer_msg p2p_port peers)"
  using announces_length [of "own_addr p2p_port # peers"] by (simp add: wf_p2p_def peer_msg_def)

lemma wf_hash_msg: "wf_p2p (hash_msg p2p_port hs)"
  using announces_length [of hs] by (simp add: wf_p2p_def hash_msg_def)

lemma wf_req_msg: "hs \<noteq> [] \<Longrightarrow> wf_p2p (req_msg p2p_port hs)"
  using announces_length [of hs] by (simp add: wf_p2p_def req_msg_def)

section \<open>The sending phase\<close>

lemma send_requests_out:
  assumes "send_requests p2p_port peers rs = Inr out"
  shows "out = map (\<lambda>(a, hs). SendPeer a (req_msg p2p_port hs)) rs \<and> fst ` set rs \<subseteq> set peers"
  using assms
  by (induction rs arbitrary: out)
    (auto simp: bindr_Inr_conv peers_at_def image_subset_iff split: if_splits, force)

lemma send_requests_total:
  "fst ` set rs \<subseteq> set peers \<Longrightarrow> \<exists>out. send_requests p2p_port peers rs = Inr out"
  by (induction rs) (auto simp: peers_at_def)

lemma send_requests_error:
  "\<not> fst ` set rs \<subseteq> set peers \<Longrightarrow> send_requests p2p_port peers rs = Inl StdOutOfRange"
proof (induction rs)
  case (Cons r rs)
  obtain a hs where r: "r = (a, hs)" by fastforce
  show ?case
  proof (cases "a \<in> set peers")
    case True
    with Cons r have "send_requests p2p_port peers rs = Inl StdOutOfRange" by simp
    with True r show ?thesis by (simp add: peers_at_def)
  qed (simp add: r peers_at_def)
qed simp

text \<open>What the sending phase emits, in order, and the state it leaves.\<close>

definition peer_sends :: "int \<Rightarrow> p2p_state \<Rightarrow> p2p_out list" where
  "peer_sends p2p_port s =
     (if to_bcast_peers s then map (\<lambda>a. SendPeer a (peer_msg p2p_port (my_peers s))) (my_peers s) else [])"

definition hash_sends :: "int \<Rightarrow> string list \<Rightarrow> p2p_state \<Rightarrow> p2p_out list" where
  "hash_sends p2p_port hashes s =
     (if to_bcast_hashes s then map (\<lambda>a. SendPeer a (hash_msg p2p_port hashes)) (my_peers s) else [])"

definition req_sends :: "int \<Rightarrow> p2p_state \<Rightarrow> p2p_out list" where
  "req_sends p2p_port s =
     (if to_send_db_requests s
      then map (\<lambda>(a, hs). SendPeer a (req_msg p2p_port hs)) (db_requests s) else [])"

lemmas sends_defs = peer_sends_def hash_sends_def req_sends_def

lemma p2p_sends_eq:
  assumes "p2p_sends p2p_port hashes s = Inr (s', out)"
  shows "out = peer_sends p2p_port s @ hash_sends p2p_port hashes s @ req_sends p2p_port s"
    and "my_peers s' = my_peers s" and "\<not> to_bcast_peers s'" and "\<not> to_bcast_hashes s'"
    and "\<not> to_send_db_requests s'"
    and "db_requests s' = (if to_send_db_requests s then [] else db_requests s)"
    and "to_send_db_requests s \<Longrightarrow> fst ` set (db_requests s) \<subseteq> set (my_peers s)"
  using assms
  by (auto simp: p2p_sends_def p2p_bcast_peers_def p2p_bcast_hashes_def p2p_send_db_requests_def
      sends_defs bindr_Inr_conv split: if_splits dest!: send_requests_out)

lemma p2p_sends_total:
  assumes "to_send_db_requests s \<Longrightarrow> fst ` set (db_requests s) \<subseteq> set (my_peers s)"
  shows "\<exists>r. p2p_sends p2p_port hashes s = Inr r"
  using assms send_requests_total [of "db_requests s" "my_peers s" p2p_port]
  by (auto simp: p2p_sends_def p2p_bcast_peers_def p2p_bcast_hashes_def p2p_send_db_requests_def)

lemma p2p_sends_inv:
  assumes "p2p_inv p2p_port s" and "p2p_sends p2p_port hashes s = Inr (s', out)"
  shows "p2p_inv p2p_port s'"
  using assms(1) p2p_sends_eq [OF assms(2)] by (auto simp: p2p_inv_def reqs_ok_def)

lemma p2p_sends_good:
  assumes "p2p_inv p2p_port s" and "p2p_sends p2p_port hashes s = Inr (s', out)" and "x \<in> set out"
  shows "good_p2p_out x"
proof -
  have "\<And>a hs. (a, hs) \<in> set (db_requests s) \<Longrightarrow> wf_p2p (req_msg p2p_port hs)"
    using assms(1) by (auto simp: p2p_inv_def reqs_ok_def intro: wf_req_msg)
  then show ?thesis
    using assms(3) unfolding p2p_sends_eq(1) [OF assms(2)]
    by (auto simp: sends_defs wf_peer_msg wf_hash_msg split: if_splits)
qed

section \<open>The receiving phase\<close>

lemma p2p_answer_p2p_inv:
  assumes inv: "p2p_inv p2p_port s" and op: "p2p_answer_p2p E reach p2p_port hashes msg s = Inr (s', out)"
  shows "p2p_inv p2p_port s'"
  using op by (cases rule: p2p_answer_p2p_cases)
    (use inv in \<open>simp_all add: peer_loop_inv fold_want_hash_inv\<close>)

lemma p2p_answer_p2p_good:
  assumes op: "p2p_answer_p2p E reach p2p_port hashes msg s = Inr (s', out)" and x: "x \<in> set out"
  shows "good_p2p_out x"
  using op
proof (cases rule: p2p_answer_p2p_cases)
  case (peer ident sz m num)
  from peer_loop_effect [OF peer(3)] x show ?thesis by auto
next
  case (req ident addr sz m num)
  with x announces_take [OF req(2,3)] show ?thesis by (simp add: wf_db_def)
next
  case (doc ident sz m num docs)
  with x announces_length [of docs] show ?thesis by (simp add: wf_db_def)
qed (use x in simp_all)

lemma p2p_answer_db_inv:
  assumes inv: "p2p_inv p2p_port s" and op: "p2p_answer_db dbg msg s = Inr (s', out)"
  shows "p2p_inv p2p_port s'"
  using op by (cases rule: p2p_answer_db_cases) (use inv in \<open>simp_all add: p2p_inv_def\<close>)

lemma p2p_answer_db_good:
  assumes op: "p2p_answer_db dbg msg s = Inr (s', out)" and x: "x \<in> set out"
  shows "good_p2p_out x"
  using op
proof (cases rule: p2p_answer_db_cases)
  case (put addr sz m num)
  with x announces_take [OF put(2,3)] show ?thesis by (simp add: wf_p2p_def)
qed (use x in simp_all)

text \<open>A turn is the sending phase and at most two answers.\<close>

lemma p2p_thread_turnE:
  assumes "p2p_thread_turn E reach p2p_port (hashes, pm, dm) s = Inr (s', out)"
  obtains s1 out1 s2 out2 out3 where "p2p_sends p2p_port hashes s = Inr (s1, out1)"
    and "(case pm of None \<Rightarrow> Inr (s1, [])
          | Some m \<Rightarrow> p2p_answer_p2p E reach p2p_port hashes m s1) = Inr (s2, out2)"
    and "(case dm of None \<Rightarrow> Inr (s2, []) | Some m \<Rightarrow> p2p_answer_db (e_dbg E) m s2) = Inr (s', out3)"
    and "out = out1 @ out2 @ out3"
  using assms unfolding p2p_thread_turn_def prod.case
  by (elim bindr_InrE) (auto elim!: bindr_InrE)

interpretation p2p: machine "p2p_thread_turn E reach p2p_port" "p2p_inv p2p_port" good_p2p_out
  for E reach p2p_port
proof (unfold_locales, goal_cases)
  case (1 s e s' out)
  obtain hashes pm dm where e: "e = (hashes, pm, dm)" by (cases e) auto
  from 1(2)[unfolded e] show ?case
  proof (cases rule: p2p_thread_turnE)
    case (1 s1 out1 s2 out2 out3)
    have "p2p_inv p2p_port s1" using p2p_sends_inv [OF \<open>p2p_inv p2p_port s\<close> 1(1)] .
    then have "p2p_inv p2p_port s2" using 1(2) p2p_answer_p2p_inv by (cases pm) auto
    then show ?thesis using 1(3) p2p_answer_db_inv by (cases dm) auto
  qed
next
  case (2 s e s' out x)
  obtain hashes pm dm where e: "e = (hashes, pm, dm)" by (cases e) auto
  from 2(2)[unfolded e] show ?case
  proof (cases rule: p2p_thread_turnE)
    case (1 s1 out1 s2 out2 out3)
    from 1(4) 2(3) consider "x \<in> set out1" | "x \<in> set out2" | "x \<in> set out3" by auto
    then show ?thesis
    proof cases
      case 1
      then show ?thesis using p2p_sends_good [OF 2(1)] \<open>p2p_sends _ _ _ = _\<close> by blast
    next
      case 2
      then show ?thesis using 1(2) p2p_answer_p2p_good by (cases pm) auto
    next
      case 3
      then show ?thesis using 1(3) p2p_answer_db_good by (cases dm) auto
    qed
  qed
qed

section \<open>Introduction before exchange\<close>

text \<open>
  \<open>introduces p m\<close>: m is a list of peers with the address of the daemon at port p among the addresses;
  \<open>told p T os\<close>: the addresses that have been sent such a message, before (\<open>T\<close>) or in \<open>os\<close>;
  \<open>introduced p T os\<close>: nobody in \<open>os\<close> is sent a HASH or REQ message before such a message.
\<close>

definition introduces :: "int \<Rightarrow> message \<Rightarrow> bool" where
  "introduces p2p_port m \<longleftrightarrow> hd m = ''PEER'' \<and> own_addr p2p_port \<in> set (drop 2 m)"

lemma introduces_peer_msg [simp]: "introduces p2p_port (peer_msg p2p_port peers)"
  by (simp add: introduces_def peer_msg_def)

fun told :: "int \<Rightarrow> string set \<Rightarrow> p2p_out list \<Rightarrow> string set" where
  "told p2p_port T [] = T"
| "told p2p_port T (SendPeer a m # os) = told p2p_port (if introduces p2p_port m then insert a T else T) os"
| "told p2p_port T (_ # os) = told p2p_port T os"

fun introduced :: "int \<Rightarrow> string set \<Rightarrow> p2p_out list \<Rightarrow> bool" where
  "introduced p2p_port T [] \<longleftrightarrow> True"
| "introduced p2p_port T (SendPeer a m # os) \<longleftrightarrow>
     (hd m \<in> {''HASH'', ''REQ''} \<longrightarrow> a \<in> T) \<and>
     introduced p2p_port (if introduces p2p_port m then insert a T else T) os"
| "introduced p2p_port T (_ # os) \<longleftrightarrow> introduced p2p_port T os"

lemma told_append: "told p2p_port T (xs @ ys) = told p2p_port (told p2p_port T xs) ys"
  by (induction p2p_port T xs rule: told.induct) auto

lemma introduced_append:
  "introduced p2p_port T (xs @ ys) \<longleftrightarrow> introduced p2p_port T xs \<and> introduced p2p_port (told p2p_port T xs) ys"
  by (induction p2p_port T xs rule: introduced.induct) auto

lemma told_mono: "T \<subseteq> told p2p_port T os"
  by (induction p2p_port T os rule: told.induct) (auto split: if_splits)

lemma told_map:
  "told p2p_port T (map (\<lambda>x. SendPeer (f x) (g x)) xs) = T \<union> f ` {x \<in> set xs. introduces p2p_port (g x)}"
  by (induction xs arbitrary: T) auto

lemma introduced_peers: "introduced p2p_port T (map (\<lambda>a. SendPeer a (peer_msg p2p_port peers)) as)"
  by (induction as arbitrary: T) (auto simp: peer_msg_def)

lemma introduced_known:
  "f ` set xs \<subseteq> T \<Longrightarrow> introduced p2p_port T (map (\<lambda>x. SendPeer (f x) (g x)) xs)"
proof (induction xs arbitrary: T)
  case (Cons x xs)
  have "f ` set xs \<subseteq> (if introduces p2p_port (g x) then insert (f x) T else T)" using Cons.prems by auto
  from Cons.IH [OF this] Cons.prems show ?case by simp
qed simp

definition p2p_told_inv :: "int \<Rightarrow> p2p_out list \<times> p2p_state \<Rightarrow> bool" where
  "p2p_told_inv p2p_port h =
     (case h of (tr, s) \<Rightarrow> p2p_inv p2p_port s \<and> introduced p2p_port {} tr \<and>
        (to_bcast_peers s \<or> set (my_peers s) \<subseteq> told p2p_port {} tr))"

lemma told_peer_sends:
  "to_bcast_peers s \<or> set (my_peers s) \<subseteq> T \<Longrightarrow> set (my_peers s) \<subseteq> told p2p_port T (peer_sends p2p_port s)"
  by (auto simp: peer_sends_def told_map introduces_peer_msg)

lemma p2p_sends_told:
  assumes "p2p_told_inv p2p_port (tr, s)" and "p2p_sends p2p_port hashes s = Inr (s', out)"
  shows "introduced p2p_port {} (tr @ out) \<and> set (my_peers s') \<subseteq> told p2p_port {} (tr @ out)"
proof -
  let ?ps = "peer_sends p2p_port s" and ?hs = "hash_sends p2p_port hashes s"
  let ?rs = "req_sends p2p_port s"
  note eq = p2p_sends_eq [OF assms(2)]
  have k: "set (my_peers s) \<subseteq> told p2p_port {} (tr @ ?ps)"
    using assms(1) told_peer_sends by (simp add: p2p_told_inv_def told_append)
  have 1: "introduced p2p_port {} (tr @ ?ps)"
    using assms(1) by (simp add: p2p_told_inv_def introduced_append peer_sends_def introduced_peers)
  have 2: "introduced p2p_port (told p2p_port {} (tr @ ?ps)) ?hs"
    using k by (auto simp: hash_sends_def intro!: introduced_known [where f = "\<lambda>a. a"])
  have "set (my_peers s) \<subseteq> told p2p_port {} (tr @ ?ps @ ?hs)"
    using k told_mono [of "told p2p_port {} (tr @ ?ps)" _ ?hs] by (auto simp: told_append)
  then have "to_send_db_requests s \<Longrightarrow> fst ` set (db_requests s) \<subseteq> told p2p_port {} (tr @ ?ps @ ?hs)"
    using eq(7) by (rule subset_trans [rotated])
  then have "introduced p2p_port (told p2p_port {} (tr @ ?ps @ ?hs)) ?rs"
    using introduced_known [of fst "db_requests s" "told p2p_port {} (tr @ ?ps @ ?hs)"
        p2p_port "\<lambda>x. req_msg p2p_port (snd x)"]
    by (simp add: req_sends_def case_prod_unfold)
  with 1 2 have "introduced p2p_port {} (tr @ out)" by (simp add: eq(1) introduced_append told_append)
  moreover have "set (my_peers s') \<subseteq> told p2p_port {} (tr @ out)"
    using k told_mono [of "told p2p_port {} (tr @ ?ps)" _ "?hs @ ?rs"] by (auto simp: eq(1,2) told_append)
  ultimately show ?thesis ..
qed

lemma introduced_quiet:
  "\<forall>x\<in>set os. (case x of SendPeer a m \<Rightarrow> hd m \<notin> {''HASH'', ''REQ''} | _ \<Rightarrow> True) \<Longrightarrow> introduced p2p_port T os"
  by (induction p2p_port T os rule: introduced.induct) auto

lemma p2p_answer_p2p_told:
  assumes "p2p_answer_p2p E reach p2p_port hashes msg s = Inr (s', out)"
  shows "introduced p2p_port T out" and "to_bcast_peers s' \<or> to_bcast_peers s' = to_bcast_peers s \<and> my_peers s' = my_peers s"
proof -
  from assms have "introduced p2p_port T out \<and> (to_bcast_peers s' \<or> to_bcast_peers s' = to_bcast_peers s \<and> my_peers s' = my_peers s)"
  proof (cases rule: p2p_answer_p2p_cases)
    case (peer ident sz m num)
    note eff = peer_loop_effect [OF peer(3)]
    have "introduced p2p_port T out" using eff by (intro introduced_quiet) auto
    moreover have "my_peers s' = my_peers s @ map (\<lambda>c. case c of Connect a \<Rightarrow> a) out"
      and "to_bcast_peers s' \<longleftrightarrow> to_bcast_peers s \<or> out \<noteq> []" using eff by blast+
    ultimately show ?thesis by (cases out) simp_all
  qed (auto simp: fold_want_hash_frame)
  then show "introduced p2p_port T out"
    and "to_bcast_peers s' \<or> to_bcast_peers s' = to_bcast_peers s \<and> my_peers s' = my_peers s" by auto
qed

lemma p2p_answer_db_told:
  assumes "p2p_answer_db dbg msg s = Inr (s', out)"
  shows "introduced p2p_port T out \<and> to_bcast_peers s' = to_bcast_peers s \<and> my_peers s' = my_peers s"
  using assms by (cases rule: p2p_answer_db_cases) auto

interpretation p2p_hist: machine "traced (p2p_thread_turn E reach p2p_port)"
    "p2p_told_inv p2p_port" good_p2p_out
  for E reach p2p_port
proof (unfold_locales, goal_cases)
  case (1 h e h' out)
  obtain hashes pm dm where e: "e = (hashes, pm, dm)" by (cases e) auto
  obtain tr s s' where h: "h = (tr, s)" "h' = (tr @ out, s')"
    and turn: "p2p_thread_turn E reach p2p_port e s = Inr (s', out)"
    using 1(2) by (cases h) (auto simp: bindr_Inr_conv)
  have inv: "p2p_inv p2p_port s'"
    using p2p.step_inv [OF _ turn] 1(1) h by (simp add: p2p_told_inv_def)
  from turn[unfolded e] show ?case
  proof (cases rule: p2p_thread_turnE)
    case t: (1 s1 out1 s2 out2 out3)
    have s1: "introduced p2p_port {} (tr @ out1)" "set (my_peers s1) \<subseteq> told p2p_port {} (tr @ out1)"
      using p2p_sends_told [OF _ t(1)] 1(1) h by auto
    have s2: "introduced p2p_port T out2 \<and> (to_bcast_peers s2 \<or> my_peers s2 = my_peers s1)" for T
    proof (cases pm)
      case (Some m)
      with t(2) have a: "p2p_answer_p2p E reach p2p_port hashes m s1 = Inr (s2, out2)" by simp
      show ?thesis using p2p_answer_p2p_told [OF a] by blast
    qed (use t(2) in simp)
    have s3: "introduced p2p_port T out3 \<and> to_bcast_peers s' = to_bcast_peers s2 \<and> my_peers s' = my_peers s2" for T
    proof (cases dm)
      case (Some m)
      with t(3) have a: "p2p_answer_db (e_dbg E) m s2 = Inr (s', out3)" by simp
      show ?thesis using p2p_answer_db_told [OF a] by blast
    qed (use t(3) in simp)
    have "told p2p_port {} (tr @ out1) \<subseteq> told p2p_port {} (tr @ out)"
      using told_mono [of "told p2p_port {} (tr @ out1)" _ "out2 @ out3"] by (simp add: t(4) told_append)
    moreover have "introduced p2p_port {} (tr @ out)"
      using s1(1) s2 s3 by (simp add: t(4) introduced_append told_append)
    moreover have "to_bcast_peers s' \<or> my_peers s' = my_peers s1" using s2 s3 by metis
    ultimately show ?thesis using s1(2) inv by (auto simp: p2p_told_inv_def h)
  qed
next
  case (2 h e h' out x)
  obtain tr s s' where h: "h = (tr, s)" "p2p_inv p2p_port s"
    and turn: "p2p_thread_turn E reach p2p_port e s = Inr (s', out)"
    using 2(1,2) by (cases h) (auto simp: bindr_Inr_conv p2p_told_inv_def)
  show ?case by (rule p2p.step_out [OF h(2) turn 2(3)])
qed

section \<open>The thread does not stop\<close>

text \<open>
  Which messages the thread survives: well formed, with fewer than 2^64 parts, from a sender it knows
  when the message makes it answer that address, and (when assertions are compiled in) not empty.
\<close>

definition accepts_p2p :: "bool \<Rightarrow> (string \<Rightarrow> bool) \<Rightarrow> string list \<Rightarrow> message \<Rightarrow> bool" where
  "accepts_p2p dbg reach peers c \<longleftrightarrow>
     wf_p2p c \<and> length c < 2 ^ 64 \<and>
     (hd c = ''PEER'' \<longrightarrow> (\<forall>a\<in>set (drop 2 c). reach a)) \<and>
     (hd c = ''HASH'' \<longrightarrow> c ! 1 \<in> set peers) \<and>
     (hd c = ''DOC'' \<longrightarrow> dbg \<longrightarrow> 2 < length c)"

definition accepts_db :: "bool \<Rightarrow> string list \<Rightarrow> message \<Rightarrow> bool" where
  "accepts_db dbg peers m \<longleftrightarrow>
     wf_from_db m \<and> length m < 2 ^ 64 \<and>
     (hd m = ''PUT'' \<longrightarrow> m ! 1 \<in> set peers \<and> (dbg \<longrightarrow> 3 < length m))"

definition p2p_accepts ::
  "'db env \<Rightarrow> (string \<Rightarrow> bool) \<Rightarrow> p2p_event \<Rightarrow> p2p_state \<Rightarrow> bool" where
  "p2p_accepts E reach ev s =
     (case ev of (hashes, pm, dm) \<Rightarrow>
        (case pm of None \<Rightarrow> True
         | Some m \<Rightarrow> m \<noteq> [] \<and> accepts_p2p (e_dbg E) reach (my_peers s) (tl m)) \<and>
        (case dm of None \<Rightarrow> True | Some m \<Rightarrow> accepts_db (e_dbg E) (my_peers s) m))"

definition reqs_known :: "p2p_state \<Rightarrow> bool" where
  "reqs_known s \<longleftrightarrow> fst ` set (db_requests s) \<subseteq> set (my_peers s)"

lemma cassert_pos: "(dbg \<longrightarrow> c) \<Longrightarrow> cassert dbg c = Inr ()"
  by (simp add: cassert_def)

lemma p2p_answer_p2p_total:
  assumes "accepts_p2p (e_dbg E) reach peers c"
  shows "\<exists>r. p2p_answer_p2p E reach p2p_port hashes (ident # c) s = Inr r"
proof -
  from assms have wf: "wf_p2p c" and len: "length c < 2 ^ 64" by (auto simp: accepts_p2p_def)
  from wf consider (P) sz xs where "c = ''PEER'' # sz # xs" "announces sz xs"
    | (H) a sz xs where "c = ''HASH'' # a # sz # xs" "announces sz xs"
    | (R) a sz xs where "c = ''REQ'' # a # sz # xs" "announces sz xs" "xs \<noteq> []"
    | (D) sz xs where "c = ''DOC'' # sz # xs" "announces sz xs"
    unfolding wf_p2p_def by blast
  then show ?thesis
  proof cases
    case P
    then have "stoul sz = Inr (length xs)" using len by (simp add: announces_def)
    moreover have "\<forall>a\<in>set xs. reach a" using assms P by (simp add: accepts_p2p_def)
    ultimately show ?thesis
      using peer_loop_total [of xs reach "length xs" p2p_port s] P
      by (auto simp: p2p_answer_p2p_def msg_count_def)
  next
    case H
    then have "stoul sz = Inr (length xs)" using len by (simp add: announces_def)
    with H show ?thesis by (simp add: p2p_answer_p2p_def msg_count_def msg_loop_eq)
  next
    case R
    then have "stoul sz = Inr (length xs)" using len by (simp add: announces_def)
    with R show ?thesis by (simp add: p2p_answer_p2p_def msg_loop_eq)
  next
    case D
    then have "stoul sz = Inr (length xs)" using len by (simp add: announces_def)
    moreover have "e_dbg E \<longrightarrow> 0 < length xs" using assms D by (simp add: accepts_p2p_def)
    ultimately show ?thesis using D
      by (simp add: p2p_answer_p2p_def msg_count_def msg_loop_eq cassert_pos)
  qed
qed

lemma p2p_answer_db_total:
  assumes "accepts_db dbg (my_peers s) m"
  shows "\<exists>r. p2p_answer_db dbg m s = Inr r"
proof -
  from assms have wf: "wf_from_db m" and len: "length m < 2 ^ 64" by (auto simp: accepts_db_def)
  from wf consider (P) a sz xs where "m = ''PUT'' # a # sz # xs" "announces sz xs" | (N) "m = [''NEW'']"
    unfolding wf_from_db_def by blast
  then show ?thesis
  proof cases
    case P
    then have "stoul sz = Inr (length xs)" using len by (simp add: announces_def)
    moreover have "dbg \<longrightarrow> 0 < length xs" "a \<in> set (my_peers s)"
      using assms P by (simp_all add: accepts_db_def)
    ultimately show ?thesis using P
      by (simp add: p2p_answer_db_def msg_loop_eq cassert_pos peers_at_def)
  qed (simp add: p2p_answer_db_def)
qed

lemma fold_want_hash_keys:
  "fst ` set (db_requests (fold (want_hash hashes a) hs s)) \<subseteq> insert a (fst ` set (db_requests s))"
proof (induction hs arbitrary: s)
  case (Cons h hs)
  have "fst ` set (db_requests (want_hash hashes a h s)) \<subseteq> insert a (fst ` set (db_requests s))"
    by (auto simp: want_hash_def fst_req_insert)
  then show ?case using Cons [of "want_hash hashes a h s"] by (simp only: fold_simps) blast
qed auto

text \<open>An accepted message keeps the requests addressed to peers, and loses no peer.\<close>

lemma p2p_answer_p2p_known:
  assumes acc: "accepts_p2p dbg reach (my_peers s) c" and rk: "reqs_known s"
    and op: "p2p_answer_p2p E reach p2p_port hashes (ident # c) s = Inr (s', out)"
  shows "reqs_known s' \<and> set (my_peers s) \<subseteq> set (my_peers s')"
  using op
proof (cases rule: p2p_answer_p2p_cases)
  case (peer ident sz m num)
  from peer_loop_effect [OF peer(3)] rk show ?thesis
    by (auto simp: reqs_known_def set_learn)
next
  case (hash ident addr sz m num)
  then have "addr \<in> set (my_peers s)" using acc by (simp add: accepts_p2p_def)
  then have "fst ` set (db_requests s') \<subseteq> set (my_peers s)"
    using rk fold_want_hash_keys [of hashes addr "take num m" s] unfolding reqs_known_def hash(4)
    by blast
  then show ?thesis using hash(4) by (simp add: reqs_known_def fold_want_hash_frame)
qed (use rk in simp_all)

lemma accepts_db_mono: "accepts_db dbg ps m \<Longrightarrow> set ps \<subseteq> set qs \<Longrightarrow> accepts_db dbg qs m"
  by (auto simp: accepts_db_def)

interpretation p2p_live: live_machine "p2p_thread_turn E reach p2p_port" "p2p_inv p2p_port"
    good_p2p_out reqs_known "p2p_accepts E reach"
  for E reach p2p_port
proof (unfold_locales, goal_cases)
  case (1 s e)
  obtain hashes pm dm where e: "e = (hashes, pm, dm)" by (cases e) auto
  obtain s1 out1 where 1: "p2p_sends p2p_port hashes s = Inr (s1, out1)"
    using p2p_sends_total [of s] \<open>reqs_known s\<close> unfolding reqs_known_def by fastforce
  have s1: "reqs_known s1" "my_peers s1 = my_peers s"
    using p2p_sends_eq [OF 1] \<open>reqs_known s\<close> by (auto simp: reqs_known_def)
  obtain s2 out2 where 2: "(case pm of None \<Rightarrow> Inr (s1, [])
          | Some m \<Rightarrow> p2p_answer_p2p E reach p2p_port hashes m s1) = Inr (s2, out2)"
    and s2: "reqs_known s2" "set (my_peers s) \<subseteq> set (my_peers s2)"
  proof (cases pm)
    case None
    then show thesis using that s1 by simp
  next
    case (Some m)
    with \<open>p2p_accepts E reach e s\<close> obtain ident c where m: "m = ident # c"
      and c: "accepts_p2p (e_dbg E) reach (my_peers s1) c"
      by (cases m) (auto simp: e p2p_accepts_def s1)
    obtain s2 out2 where a: "p2p_answer_p2p E reach p2p_port hashes m s1 = Inr (s2, out2)"
      using p2p_answer_p2p_total [OF c] by (fastforce simp: m)
    then show thesis using that Some p2p_answer_p2p_known [OF c s1(1) a [unfolded m]] s1 by simp
  qed
  obtain s3 out3 where 3: "(case dm of None \<Rightarrow> Inr (s2, []) | Some m \<Rightarrow> p2p_answer_db (e_dbg E) m s2)
      = Inr (s3, out3)" and s3: "reqs_known s3"
  proof (cases dm)
    case None
    then show thesis using that s2 by simp
  next
    case (Some m)
    with \<open>p2p_accepts E reach e s\<close> have "accepts_db (e_dbg E) (my_peers s2) m"
      using accepts_db_mono [OF _ s2(2)] by (simp add: e p2p_accepts_def)
    then obtain s3 out3 where a: "p2p_answer_db (e_dbg E) m s2 = Inr (s3, out3)"
      using p2p_answer_db_total by fastforce
    moreover have "reqs_known s3"
      using a s2 by (cases rule: p2p_answer_db_cases) (simp_all add: reqs_known_def)
    ultimately show thesis using that Some by simp
  qed
  from 1 2 3 s3 show ?case by (simp add: e p2p_thread_turn_def)
qed

section \<open>The start\<close>

lemma set_default_peers: "set (default_peers ps peers) = own_addr ` set ps \<union> set peers"
  by (induction ps peers rule: default_peers.induct) auto

lemma distinct_default_peers: "distinct peers \<Longrightarrow> distinct (default_peers ps peers)"
  by (induction ps peers rule: default_peers.induct) auto

lemma connect_all_out: "connect_all reach peers = Inr out \<Longrightarrow> out = map Connect peers"
  by (induction peers arbitrary: out) (auto simp: bindr_Inr_conv p2p_connect_peer_def split: if_splits)

lemma connect_all_total: "\<forall>a\<in>set peers. reach a \<Longrightarrow> \<exists>out. connect_all reach peers = Inr out"
  by (induction peers) (auto simp: p2p_connect_peer_def)

lemma p2p_thread_init_total:
  assumes "\<forall>a\<in>set peers0 \<union> own_addr ` {p0..<port}. reach a"
  obtains s out where "p2p_thread_init reach p0 port peers0 = Inr (s, out)"
proof -
  let ?ps = "default_peers [p0..port - 1] (filter (\<lambda>a. a \<noteq> own_addr port) peers0)"
  have "set ?ps \<subseteq> set peers0 \<union> own_addr ` {p0..<port}" by (auto simp: set_default_peers)
  then have "\<forall>a\<in>set ?ps. reach a" using assms by blast
  then obtain out where "connect_all reach ?ps = Inr out"
    using connect_all_total by blast
  then show ?thesis by (intro that) (simp add: p2p_thread_init_def)
qed

lemma inj_own_addr: "own_addr p = own_addr q \<Longrightarrow> p = q"
  by (metis own_addr_def same_append_eq int_to_string_inj)

lemma p2p_thread_init_told:
  assumes "distinct peers0" and "p2p_thread_init reach p0 p2p_port peers0 = Inr (s, out)"
  shows "p2p_told_inv p2p_port (out, s)" and "reqs_known s"
    and "set (my_peers s) = (set peers0 - {own_addr p2p_port}) \<union> own_addr ` {p0..<p2p_port}"
proof -
  let ?peers = "default_peers [p0..p2p_port - 1] (filter (\<lambda>a. a \<noteq> own_addr p2p_port) peers0)"
  from assms(2) have s: "my_peers s = ?peers" "db_requests s = []" "to_bcast_peers s"
    "\<not> to_send_db_requests s" "out = map Connect ?peers"
    by (auto simp: p2p_thread_init_def Let_def bindr_Inr_conv dest: connect_all_out)
  have ps: "set ?peers = (set peers0 - {own_addr p2p_port}) \<union> own_addr ` {p0..<p2p_port}"
    by (auto simp: set_default_peers)
  then have "own_addr p2p_port \<notin> set ?peers" by (auto dest: inj_own_addr)
  moreover have "introduced p2p_port {} (map Connect ?peers)" by (intro introduced_quiet) auto
  ultimately show "p2p_told_inv p2p_port (out, s)"
    using s assms(1) by (simp add: p2p_told_inv_def p2p_inv_def reqs_ok_def distinct_default_peers)
  show "reqs_known s" using s by (simp add: reqs_known_def)
  show "set (my_peers s) = (set peers0 - {own_addr p2p_port}) \<union> own_addr ` {p0..<p2p_port}"
    using ps s by simp
qed

end
