(* ===== verification/Ad_Text.thy ===== *)
theory Ad_Text
  imports Db_Protocol P2p_Protocol
begin

text \<open>
  What the ads in a database look like, and why the database thread does not stop: every stored ad is
  a text that \<open>Document::serialize\<close> wrote, so it can be read again, whichever operations of
  src/db.cpp filled the database. With that, the requests of clients and of the p2p thread that keep
  to their form are handled without an error in a release build.
\<close>

section \<open>Written texts\<close>

definition ad_text :: "'db env \<Rightarrow> string \<Rightarrow> bool" where
  "ad_text E e \<longleftrightarrow> (\<exists>d. dbl_finite (m_price d) \<and> e = Document_serialize (e_json E) d)"

definition ads_written :: "'db env \<Rightarrow> ('db \<Rightarrow> xview) \<Rightarrow> 'db \<Rightarrow> bool" where
  "ads_written E view db \<longleftrightarrow> (\<forall>e\<in>entries (view db). ad_text E e)"

lemma ad_text_read:
  assumes "json_laws (e_json E) rr" and "ad_text E e"
  obtains d where "JSONBase_deserialize (e_json E) e Document_new = Inr (True, d)"
    "dbl_finite (m_price d)" "doc_norm d = d"
proof -
  obtain d0 where "dbl_finite (m_price d0)" "e = Document_serialize (e_json E) d0"
    using assms(2) by (auto simp: ad_text_def)
  then obtain d where d: "JSONBase_deserialize (e_json E) e Document_new = Inr (True, d)"
    using serialize_deserialize [OF assms(1), of d0 Document_new] by blast
  from that [OF d JSONBase_deserialize_form [OF assms(1) d]] show thesis .
qed

lemma ad_text_readable: "json_laws (e_json E) rr \<Longrightarrow> ad_text E e \<Longrightarrow> readable E e"
  unfolding readable_def by (erule (1) ad_text_read) blast

lemma ad_text_author: "json_laws (e_json E) rr \<Longrightarrow> ad_text E e \<Longrightarrow> author_of E e \<noteq> None"
  by (erule (1) ad_text_read) (simp add: author_of_def)

lemma ads_written_sub:
  "ads_written E view db \<Longrightarrow> entries (view db') \<subseteq> entries (view db) \<Longrightarrow> ads_written E view db'"
  by (auto simp: ads_written_def)

lemma ads_written_view: "view db' = view db \<Longrightarrow> ads_written E view db' \<longleftrightarrow> ads_written E view db"
  by (simp add: ads_written_def)

lemma add_document_written:
  assumes "xapian_laws (e_xap E) view" and "keyed (e_sha E) (view db)" and "ads_written E view db"
    and "dbl_finite (m_price d)" and "add_document E author d db = Inr (Inr (sha, d', db'))"
  shows "keyed (e_sha E) (view db')" and "ads_written E view db'"
proof -
  note v = add_document_view [OF assms(1,2,5)]
  show "keyed (e_sha E) (view db')" by (rule v(1))
  have "ad_text E (Document_serialize (e_json E) (d\<lparr>m_author := author\<rparr>))"
    using assms(4) unfolding ad_text_def by (intro exI [of _ "d\<lparr>m_author := author\<rparr>"]) simp
  then show "ads_written E view db'" using assms(3) v(2) by (auto simp: ads_written_def)
qed

lemma put_loop_written:
  assumes "xapian_laws (e_xap E) view" and "json_laws (e_json E) rr"
    and "keyed (e_sha E) (view db)" and "ads_written E view db"
    and "put_loop E ds db = Inr (err, db')"
  shows "ads_written E view db'"
  using assms(3-)
proof (induction ds arbitrary: db)
  case (Cons t ts)
  from Cons.prems(3) obtain ok d where d: "JSONBase_deserialize (e_json E) t Document_new = Inr (ok, d)"
    by (auto simp: bindr_Inr_conv)
  show ?case
  proof (cases "m_author d = []")
    case True
    with Cons d show ?thesis by auto
  next
    case False
    then have "ok" using d by (cases ok) (auto simp: JSONBase_deserialize_def Document_new_def bindr_Inr_conv split: option.splits)
    with d have fin: "dbl_finite (m_price d)" using JSONBase_deserialize_form(1) [OF assms(2)] by metis
    from Cons.prems(3) d False obtain r where r: "add_document E (m_author d) d db = Inr r"
      by (auto simp: bindr_Inr_conv Let_def)
    show ?thesis
    proof (cases r)
      case (Inl x)
      with Cons.prems d False r show ?thesis by auto
    next
      case (Inr q)
      then obtain sha d' db1 where q: "r = Inr (sha, d', db1)" by (cases q) auto
      then have "put_loop E ts db1 = Inr (err, db')" using Cons.prems(3) d False r by (simp add: Let_def)
      then show ?thesis
        using Cons.IH add_document_written [OF assms(1) Cons.prems(1,2) fin r [unfolded q]] by blast
    qed
  qed
qed simp

lemma commit_written:
  assumes "xapian_laws (e_xap E) view" and "ads_written E view db0" and "ads_written E view db"
    and "x_commit (e_xap E) db0 db = (err, db')"
  shows "ads_written E view db'"
  using laws_commit [OF assms(1,4)] assms(2,3) by (auto simp: ads_written_def)

lemma db_put_docs_written:
  assumes "xapian_laws (e_xap E) view" and "json_laws (e_json E) rr"
    and "keyed (e_sha E) (view db)" and "ads_written E view db"
    and "db_put_docs E db_name ds db = Inr (n, db')"
  shows "ads_written E view db'"
proof (cases "x_open_rw (e_xap E) db db_name")
  case (Inl x)
  with assms show ?thesis by (simp add: db_put_docs_def)
next
  case (Inr db1)
  from assms(5) Inr obtain err db2 where p: "put_loop E ds db1 = Inr (err, db2)"
    by (auto simp: db_put_docs_def bindr_Inr_conv)
  obtain cerr where c: "x_commit (e_xap E) db1 db2 = (cerr, db')"
    using assms(5) Inr p by (cases "x_commit (e_xap E) db1 db2") (auto simp: db_put_docs_def split: if_splits)
  have v1: "view db1 = view db" by (rule laws_open_rw [OF assms(1) Inr])
  then have 1: "keyed (e_sha E) (view db1)" "ads_written E view db1"
    using assms(3,4) by (simp_all add: ads_written_def)
  show ?thesis by (rule commit_written [OF assms(1) 1(2) put_loop_written [OF assms(1,2) 1 p] c])
qed

lemma index_loop_written:
  assumes "xapian_laws (e_xap E) view" and "keyed (e_sha E) (view db)" and "ads_written E view db"
    and "\<forall>d\<in>set ds. dbl_finite (m_price d)"
    and "index_loop E author hs ds db n0 = Inr (err, n, db')"
  shows "ads_written E view db'"
  using assms(2-)
proof (induction ds arbitrary: db n0)
  case (Cons d ds)
  show ?case
  proof (cases "sha256 E (Document_serialize (e_json E) (d\<lparr>m_author := author\<rparr>)) \<in> set hs")
    case True
    with Cons show ?thesis by (simp add: Let_def)
  next
    case False
    with Cons.prems(4) obtain r where r: "add_document E author (d\<lparr>m_author := author\<rparr>) db = Inr r"
      by (auto simp: Let_def bindr_Inr_conv)
    show ?thesis
    proof (cases r)
      case (Inl x)
      with Cons.prems False r show ?thesis by (simp add: Let_def)
    next
      case (Inr q)
      then obtain sha d' db1 where q: "r = Inr (sha, d', db1)" by (cases q) auto
      have "dbl_finite (m_price (d\<lparr>m_author := author\<rparr>))" using Cons.prems(3) by simp
      note 1 = add_document_written [OF assms(1) Cons.prems(1,2) this r [unfolded q]]
      have "index_loop E author hs ds db1 (n0 + 1) = Inr (err, n, db')"
        using Cons.prems(4) False r q by (simp add: Let_def)
      then show ?thesis using Cons.IH [OF 1] Cons.prems(3) by simp
    qed
  qed
qed simp

section \<open>Files of clients\<close>

lemma Documents_from_finite:
  assumes "json_laws J rr" and "\<forall>j\<in>set js. json_finite j"
    and "\<forall>d\<in>set acc. dbl_finite (m_price d)" and "Documents_from J js acc = Inr ds"
  shows "\<forall>d\<in>set ds. dbl_finite (m_price d)"
  using assms(2-)
proof (induction js arbitrary: acc)
  case (Cons j js)
  from Cons.prems(3) obtain p where p: "Document_deserialize J j Document_new = Inr p"
    "Documents_from J js (acc @ [p]) = Inr ds" by (auto simp: bindr_Inr_conv)
  have "dbl_finite (m_price p)" using Document_deserialize_form [OF assms(1) _ p(1)] Cons.prems(1) by simp
  with Cons.IH [OF _ _ p(2)] Cons.prems show ?case by simp
qed simp

lemma deserializeFromFile_finite:
  assumes "json_laws J rr" and "deserializeFromFile J fs f [] = Inr (ok, ds)"
  shows "\<forall>d\<in>set ds. dbl_finite (m_price d)"
proof -
  obtain s where s: "Documents_deserialize J s [] = Inr (ok, ds)"
    using assms(2) by (auto simp: deserializeFromFile_def)
  show ?thesis
  proof (cases "initDocument J s")
    case None
    with s show ?thesis by (simp add: Documents_deserialize_def)
  next
    case (Some j)
    then have fin: "json_finite j" by (rule json_laws_finite [OF assms(1)])
    define js where "js = (case j of JArray js \<Rightarrow> js | _ \<Rightarrow> [j])"
    have "Documents_from J js [] = Inr ds"
      using s Some by (cases j) (auto simp: Documents_deserialize_def js_def bindr_Inr_conv)
    moreover have "\<forall>j\<in>set js. json_finite j" using fin by (cases j) (simp_all add: js_def)
    ultimately show ?thesis using Documents_from_finite [OF assms(1), of js "[]" ds] by simp
  qed
qed

section \<open>The operations keep written texts\<close>

lemma index_db_written:
  assumes "xapian_laws (e_xap E) view" and "json_laws (e_json E) rr"
    and "keyed (e_sha E) (view db)" and "ads_written E view db"
    and "index_db E author db_name f hs db = Inr (info, db')"
  shows "ads_written E view db'"
proof (cases "e_files E f")
  case None
  with assms show ?thesis by (auto simp: index_db_def bindr_Inr_conv)
next
  case (Some body)
  from assms(5) Some obtain db1 where op: "x_open_rw (e_xap E) db db_name = Inr db1"
    by (auto simp: index_db_def bindr_Inr_conv split: sum.splits)
  from assms(5) Some op obtain ok ds err n db2 where
    f: "deserializeFromFile (e_json E) (e_files E) f [] = Inr (ok, ds)"
    and l: "index_loop E author hs ds db1 0 = Inr (err, n, db2)"
    and d: "db' = snd (x_commit (e_xap E) db1 db2)"
    by (auto simp: index_db_def bindr_Inr_conv)
  have v1: "view db1 = view db" by (rule laws_open_rw [OF assms(1) op])
  then have 1: "keyed (e_sha E) (view db1)" "ads_written E view db1"
    using assms(3,4) by (simp_all add: ads_written_def)
  have "ads_written E view db2"
    by (rule index_loop_written [OF assms(1) 1 deserializeFromFile_finite [OF assms(2) f] l])
  with commit_written [OF assms(1) 1(2)] d show ?thesis by (cases "x_commit (e_xap E) db1 db2") auto
qed

lemma db_rm_written:
  assumes "xapian_laws (e_xap E) view" and "keyed (e_sha E) (view db)" and "ads_written E view db"
    and "db_rm E author db_name cmd hs db = Inr (info, db')"
  shows "ads_written E view db'"
proof -
  from assms(4) have "db' = db \<or>
      db_rm_docs E author db_name (uset_of (tokenize (trim cmd))) hs db = Inr (info, db')"
    by (auto simp: db_rm_def Let_def bindr_Inr_conv split: if_splits)
  then have "entries (view db') \<subseteq> entries (view db)"
    by (fastforce dest: db_rm_docs_removes [OF assms(1,2)] simp: removes_def)
  then show ?thesis by (rule ads_written_sub [OF assms(3)])
qed

lemma db_add_written:
  assumes "xapian_laws (e_xap E) view" and "json_laws (e_json E) rr"
    and "keyed (e_sha E) (view db)" and "ads_written E view db"
    and "db_add E author db_name cmd hs db = Inr (info, db')"
  shows "ads_written E view db'"
  using assms index_db_written
  by (auto simp: db_add_def Let_def bindr_Inr_conv split: if_splits)

text \<open>The invariant of the thread, with written ads.\<close>

definition db_written_inv ::
  "'db env \<Rightarrow> (double \<Rightarrow> double) \<Rightarrow> ('db \<Rightarrow> xview) \<Rightarrow> string \<Rightarrow> 'db db_state \<Rightarrow> bool" where
  "db_written_inv E rr view db_name s \<longleftrightarrow>
     db_thread_inv E rr view db_name s \<and> ads_written E view (ds_db s)"

lemma db_written_invD:
  assumes "db_written_inv E rr view db_name s"
  shows "db_thread_inv E rr view db_name s" "ads_written E view (ds_db s)"
    "xapian_laws (e_xap E) view" "json_laws (e_json E) rr" "keyed (e_sha E) (view (ds_db s))"
    "healthy E view db_name" "set (my_hashes s) = stored E view (ds_db s)" "env_laws E rr view"
  using assms by (auto simp: db_written_inv_def db_thread_inv_def db_ok_def env_laws_def)

lemma db_client_op_written:
  assumes inv: "db_written_inv E rr view db_name s"
    and op: "db_client_op E db_name peers msg s = Inr (s', out)"
  shows "db_written_inv E rr view db_name s'"
proof -
  note D = db_written_invD [OF inv]
  have "ads_written E view (ds_db s')"
    using op
  proof (cases rule: db_client_op_cases)
    case keep
    with D show ?thesis by simp
  next
    case (db cmd0 user cmd)
    from db(4) show ?thesis
    proof (cases rule: db_client_db_cases)
      case keep
      with D show ?thesis by simp
    next
      case (add r db')
      with db_add_written [OF D(3-5,2) add(1)] show ?thesis by simp
    next
      case (rm r db')
      with db_rm_written [OF D(3,5,2) rm(1)] show ?thesis by simp
    qed
  qed
  with db_client_op_inv [OF D(1) op] show ?thesis by (simp add: db_written_inv_def)
qed

lemma db_peer_op_written:
  assumes inv: "db_written_inv E rr view db_name s"
    and op: "db_peer_op E db_name msg s = Inr (s', out)"
  shows "db_written_inv E rr view db_name s'"
proof -
  note D = db_written_invD [OF inv]
  have "ads_written E view (ds_db s')"
    using op
  proof (cases rule: db_peer_op_cases)
    case (ins size m k ds n db')
    with db_put_docs_written [OF D(3-5,2) ins(5)] show ?thesis by simp
  qed (use D in simp_all)
  with db_peer_op_inv [OF D(1) op] show ?thesis by (simp add: db_written_inv_def)
qed

lemma db_thread_init_written:
  assumes "db_ok E rr view db_name db" and "ads_written E view db"
  shows "db_written_inv E rr view db_name (db_thread_init E db_name db)"
  using db_thread_init_inv [OF assms(1)] assms(2)
  by (simp add: db_written_inv_def db_thread_init_def)

section \<open>The thread does not stop\<close>

text \<open>
  A lookup returns texts of the database, whatever is asked for; in a debug build the digests asked for
  must have the length of a digest.
\<close>

lemma get_loop_texts:
  assumes "xapian_laws (e_xap E) view" and "get_loop E hs db acc = Inr r"
  shows "set r \<subseteq> set acc \<union> entries (view db)"
  using assms(2)
proof (induction hs arbitrary: acc)
  case (Cons h hs)
  show ?case
  proof (cases "x_postlist (e_xap E) db (CHR ''Q'' # h)")
    case Nil
    with Cons show ?thesis by (auto simp: bindr_Inr_conv)
  next
    case (Cons p ps)
    let ?t = "x_get_data (e_xap E) db p"
    have "p \<in> indexed_by (view db) (CHR ''Q'' # h)"
      using laws_postlist [OF assms(1), of db "CHR ''Q'' # h"] Cons by auto
    then have "?t \<in> entries (view db)"
      using laws_get_data [OF assms(1)] by (fastforce simp: indexed_by_def entries_iff)
    moreover have "get_loop E hs db (acc @ [?t]) = Inr r"
      using Cons.prems Cons by (auto simp: bindr_Inr_conv)
    ultimately show ?thesis using Cons.IH by fastforce
  qed
qed simp

lemma get_loop_total:
  assumes "e_dbg E \<longrightarrow> (\<forall>h\<in>set hs. length h = 32)"
  shows "\<exists>r. get_loop E hs db acc = Inr r"
  using assms
proof (induction hs arbitrary: acc)
  case (Cons h hs)
  then have "cassert (e_dbg E) (length h = 32) = Inr ()" by (simp add: cassert_Inr_conv)
  with Cons show ?case by (auto split: list.split)
qed simp

lemma db_get_docs_texts:
  assumes "xapian_laws (e_xap E) view" and "db_get_docs E db_name hs db = Inr ds"
  shows "set ds \<subseteq> entries (view db)"
  using assms get_loop_texts [OF assms(1), of hs db "[]" ds]
  by (auto simp: db_get_docs_def split: option.splits if_splits)

lemma db_get_docs_total:
  "e_dbg E \<longrightarrow> (\<forall>h\<in>set hs. length h = 32) \<Longrightarrow> \<exists>ds. db_get_docs E db_name hs db = Inr ds"
  using get_loop_total [of E hs db "[]"] by (simp add: db_get_docs_def split: option.split)

text \<open>Which requests of the p2p thread the database thread survives.\<close>

definition accepts_store :: "'db env \<Rightarrow> message \<Rightarrow> bool" where
  "accepts_store E m \<longleftrightarrow>
     wf_db m \<and> length m < 2 ^ 64 \<and>
     (hd m = ''GET'' \<longrightarrow> e_dbg E \<longrightarrow> 3 < length m \<and> (\<forall>h\<in>set (drop 3 m). length h = 32)) \<and>
     (hd m = ''INS'' \<longrightarrow> (\<forall>t\<in>set (drop 2 m). readable E t) \<and> (e_dbg E \<longrightarrow> 2 < length m))"

lemma db_peer_op_total:
  assumes "accepts_store E m"
  shows "\<exists>r. db_peer_op E db_name m s = Inr r"
proof -
  from assms have len: "length m < 2 ^ 64" and "wf_db m" by (simp_all add: accepts_store_def)
  from this(2) consider (G) a sz xs where "m = ''GET'' # a # sz # xs" "announces sz xs"
    | (I) sz xs where "m = ''INS'' # sz # xs" "announces sz xs"
    unfolding wf_db_def by blast
  then show ?thesis
  proof cases
    case G
    then have "stoul sz = Inr (length xs)" using len by (simp add: announces_def)
    moreover obtain ds where "db_get_docs E db_name xs (ds_db s) = Inr ds"
      using db_get_docs_total [of E xs db_name "ds_db s"] assms G
      by (auto simp: accepts_store_def simp del: ex_simps)
    moreover have "cassert (e_dbg E) (0 < length xs) = Inr ()"
      using assms G by (simp add: accepts_store_def cassert_Inr_conv)
    ultimately show ?thesis using G
      by (simp add: db_peer_op_def msg_count_def msg_loop_eq)
  next
    case I
    let ?ds = "fold (keep_unknown E (my_hashes s)) xs []"
    have "stoul sz = Inr (length xs)" using I len by (simp add: announces_def)
    moreover have "cassert (e_dbg E) (0 < length xs) = Inr ()"
      using assms I by (simp add: accepts_store_def cassert_Inr_conv)
    moreover have "\<forall>t\<in>set ?ds. readable E t" using assms I by (simp add: accepts_store_def fold_keep_unknown)
    then obtain n db' where "db_put_docs E db_name ?ds (ds_db s) = Inr (n, db')"
      using db_put_docs_total [of ?ds E db_name "ds_db s"] by auto
    ultimately show ?thesis using I
      by (simp add: db_peer_op_def msg_count_def msg_loop_eq)
  qed
qed

text \<open>
  Which requests of clients it survives: the mark of the author is not at the front, an addition names
  a file that the accessors can read, and in a debug build a change has an author.
\<close>

definition safe_client :: "'db env \<Rightarrow> message \<Rightarrow> bool" where
  "safe_client E msg \<longleftrightarrow>
     msg \<noteq> [] \<and>
     (case split_auth (hd msg) of
        Inl e \<Rightarrow> False
      | Inr (user, cmd) \<Rightarrow> chars_match ''db'' cmd \<longrightarrow>
          (let q = drop 3 cmd; f = drop 5 (trim (drop 4 q)) in
           (chars_match ''add'' q \<or> chars_match ''rm'' q \<longrightarrow> e_dbg E \<longrightarrow> user \<noteq> []) \<and>
           (chars_match ''add'' q \<longrightarrow> chars_match ''json'' (trim (drop 4 q)) \<longrightarrow>
              (\<exists>r. deserializeFromFile (e_json E) (e_files E) f [] = Inr r))))"

lemma rm_loop_readable:
  assumes "db_written_inv E rr view db_name s" and "view db = view (ds_db s)"
  shows "\<exists>r. rm_loop E author del (my_hashes s) db n0 = Inr r"
proof -
  note D = db_written_invD [OF assms(1)]
  have "\<forall>h\<in>set (my_hashes s). length h = 32"
    using D(7) env_lawsD(3) [OF D(8)] by (auto simp: stored_def)
  moreover have "\<forall>e\<in>entries (view db). author_of E e \<noteq> None"
    using ad_text_author [OF D(4)] D(2) assms(2) by (simp add: ads_written_def)
  ultimately show ?thesis using rm_loop_total [OF D(3)] D(5) assms(2) by simp
qed

lemma db_rm_total:
  assumes inv: "db_written_inv E rr view db_name s" and "e_dbg E \<longrightarrow> user \<noteq> []"
  shows "\<exists>r. db_rm E user db_name cmd (my_hashes s) (ds_db s) = Inr r"
proof -
  note D = db_written_invD [OF inv]
  have "\<exists>r. db_rm_docs E user db_name del (my_hashes s) (ds_db s) = Inr r" for del
  proof (cases "x_open_rw (e_xap E) (ds_db s) db_name")
    case (Inr db1)
    then obtain out n db2 where "rm_loop E user del (my_hashes s) db1 0 = Inr (out, n, db2)"
      using rm_loop_readable [OF inv laws_open_rw [OF D(3) Inr]] by (metis prod.collapse)
    with Inr show ?thesis by (simp add: db_rm_docs_def)
  qed (simp add: db_rm_docs_def)
  then show ?thesis using assms(2) by (simp add: db_rm_def Let_def cassert_pos)
qed

lemma db_add_total:
  assumes "no_faults E" and "user \<noteq> [] \<or> \<not> e_dbg E"
    and "chars_match ''json'' (trim cmd) \<Longrightarrow>
      \<exists>r. deserializeFromFile (e_json E) (e_files E) (drop 5 (trim cmd)) [] = Inr r"
  shows "\<exists>r. db_add E user db_name cmd hs db = Inr r"
proof (cases "chars_match ''json'' (trim cmd) \<and> e_files E (drop 5 (trim cmd)) \<noteq> None")
  case True
  then obtain ok ds where f: "deserializeFromFile (e_json E) (e_files E) (drop 5 (trim cmd)) [] = Inr (ok, ds)"
    using assms(3) by auto
  obtain db1 where o: "x_open_rw (e_xap E) db db_name = Inr db1"
    using assms(1) unfolding no_faults_def by metis
  have "\<exists>r. index_loop E user hs ds db1 n0 = Inr r" for n0
    using assms(2) by (induction ds arbitrary: db1 n0)
      (auto simp: Let_def add_document_def cassert_pos split: sum.split)
  then obtain err n db2 where "index_loop E user hs ds db1 0 = Inr (err, n, db2)" by (metis prod.collapse)
  with f o True assms(2) show ?thesis
    by (auto simp: db_add_def index_db_def Let_def cassert_pos)
next
  case False
  then show ?thesis using assms(2) by (auto simp: db_add_def index_db_def Let_def cassert_pos)
qed

lemma db_list_total:
  assumes inv: "db_written_inv E rr view db_name s"
  shows "\<exists>r. db_list E db_name cmd (ds_db s) = Inr r"
proof -
  note D = db_written_invD [OF inv]
  have "\<forall>e\<in>set (db_entries E db_name (ds_db s)). readable E e"
    using set_db_entries [OF D(3,6)] D(2) ad_text_readable [OF D(4)] by (simp add: ads_written_def)
  moreover have "\<forall>e\<in>set es. readable E e \<Longrightarrow> \<exists>r. list_doc_loop E es acc = Inr r" for es acc
    by (induction es arbitrary: acc) (auto simp: readable_def Let_def)
  moreover have "\<forall>e\<in>set es. readable E e \<Longrightarrow> \<exists>r. numuser_loop E es acc = Inr r" for es acc
    by (induction es arbitrary: acc) (auto simp: readable_def)
  ultimately have "\<exists>r. db_list_doc E db_name (ds_db s) = Inr r" "\<exists>n. db_list_numuser E db_name (ds_db s) = Inr n"
    by (auto simp: db_list_doc_def db_list_numuser_def) (metis bindr_Inr)
  then show ?thesis by (auto simp: db_list_def Let_def)
qed

lemma db_client_op_total:
  assumes inv: "db_written_inv E rr view db_name s" and nf: "no_faults E" and safe: "safe_client E msg"
  shows "\<exists>r. db_client_op E db_name peers msg s = Inr r"
proof -
  obtain user cmd where m: "msg \<noteq> []" "split_auth (hd msg) = Inr (user, cmd)"
    using safe by (auto simp: safe_client_def split: sum.splits)
  let ?q = "drop 3 cmd"
  have "\<exists>r. db_client_db E db_name user ?q s = Inr r" if db: "chars_match ''db'' cmd"
  proof -
    have au: "chars_match ''add'' ?q \<or> chars_match ''rm'' ?q \<Longrightarrow> e_dbg E \<longrightarrow> user \<noteq> []"
      and fl: "chars_match ''add'' ?q \<Longrightarrow> chars_match ''json'' (trim (drop 4 ?q)) \<Longrightarrow>
        \<exists>r. deserializeFromFile (e_json E) (e_files E) (drop 5 (trim (drop 4 ?q))) [] = Inr r"
      using safe m db by (auto simp: safe_client_def Let_def)
    have "chars_match ''add'' ?q \<Longrightarrow> \<exists>r. db_add E user db_name (drop 4 ?q) (my_hashes s) (ds_db s) = Inr r"
      using db_add_total [OF nf _ fl] au by blast
    moreover have "chars_match ''rm'' ?q \<Longrightarrow> \<exists>r. db_rm E user db_name (drop 3 ?q) (my_hashes s) (ds_db s) = Inr r"
      using db_rm_total [OF inv] au by blast
    ultimately show ?thesis
      using au db_list_total [OF inv, of "drop 5 ?q"]
      by (auto simp: db_client_db_def cassert_pos)
  qed
  then show ?thesis using m by (cases msg) (auto simp: db_client_op_def)
qed

text \<open>It survives no other request.\<close>

lemma db_add_unreadable:
  assumes "no_faults E" and "chars_match ''json'' (trim cmd)"
    and "deserializeFromFile (e_json E) (e_files E) (drop 5 (trim cmd)) [] = Inl e"
  shows "\<exists>e. db_add E user db_name cmd hs db = Inl e"
proof -
  have f: "e_files E (drop 5 (trim cmd)) \<noteq> None"
    using assms(3) by (cases "e_files E (drop 5 (trim cmd))")
      (simp_all add: deserializeFromFile_def Documents_deserialize_def initDocument_def)
  obtain db1 where o: "x_open_rw (e_xap E) db db_name = Inr db1"
    using assms(1) unfolding no_faults_def by metis
  show ?thesis
    using assms(2,3) f o by (cases "cassert (e_dbg E) (user \<noteq> [])") (auto simp: db_add_def index_db_def Let_def)
qed

lemma db_client_op_stops:
  assumes nf: "no_faults E" and "\<not> safe_client E msg"
  shows "\<exists>e. db_client_op E db_name peers msg s = Inl e"
proof (cases "msg \<noteq> [] \<and> (\<exists>r. split_auth (hd msg) = Inr r)")
  case False
  then show ?thesis by (cases msg; cases "split_auth (hd msg)") (auto simp: db_client_op_def)
next
  case True
  then obtain user cmd m ms where m: "msg = m # ms" "split_auth m = Inr (user, cmd)"
    by (cases msg) auto
  let ?q = "drop 3 cmd"
  have not_Inr: "(\<nexists>r. x = Inr r) \<longleftrightarrow> (\<exists>e. x = Inl e)" for x :: "'x res"
    by (cases x) simp_all
  have db: "chars_match ''db'' cmd"
    and bad: "(chars_match ''add'' ?q \<or> chars_match ''rm'' ?q) \<and> e_dbg E \<and> user = [] \<or>
      chars_match ''add'' ?q \<and> chars_match ''json'' (trim (drop 4 ?q)) \<and>
      (\<exists>e. deserializeFromFile (e_json E) (e_files E) (drop 5 (trim (drop 4 ?q))) [] = Inl e)"
    using assms(2) unfolding safe_client_def Let_def not_Inr [symmetric] m list.sel sum.case prod.case
    by blast+
  have q: "\<not> chars_match ''query'' ?q" if "chars_match ''add'' ?q \<or> chars_match ''rm'' ?q"
    using that by (cases "?q") (auto simp: str_simps starts_with_def NUL_def)
  have r: "\<not> chars_match ''add'' ?q" if "chars_match ''rm'' ?q"
    using that by (cases "?q") (auto simp: str_simps starts_with_def NUL_def)
  from bad have "\<exists>e. db_client_db E db_name user ?q s = Inl e"
  proof
    assume b: "(chars_match ''add'' ?q \<or> chars_match ''rm'' ?q) \<and> e_dbg E \<and> user = []"
    with q show ?thesis by (auto simp: db_client_db_def cassert_def)
  next
    assume b: "chars_match ''add'' ?q \<and> chars_match ''json'' (trim (drop 4 ?q)) \<and>
      (\<exists>e. deserializeFromFile (e_json E) (e_files E) (drop 5 (trim (drop 4 ?q))) [] = Inl e)"
    then obtain e where "db_add E user db_name (drop 4 ?q) (my_hashes s) (ds_db s) = Inl e"
      using db_add_unreadable [OF nf] by blast
    with b q show ?thesis by (cases "cassert (e_dbg E) (user \<noteq> [])") (auto simp: db_client_db_def)
  qed
  moreover have "cmd \<noteq> ''connect''" using db by (auto simp: str_simps starts_with_def NUL_def)
  ultimately show ?thesis using m db by (simp add: db_client_op_def)
qed

end
