(* ===== verification/Listing.thy ===== *)
theory Listing
  imports Ad_Text
begin

text \<open>
  What a client is told of the database, src/src/db.cpp: the entries that the loops over the postings
  visit are the stored ads, each once, and the four forms of \<open>db list\<close> report them.
\<close>

lemma distinct_db_entries:
  assumes "xapian_laws (e_xap E) view" and "keyed (e_sha E) (view db)"
  shows "distinct (db_entries E db_name db)"
proof -
  let ?p = "x_postlist (e_xap E) db []"
  have p: "set ?p = dom (view db)"
    using laws_postlist [OF assms(1), of db "[]"] by (auto simp: indexed_by_def)
  have "x_get_data (e_xap E) db i = xd_data (the (view db i))" if "i \<in> set ?p" for i
    using that laws_get_data [OF assms(1)] unfolding p by force
  then have "inj_on (x_get_data (e_xap E) db) (set ?p)"
    using keyed_inj [OF assms(2)] unfolding p [symmetric] inj_on_def by simp
  then show ?thesis
    using laws_postlist_distinct [OF assms(1)]
    by (simp add: db_entries_def distinct_map split: option.split)
qed

lemma get_doccount_entries:
  assumes "xapian_laws (e_xap E) view" and "keyed (e_sha E) (view db)" and "healthy E view db_name"
  shows "get_doccount E db_name db = card (entries (view db))"
proof (cases "x_open (e_xap E) db db_name")
  case None
  then show ?thesis
    using laws_doccount [OF assms(1)] keyed_entries(2) [OF assms(2)] by (simp add: get_doccount_def)
next
  case (Some x)
  then have "view db = Map.empty" using assms(3) by (simp add: healthy_def)
  with Some show ?thesis by (simp add: get_doccount_def entries_def)
qed

text \<open>The line of an ad: its digest, and the ad with the digest of its author in hexadecimal.\<close>

definition ad_line :: "'db env \<Rightarrow> string \<Rightarrow> string" where
  "ad_line E e =
     (case JSONBase_deserialize (e_json E) e Document_new of
        Inl err \<Rightarrow> []
      | Inr (ok, d) \<Rightarrow>
          hex E (e_sha E e) @ '': '' @ Document_serialize (e_json E) (d\<lparr>m_author := hex E (m_author d)\<rparr>))"

lemma list_doc_loop_lines:
  "\<forall>e\<in>set es. readable E e \<Longrightarrow> list_doc_loop E es acc = Inr (acc @ map (ad_line E) es)"
  by (induction es arbitrary: acc) (auto simp: readable_def ad_line_def Let_def sha256_def)

lemma numuser_loop_authors:
  "\<forall>e\<in>set es. readable E e \<Longrightarrow> numuser_loop E es us = Inr (fold uset_insert (map (\<lambda>e. the (author_of E e)) es) us)"
  by (induction es arbitrary: us) (auto simp: readable_def author_of_def)

lemma db_list_numuser_card:
  assumes "\<forall>e\<in>set (db_entries E db_name db). readable E e"
  shows "db_list_numuser E db_name db
    = Inr (card {a. \<exists>e\<in>set (db_entries E db_name db). author_of E e = Some a})"
proof -
  let ?es = "db_entries E db_name db"
  have "\<exists>a. author_of E e = Some a" if "e \<in> set ?es" for e
    using assms that by (force simp: readable_def author_of_def)
  then have "{a. \<exists>e\<in>set ?es. author_of E e = Some a} = (\<lambda>e. the (author_of E e)) ` set ?es"
    by force
  moreover have "length (fold uset_insert (map f ?es) []) = card (f ` set ?es)" for f :: "string \<Rightarrow> string"
    using distinct_card [of "fold uset_insert (map f ?es) []"] by simp
  ultimately show ?thesis using numuser_loop_authors [OF assms, of "[]"] by (simp add: db_list_numuser_def)
qed

lemma list_requests:
  "db_client_op E db_name peers (''db list'' # ps) s
    = bindr (db_list E db_name [] (ds_db s)) (\<lambda>r. Inr (s, [ToClient [r]]))"
  "db_client_op E db_name peers (''db list hash'' # ps) s
    = bindr (db_list E db_name ''hash'' (ds_db s)) (\<lambda>r. Inr (s, [ToClient [r]]))"
  "db_client_op E db_name peers (''db list numdoc'' # ps) s
    = bindr (db_list E db_name ''numdoc'' (ds_db s)) (\<lambda>r. Inr (s, [ToClient [r]]))"
  "db_client_op E db_name peers (''db list numusr'' # ps) s
    = bindr (db_list E db_name ''numusr'' (ds_db s)) (\<lambda>r. Inr (s, [ToClient [r]]))"
proof -
  have "split_auth ''db list'' = Inr ([], ''db list'')" "split_auth ''db list hash'' = Inr ([], ''db list hash'')"
    "split_auth ''db list numdoc'' = Inr ([], ''db list numdoc'')"
    "split_auth ''db list numusr'' = Inr ([], ''db list numusr'')"
    by code_simp+
  moreover have "\<not> chars_match ''query'' (CHR ''l'' # t)" "\<not> chars_match ''add'' (CHR ''l'' # t)"
    "\<not> chars_match ''rm'' (CHR ''l'' # t)" "chars_match ''list'' (''list'' @ t)"
    "chars_match ''db'' (''db'' @ t)" for t
    by (simp_all add: str_simps starts_with_def NUL_def)
  ultimately show
    "db_client_op E db_name peers (''db list'' # ps) s
      = bindr (db_list E db_name [] (ds_db s)) (\<lambda>r. Inr (s, [ToClient [r]]))"
    "db_client_op E db_name peers (''db list hash'' # ps) s
      = bindr (db_list E db_name ''hash'' (ds_db s)) (\<lambda>r. Inr (s, [ToClient [r]]))"
    "db_client_op E db_name peers (''db list numdoc'' # ps) s
      = bindr (db_list E db_name ''numdoc'' (ds_db s)) (\<lambda>r. Inr (s, [ToClient [r]]))"
    "db_client_op E db_name peers (''db list numusr'' # ps) s
      = bindr (db_list E db_name ''numusr'' (ds_db s)) (\<lambda>r. Inr (s, [ToClient [r]]))"
    by (simp_all add: db_client_op_def db_client_db_def)
qed

lemma db_list_forms:
  "db_list E db_name [] db = bindr (db_list_doc E db_name db) (\<lambda>docs. Inr (list_info docs))"
  "db_list E db_name ''hash'' db = Inr (list_info (db_list_hash E db_name True db))"
  "db_list E db_name ''numdoc'' db = Inr (''Number of documents: '' @ nat_to_string (get_doccount E db_name db))"
  "db_list E db_name ''numusr'' db
    = bindr (db_list_numuser E db_name db) (\<lambda>n. Inr (''Number of users: '' @ nat_to_string n))"
proof -
  have "trim [] = []" "trim ''hash'' = ''hash''" "trim ''numdoc'' = ''numdoc''" "trim ''numusr'' = ''numusr''"
    "\<not> chars_match ''numdoc'' ''hash''" "\<not> chars_match ''numusr'' ''hash''" "chars_match ''hash'' ''hash''"
    "chars_match ''numdoc'' ''numdoc''" "\<not> chars_match ''numdoc'' ''numusr''" "chars_match ''numusr'' ''numusr''"
    by code_simp+
  then show
    "db_list E db_name [] db = bindr (db_list_doc E db_name db) (\<lambda>docs. Inr (list_info docs))"
    "db_list E db_name ''hash'' db = Inr (list_info (db_list_hash E db_name True db))"
    "db_list E db_name ''numdoc'' db = Inr (''Number of documents: '' @ nat_to_string (get_doccount E db_name db))"
    "db_list E db_name ''numusr'' db
      = bindr (db_list_numuser E db_name db) (\<lambda>n. Inr (''Number of users: '' @ nat_to_string n))"
    by (simp_all add: db_list_def)
qed

end
