(* ===== verification/Cpp_Map.thy ===== *)
theory Cpp_Map
  imports Prelude "HOL-Library.List_Lexorder" "HOL-Library.Char_ord"
begin

text \<open>
  A std::map is the list of its entries in the order of the keys, which is the order the code iterates
  in; std::string compares its bytes, as the library's order on lists of characters does. The locale
  \<open>ordered_map\<close> is what the code relies on; it is interpreted on the lists.
\<close>

type_synonym ('k, 'v) cmap = "('k \<times> 'v) list"

definition ordered :: "('k::linorder, 'v) cmap \<Rightarrow> bool" where
  "ordered m \<longleftrightarrow> sorted_wrt (<) (map fst m)"

text \<open>\<open>m[k] = v\<close>.\<close>

fun map_put :: "'k::linorder \<Rightarrow> 'v \<Rightarrow> ('k, 'v) cmap \<Rightarrow> ('k, 'v) cmap" where
  "map_put k v [] = [(k, v)]"
| "map_put k v ((a, b) # m) =
     (if k < a then (k, v) # (a, b) # m
      else if k = a then (k, v) # m
      else (a, b) # map_put k v m)"

text \<open>\<open>m.emplace(k, v)\<close> keeps an entry that is there; \<open>m[k]\<close> reads one or makes a default one.\<close>

definition map_emplace :: "'k::linorder \<Rightarrow> 'v \<Rightarrow> ('k, 'v) cmap \<Rightarrow> ('k, 'v) cmap" where
  "map_emplace k v m = (if map_of m k = None then map_put k v m else m)"

definition map_ref :: "'k::linorder \<Rightarrow> 'v \<Rightarrow> ('k, 'v) cmap \<Rightarrow> 'v \<times> ('k, 'v) cmap" where
  "map_ref k d m = (case map_of m k of Some v \<Rightarrow> (v, m) | None \<Rightarrow> (d, map_put k d m))"

section \<open>The interface\<close>

locale ordered_map =
  fixes find :: "'m \<Rightarrow> 'k \<Rightarrow> 'v option"
    and put :: "'k \<Rightarrow> 'v \<Rightarrow> 'm \<Rightarrow> 'm"
    and inv :: "'m \<Rightarrow> bool"
  assumes find_put: "find (put k v m) = (find m)(k \<mapsto> v)"
    and inv_put: "inv m \<Longrightarrow> inv (put k v m)"
    and extensional: "inv m \<Longrightarrow> inv m' \<Longrightarrow> find m = find m' \<Longrightarrow> m = m'"
begin

text \<open>Assigning a list of entries one by one.\<close>

lemma find_puts: "find (fold (\<lambda>(k, v). put k v) kvs m) = find m ++ map_of (rev kvs)"
  by (induction kvs arbitrary: m) (auto simp: find_put map_add_def fun_eq_iff split: option.splits)

lemma inv_puts: "inv m \<Longrightarrow> inv (fold (\<lambda>(k, v). put k v) kvs m)"
  by (induction kvs arbitrary: m) (auto simp: inv_put)

lemma put_same: "inv m \<Longrightarrow> find m k = Some v \<Longrightarrow> put k v m = m"
  by (rule extensional) (auto simp: inv_put find_put)

end

lemma map_of_put [simp]: "map_of (map_put k v m) = (map_of m)(k \<mapsto> v)"
  by (induction k v m rule: map_put.induct) (auto simp: fun_eq_iff)

lemma keys_put [simp]: "fst ` set (map_put k v m) = insert k (fst ` set m)"
  by (induction k v m rule: map_put.induct) auto

lemma ordered_put [simp]: "ordered m \<Longrightarrow> ordered (map_put k v m)"
proof (induction k v m rule: map_put.induct)
  case (2 k v a b m)
  have "x \<in> fst ` set (map_put k v m) \<Longrightarrow> x = k \<or> x \<in> fst ` set m" for x by auto
  with 2 show ?case unfolding ordered_def by (fastforce simp del: keys_put simp: less_le)
qed (simp add: ordered_def)

lemma ordered_distinct: "ordered m \<Longrightarrow> distinct (map fst m) \<and> sorted (map fst m)"
  by (simp add: ordered_def strict_sorted_iff)

lemma ordered_map_eq:
  assumes "ordered m" and "ordered m'" and "map_of m = map_of m'"
  shows "m = m'"
proof (rule map_sorted_distinct_set_unique [where f = fst])
  show "inj_on fst (set m \<union> set m')"
  proof -
    have "set m = set m'"
      using assms by (simp add: map_of_inject_set [symmetric] ordered_distinct)
    then show ?thesis using ordered_distinct [OF assms(1)] by (simp add: distinct_map)
  qed
  show "set m = set m'" using assms by (simp add: map_of_inject_set [symmetric] ordered_distinct)
qed (use assms ordered_distinct in blast)+

interpretation stdmap: ordered_map map_of map_put ordered
  by unfold_locales (simp_all add: ordered_map_eq)

section \<open>Consequences\<close>

lemma map_put_put [simp]: "map_put k v (map_put k w m) = map_put k v m"
  by (induction k w m rule: map_put.induct) auto

lemma ordered_Nil [simp]: "ordered []"
  by (simp add: ordered_def)

lemma ordered_single [simp]: "ordered [(k, v)]"
  by (simp add: ordered_def)

lemma ordered_emplace [simp]: "ordered m \<Longrightarrow> ordered (map_emplace k v m)"
  by (simp add: map_emplace_def)

lemma map_of_emplace: "map_of (map_emplace k v m) = (if map_of m k = None then (map_of m)(k \<mapsto> v) else map_of m)"
  by (simp add: map_emplace_def)

lemma map_ref_some [simp]: "map_of m k = Some v \<Longrightarrow> map_ref k d m = (v, m)"
  by (simp add: map_ref_def)

lemma ordered_ref: "ordered m \<Longrightarrow> map_ref k d m = (v, m') \<Longrightarrow> ordered m'"
  by (auto simp: map_ref_def split: option.splits)

text \<open>Assigning the entries of a map to an empty one copies it.\<close>

lemma puts_copy: "ordered m \<Longrightarrow> fold (\<lambda>(k, v). map_put k v) m [] = m"
proof (rule stdmap.extensional)
  assume m: "ordered m"
  show "ordered (fold (\<lambda>(k, v). map_put k v) m [])" by (rule stdmap.inv_puts) simp
  have "map_of (rev m) = map_of m"
    using ordered_distinct [OF m] by (intro map_of_inject_set [THEN iffD2]) (simp_all add: rev_map [symmetric])
  then show "map_of (fold (\<lambda>(k, v). map_put k v) m []) = map_of m"
    using stdmap.find_puts [of m "[]"] by simp
qed

lemma ordered_map_values: "ordered (map (\<lambda>(k, v). (k, f k v)) m) \<longleftrightarrow> ordered m"
  by (simp add: ordered_def comp_def case_prod_unfold)

end
