(* ===== verification/Nlohmann.thy ===== *)
theory Nlohmann
  imports Json_Document Cpp_Map
begin

text \<open>
  The JSON values of nlohmann::json that the Matrix client works with. The library is not part of the
  repository; values are the datatype \<open>json\<close>, whose objects this library keeps in the order of the keys.
  Reading a value as another type, or a member that is not there, throws \<open>NlohmannError\<close>. Text is
  parsed and printed by the parameters \<open>nl_parse\<close> (nothing for a parse error) and \<open>nl_dump\<close> (nothing
  when a string is not UTF-8); \<open>nl_float\<close> converts a floating-point number to an unsigned one.
\<close>

record nlohmann =
  nl_parse :: "string \<Rightarrow> json option"
  nl_dump :: "int \<Rightarrow> json \<Rightarrow> string option"
  nl_float :: "double \<Rightarrow> nat"

section \<open>Reading\<close>

fun nj_at :: "json \<Rightarrow> string \<Rightarrow> json res" where
  "nj_at (JObject kvs) k = (case map_of kvs k of Some j \<Rightarrow> Inr j | None \<Rightarrow> Inl NlohmannError)"
| "nj_at _ k = Inl NlohmannError"

fun nj_count :: "json \<Rightarrow> string \<Rightarrow> nat" where
  "nj_count (JObject kvs) k = (if map_of kvs k = None then 0 else 1)"
| "nj_count _ k = 0"

fun nj_string :: "json \<Rightarrow> string res" where
  "nj_string (JString s) = Inr s"
| "nj_string _ = Inl NlohmannError"

fun nj_bool :: "json \<Rightarrow> bool res" where
  "nj_bool (JBool b) = Inr b"
| "nj_bool _ = Inl NlohmannError"

text \<open>\<open>get<uint64_t>()\<close>; \<open>get<uint8_t>()\<close> also takes a boolean; both wrap around.\<close>

fun nj_uint64 :: "nlohmann \<Rightarrow> json \<Rightarrow> 64 word res" where
  "nj_uint64 N (JInt i) = Inr (word_of_int i)"
| "nj_uint64 N (JDouble d) = Inr (of_nat (nl_float N d))"
| "nj_uint64 N _ = Inl NlohmannError"

fun nj_uint8 :: "nlohmann \<Rightarrow> json \<Rightarrow> 8 word res" where
  "nj_uint8 N (JInt i) = Inr (word_of_int i)"
| "nj_uint8 N (JDouble d) = Inr (of_nat (nl_float N d))"
| "nj_uint8 N (JBool b) = Inr (if b then 1 else 0)"
| "nj_uint8 N _ = Inl NlohmannError"

fun nj_vector :: "(json \<Rightarrow> 'a res) \<Rightarrow> json \<Rightarrow> 'a list res" where
  "nj_vector f (JArray js) = mapr f js"
| "nj_vector f _ = Inl NlohmannError"

fun nj_map :: "(json \<Rightarrow> 'a res) \<Rightarrow> json \<Rightarrow> (string, 'a) cmap res" where
  "nj_map f (JObject kvs) =
     mapr (\<lambda>(k, j). bindr (f j) (\<lambda>v. Inr (k, v))) kvs"
| "nj_map f _ = Inl NlohmannError"

section \<open>Building\<close>

text \<open>\<open>j[k] = v\<close> on an object or on null, which becomes an object.\<close>

fun nj_members :: "json \<Rightarrow> (string, json) cmap" where
  "nj_members (JObject kvs) = kvs"
| "nj_members _ = []"

definition nj_set :: "string \<Rightarrow> json \<Rightarrow> json \<Rightarrow> json" where
  "nj_set k v j = JObject (map_put k v (nj_members j))"

text \<open>\<open>j[g][k] = v\<close>.\<close>

definition nj_set2 :: "string \<Rightarrow> string \<Rightarrow> json \<Rightarrow> json \<Rightarrow> json" where
  "nj_set2 g k v j =
     nj_set g (nj_set k v (case map_of (nj_members j) g of Some sub \<Rightarrow> sub | None \<Rightarrow> JNull)) j"

definition json_of_map :: "('a \<Rightarrow> json) \<Rightarrow> (string, 'a) cmap \<Rightarrow> json" where
  "json_of_map f m = JObject (map (\<lambda>(k, v). (k, f v)) m)"

text \<open>
  A braced list is an object when every element is an array of two whose first is a string, and an
  array otherwise.
\<close>

fun is_entry :: "json \<Rightarrow> bool" where
  "is_entry (JArray [JString k, v]) = True"
| "is_entry _ = False"

fun entry_of :: "json \<Rightarrow> string \<times> json" where
  "entry_of (JArray [JString k, v]) = (k, v)"
| "entry_of j = ([], j)"

definition nj_braces :: "json list \<Rightarrow> json" where
  "nj_braces js =
     (if list_all is_entry js then JObject (fold (\<lambda>(k, v). map_emplace k v) (map entry_of js) [])
      else JArray js)"

section \<open>Documented behaviour\<close>

text \<open>Values the library can hold and print exactly: ordered objects, 64-bit integers, no fractions.\<close>

fun nj_ok :: "json \<Rightarrow> bool" where
  "nj_ok (JInt i) \<longleftrightarrow> - (2 ^ 63) \<le> i \<and> i < 2 ^ 64"
| "nj_ok (JDouble d) \<longleftrightarrow> False"
| "nj_ok (JArray js) \<longleftrightarrow> list_all nj_ok js"
| "nj_ok (JObject kvs) \<longleftrightarrow> ordered kvs \<and> list_all (\<lambda>(k, j). nj_ok j) kvs"
| "nj_ok _ \<longleftrightarrow> True"

definition nlohmann_laws :: "nlohmann \<Rightarrow> bool" where
  "nlohmann_laws N \<longleftrightarrow>
     (\<forall>j n t. nj_ok j \<longrightarrow> nl_dump N n j = Some t \<longrightarrow> t \<noteq> [] \<and> nl_parse N t = Some j)"

lemma nlohmann_lawsD:
  "nlohmann_laws N \<Longrightarrow> nj_ok j \<Longrightarrow> nl_dump N n j = Some t \<Longrightarrow> t \<noteq> [] \<and> nl_parse N t = Some j"
  by (simp add: nlohmann_laws_def)

lemma nj_members_set [simp]: "nj_members (nj_set k v j) = map_put k v (nj_members j)"
  by (simp add: nj_set_def)

lemma nj_at_members: "nj_at j k =
    (case map_of (nj_members j) k of Some x \<Rightarrow> Inr x | None \<Rightarrow> Inl NlohmannError)"
  by (cases "(j, k)" rule: nj_at.cases) simp_all

lemma nj_count_members: "nj_count j k = (if map_of (nj_members j) k = None then 0 else 1)"
  by (cases "(j, k)" rule: nj_count.cases) simp_all

lemma nj_map_of_map:
  assumes "\<forall>(k, v)\<in>set m. g (f v) = Inr (h v)"
  shows "nj_map g (json_of_map f m) = Inr (map (\<lambda>(k, v). (k, h v)) m)"
  using assms by (induction m) (auto simp: json_of_map_def)

lemma nj_map_id:
  assumes "\<forall>(k, v)\<in>set m. g (f v) = Inr v"
  shows "nj_map g (json_of_map f m) = Inr m"
  using nj_map_of_map [of m g f "\<lambda>v. v"] assms by simp

lemma nj_ok_of_map [simp]: "nj_ok (json_of_map f m) \<longleftrightarrow> ordered m \<and> (\<forall>(k, v)\<in>set m. nj_ok (f v))"
  by (auto simp: json_of_map_def ordered_def list_all_iff comp_def case_prod_unfold)

lemma nj_strings [simp]: "mapr nj_string (map JString l) = Inr l"
  by (induction l) auto

text \<open>Setting the members of a sub-object one by one.\<close>

lemma nj_set2_set: "nj_set2 g k v (nj_set g (JObject kvs) j) = nj_set g (JObject (map_put k v kvs)) j"
  by (simp add: nj_set2_def) (simp add: nj_set_def)

lemma nj_set2_new: "map_of (nj_members j) g = None \<Longrightarrow> nj_set2 g k v j = nj_set g (JObject [(k, v)]) j"
  by (simp add: nj_set2_def) (simp add: nj_set_def)

lemma fold_nj_set2_from:
  "fold (\<lambda>(k, v). nj_set2 g k v) m (nj_set g (JObject kvs) j)
    = nj_set g (JObject (fold (\<lambda>(k, v). map_put k v) m kvs)) j"
  by (induction m arbitrary: kvs) (auto simp: nj_set2_set)

lemma fold_nj_set2:
  assumes "map_of (nj_members j) g = None" and "ordered m"
  shows "fold (\<lambda>(k, v). nj_set2 g k v) m j = (if m = [] then j else nj_set g (JObject m) j)"
proof (cases m)
  case (Cons kv ms)
  obtain k v where "kv = (k, v)" by (cases kv)
  then have "fold (\<lambda>(k, v). nj_set2 g k v) m j
      = nj_set g (JObject (fold (\<lambda>(k, v). map_put k v) m [])) j"
    using Cons assms(1) by (simp add: nj_set2_new fold_nj_set2_from)
  with puts_copy [OF assms(2)] Cons show ?thesis by simp
qed simp

end
