(* ===== verification/Matrix_Storage.thy ===== *)
theory Matrix_Storage
  imports Nlohmann
begin

text \<open>
  The state of the Matrix client and its file, the struct Storage of src/cli_matrix_thread.cpp. The
  sessions of the Olm library are values of unknown types: \<open>'s\<close> for a session with one device, \<open>'i\<close> and \<open>'o\<close>
  for the inbound and outbound sessions of a group; a stored pointer may be null (\<open>None\<close>). Encrypting
  a session for the file (\<open>pickle\<close>) and back are operations of that library, parameters of the model.
\<close>

section \<open>Entries\<close>

record outbound_session_data =
  od_session_id :: string
  od_session_key :: string
  od_message_index :: "64 word"

definition outbound_session_data_json :: "outbound_session_data \<Rightarrow> json" where
  "outbound_session_data_json msg =
     nj_set ''message_index'' (JInt (uint (od_message_index msg)))
       (nj_set ''session_key'' (JString (od_session_key msg))
         (nj_set ''session_id'' (JString (od_session_id msg)) JNull))"

definition json_outbound_session_data :: "nlohmann \<Rightarrow> json \<Rightarrow> outbound_session_data res" where
  "json_outbound_session_data N obj =
     bindr (bindr (nj_at obj ''session_id'') nj_string) (\<lambda>i.
     bindr (bindr (nj_at obj ''session_key'') nj_string) (\<lambda>k.
     bindr (bindr (nj_at obj ''message_index'') (nj_uint64 N)) (\<lambda>n.
       Inr \<lparr>od_session_id = i, od_session_key = k, od_message_index = n\<rparr>)))"

record dev_keys =
  ed25519 :: string
  curve25519 :: string

definition dev_keys_json :: "dev_keys \<Rightarrow> json" where
  "dev_keys_json msg =
     nj_set ''curve25519'' (JString (curve25519 msg)) (nj_set ''ed25519'' (JString (ed25519 msg)) JNull)"

definition json_dev_keys :: "json \<Rightarrow> dev_keys res" where
  "json_dev_keys obj =
     bindr (bindr (nj_at obj ''ed25519'') nj_string) (\<lambda>e.
     bindr (bindr (nj_at obj ''curve25519'') nj_string) (\<lambda>c.
       Inr \<lparr>ed25519 = e, curve25519 = c\<rparr>))"

section \<open>Storage\<close>

record ('s, 'i, 'o) storage =
  device_id :: string
  access_token :: string
  devices :: "(string, string list) cmap"
  device_keys :: "(string, dev_keys) cmap"
  encrypted_rooms :: "(string, bool) cmap"
  members :: "(string, (string, bool) cmap) cmap"
  olm_inbound_sessions :: "(string, 's option) cmap"
  olm_outbound_sessions :: "(string, 's option) cmap"
  inbound_group_sessions :: "(string, 'i option) cmap"
  outbound_group_session_data :: "(string, outbound_session_data) cmap"
  outbound_group_sessions :: "(string, 'o option) cmap"

definition storage_new :: "('s, 'i, 'o) storage" where
  "storage_new = \<lparr> device_id = [], access_token = [], devices = [], device_keys = [],
     encrypted_rooms = [], members = [], olm_inbound_sessions = [], olm_outbound_sessions = [],
     inbound_group_sessions = [], outbound_group_session_data = [], outbound_group_sessions = [] \<rparr>"

definition add_member ::
  "string \<Rightarrow> string \<Rightarrow> ('s, 'i, 'o) storage \<Rightarrow> ('s, 'i, 'o) storage" where
  "add_member room_id user_id s =
     s\<lparr>members := map_put room_id
         (map_put user_id True (case map_of (members s) room_id of Some us \<Rightarrow> us | None \<Rightarrow> []))
         (members s)\<rparr>"

text \<open>The first room, in the order of the identifiers, that both users are members of.\<close>

fun room_of :: "string \<Rightarrow> string \<Rightarrow> (string, (string, bool) cmap) cmap \<Rightarrow> string" where
  "room_of usr1 usr2 [] = []"
| "room_of usr1 usr2 ((room_id, users) # rooms) =
     (if map_of users usr1 \<noteq> None \<and> map_of users usr2 \<noteq> None then room_id
      else room_of usr1 usr2 rooms)"

definition in_room :: "string \<Rightarrow> string \<Rightarrow> ('s, 'i, 'o) storage \<Rightarrow> string" where
  "in_room usr1 usr2 s = room_of usr1 usr2 (members s)"

definition outbound_group_exists :: "string \<Rightarrow> ('s, 'i, 'o) storage \<Rightarrow> bool" where
  "outbound_group_exists room_id s \<longleftrightarrow>
     map_of (outbound_group_sessions s) room_id \<noteq> None \<and>
     map_of (outbound_group_session_data s) room_id \<noteq> None"

definition set_outbound_group_session ::
  "string \<Rightarrow> 'o \<Rightarrow> outbound_session_data \<Rightarrow> ('s, 'i, 'o) storage \<Rightarrow> ('s, 'i, 'o) storage" where
  "set_outbound_group_session room_id session data s =
     s\<lparr>outbound_group_session_data := map_put room_id data (outbound_group_session_data s),
       outbound_group_sessions := map_put room_id (Some session) (outbound_group_sessions s)\<rparr>"

text \<open>Both lookups make an entry when there is none, a null pointer and empty data.\<close>

definition get_outbound_group_session ::
  "string \<Rightarrow> ('s, 'i, 'o) storage
    \<Rightarrow> ('o option \<times> outbound_session_data) \<times> ('s, 'i, 'o) storage" where
  "get_outbound_group_session room_id s =
     (case map_ref room_id None (outbound_group_sessions s) of (session, m1) \<Rightarrow>
      case map_ref room_id \<lparr>od_session_id = [], od_session_key = [], od_message_index = 0\<rparr>
             (outbound_group_session_data s) of (data, m2) \<Rightarrow>
        ((session, data), s\<lparr>outbound_group_sessions := m1, outbound_group_session_data := m2\<rparr>))"

definition group_key :: "string \<Rightarrow> string \<Rightarrow> string \<Rightarrow> string" where
  "group_key room_id session_id sender_key = room_id @ session_id @ sender_key"

definition inbound_group_exists ::
  "string \<Rightarrow> string \<Rightarrow> string \<Rightarrow> ('s, 'i, 'o) storage \<Rightarrow> bool" where
  "inbound_group_exists room_id session_id sender_key s \<longleftrightarrow>
     map_of (inbound_group_sessions s) (group_key room_id session_id sender_key) \<noteq> None"

definition set_inbound_group_session ::
  "string \<Rightarrow> string \<Rightarrow> string \<Rightarrow> 'i \<Rightarrow> ('s, 'i, 'o) storage \<Rightarrow> ('s, 'i, 'o) storage" where
  "set_inbound_group_session room_id session_id sender_key session s =
     s\<lparr>inbound_group_sessions :=
         map_put (group_key room_id session_id sender_key) (Some session) (inbound_group_sessions s)\<rparr>"

definition get_inbound_group_session ::
  "string \<Rightarrow> string \<Rightarrow> string \<Rightarrow> ('s, 'i, 'o) storage \<Rightarrow> 'i option \<times> ('s, 'i, 'o) storage" where
  "get_inbound_group_session room_id session_id sender_key s =
     (case map_ref (group_key room_id session_id sender_key) None (inbound_group_sessions s) of
        (session, m) \<Rightarrow> (session, s\<lparr>inbound_group_sessions := m\<rparr>))"

section \<open>The file\<close>

text \<open>\<open>pickle\<close> of a null pointer is undefined; \<open>unpickle\<close> throws on a text it cannot decrypt.\<close>

record ('s, 'i, 'o) pickles =
  pk_session :: "string \<Rightarrow> 's \<Rightarrow> string"
  pk_inbound :: "string \<Rightarrow> 'i \<Rightarrow> string"
  pk_outbound :: "string \<Rightarrow> 'o \<Rightarrow> string"
  up_session :: "string \<Rightarrow> string \<Rightarrow> 's option"
  up_inbound :: "string \<Rightarrow> string \<Rightarrow> 'i option"
  up_outbound :: "string \<Rightarrow> string \<Rightarrow> 'o option"

definition pickle_ptr :: "('a \<Rightarrow> string) \<Rightarrow> 'a option \<Rightarrow> json res" where
  "pickle_ptr pk p = (case p of None \<Rightarrow> Inl Undefined | Some x \<Rightarrow> Inr (JString (pk x)))"

fun pickle_all :: "string \<Rightarrow> ('a \<Rightarrow> string) \<Rightarrow> (string, 'a option) cmap \<Rightarrow> json \<Rightarrow> json res" where
  "pickle_all g pk [] data = Inr data"
| "pickle_all g pk ((k, p) # m) data =
     bindr (pickle_ptr pk p) (\<lambda>v. pickle_all g pk m (nj_set2 g k v data))"

definition storage_json ::
  "('s, 'i, 'o) pickles \<Rightarrow> string \<Rightarrow> ('s, 'i, 'o) storage \<Rightarrow> json res" where
  "storage_json P key s =
     (let data0 =
        nj_set ''members'' (json_of_map (json_of_map JBool) (members s))
       (nj_set ''encrypted_rooms'' (json_of_map JBool (encrypted_rooms s))
       (nj_set ''device_keys'' (json_of_map dev_keys_json (device_keys s))
       (nj_set ''devices'' (json_of_map (\<lambda>l. JArray (map JString l)) (devices s)) JNull)))
      in bindr (pickle_all ''olm_inbound_sessions'' (pk_session P key) (olm_inbound_sessions s) data0)
           (\<lambda>data1.
         bindr (pickle_all ''olm_outbound_sessions'' (pk_session P key) (olm_outbound_sessions s) data1)
           (\<lambda>data2.
         bindr (pickle_all ''inbound_group_sessions'' (pk_inbound P key) (inbound_group_sessions s) data2)
           (\<lambda>data3.
         bindr (pickle_all ''outbound_group_sessions'' (pk_outbound P key) (outbound_group_sessions s) data3)
           (\<lambda>data4.
             Inr (fold (\<lambda>(k, d). nj_set2 ''outbound_group_session_data'' k
                        (outbound_session_data_json d)) (outbound_group_session_data s) data4))))))"

text \<open>The file is truncated when it is opened, before the text is made.\<close>

definition storage_save ::
  "nlohmann \<Rightarrow> ('s, 'i, 'o) pickles \<Rightarrow> (string \<Rightarrow> bool) \<Rightarrow> string \<Rightarrow> string
    \<Rightarrow> ('s, 'i, 'o) storage \<Rightarrow> files \<Rightarrow> files res" where
  "storage_save N P writable key filename s fs =
     (if \<not> writable filename then Inr fs
      else bindr (storage_json P key s) (\<lambda>data.
        case nl_dump N 2 data of
          None \<Rightarrow> Inl NlohmannError
        | Some text \<Rightarrow> Inr (fs(filename \<mapsto> text))))"

text \<open>A group of sessions of the file, when it is there, is added to the sessions in memory.\<close>

fun unpickle_all ::
  "(string \<Rightarrow> 'a option) \<Rightarrow> (string, string) cmap \<Rightarrow> (string, 'a option) cmap
    \<Rightarrow> (string, 'a option) cmap res" where
  "unpickle_all up [] m = Inr m"
| "unpickle_all up ((k, t) # ts) m =
     (case up t of None \<Rightarrow> Inl OlmError | Some x \<Rightarrow> unpickle_all up ts (map_put k (Some x) m))"

definition load_sessions ::
  "(string \<Rightarrow> 'a option) \<Rightarrow> json \<Rightarrow> string \<Rightarrow> (string, 'a option) cmap
    \<Rightarrow> (string, 'a option) cmap res" where
  "load_sessions up obj g m =
     (if nj_count obj g \<noteq> 0 then
        bindr (bindr (nj_at obj g) (nj_map nj_string)) (\<lambda>sessions. unpickle_all up sessions m)
      else Inr m)"

definition load_group_data ::
  "nlohmann \<Rightarrow> json \<Rightarrow> (string, outbound_session_data) cmap
    \<Rightarrow> (string, outbound_session_data) cmap res" where
  "load_group_data N obj m =
     (if nj_count obj ''outbound_group_session_data'' \<noteq> 0 then
        bindr (bindr (nj_at obj ''outbound_group_session_data'') (nj_map (json_outbound_session_data N)))
          (\<lambda>sessions. Inr (fold (\<lambda>(k, v). map_put k v) sessions m))
      else Inr m)"

text \<open>The exception of a missing identity is caught, after the assignments before it.\<close>

definition load_identity :: "json \<Rightarrow> ('s, 'i, 'o) storage \<Rightarrow> ('s, 'i, 'o) storage" where
  "load_identity obj s =
     (case bindr (nj_at obj ''device_id'') nj_string of
        Inl e \<Rightarrow> s
      | Inr d \<Rightarrow>
          (case bindr (nj_at obj ''access_token'') nj_string of
             Inl e \<Rightarrow> s\<lparr>device_id := d\<rparr>
           | Inr t \<Rightarrow> s\<lparr>device_id := d, access_token := t\<rparr>))"

definition load_json ::
  "nlohmann \<Rightarrow> ('s, 'i, 'o) pickles \<Rightarrow> string \<Rightarrow> json \<Rightarrow> ('s, 'i, 'o) storage
    \<Rightarrow> ('s, 'i, 'o) storage res" where
  "load_json N P key obj s0 =
     (let s = load_identity obj s0 in
      bindr (bindr (nj_at obj ''devices'') (nj_map (nj_vector nj_string))) (\<lambda>dv.
      bindr (bindr (nj_at obj ''device_keys'') (nj_map json_dev_keys)) (\<lambda>dk.
      bindr (bindr (nj_at obj ''encrypted_rooms'') (nj_map nj_bool)) (\<lambda>er.
      bindr (bindr (nj_at obj ''members'') (nj_map (nj_map nj_bool))) (\<lambda>me.
      bindr (load_sessions (up_session P key) obj ''olm_inbound_sessions'' (olm_inbound_sessions s)) (\<lambda>oi.
      bindr (load_sessions (up_session P key) obj ''olm_outbound_sessions'' (olm_outbound_sessions s)) (\<lambda>oo.
      bindr (load_sessions (up_inbound P key) obj ''inbound_group_sessions'' (inbound_group_sessions s)) (\<lambda>ig.
      bindr (load_sessions (up_outbound P key) obj ''outbound_group_sessions'' (outbound_group_sessions s)) (\<lambda>og.
      bindr (load_group_data N obj (outbound_group_session_data s)) (\<lambda>od.
        Inr (s\<lparr>devices := dv, device_keys := dk, encrypted_rooms := er, members := me,
               olm_inbound_sessions := oi, olm_outbound_sessions := oo, inbound_group_sessions := ig,
               outbound_group_sessions := og, outbound_group_session_data := od\<rparr>)))))))))))"

definition storage_load ::
  "nlohmann \<Rightarrow> ('s, 'i, 'o) pickles \<Rightarrow> string \<Rightarrow> string \<Rightarrow> files \<Rightarrow> ('s, 'i, 'o) storage
    \<Rightarrow> ('s, 'i, 'o) storage res" where
  "storage_load N P key filename fs s =
     (case fs filename of
        None \<Rightarrow> Inr s
      | Some db_data \<Rightarrow>
          if db_data = [] then Inr s
          else (case nl_parse N db_data of
                  None \<Rightarrow> Inl NlohmannError
                | Some obj \<Rightarrow> load_json N P key obj s))"

section \<open>What is saved is loaded\<close>

definition nonnull :: "(string, 'a option) cmap \<Rightarrow> bool" where
  "nonnull m \<longleftrightarrow> (\<forall>(k, p)\<in>set m. p \<noteq> None)"

definition storage_ok :: "('s, 'i, 'o) storage \<Rightarrow> bool" where
  "storage_ok s \<longleftrightarrow>
     ordered (devices s) \<and> ordered (device_keys s) \<and> ordered (encrypted_rooms s) \<and>
     ordered (members s) \<and> (\<forall>(k, us)\<in>set (members s). ordered us) \<and>
     ordered (olm_inbound_sessions s) \<and> ordered (olm_outbound_sessions s) \<and>
     ordered (inbound_group_sessions s) \<and> ordered (outbound_group_sessions s) \<and>
     ordered (outbound_group_session_data s)"

definition sessions_ok :: "('s, 'i, 'o) storage \<Rightarrow> bool" where
  "sessions_ok s \<longleftrightarrow>
     nonnull (olm_inbound_sessions s) \<and> nonnull (olm_outbound_sessions s) \<and>
     nonnull (inbound_group_sessions s) \<and> nonnull (outbound_group_sessions s)"

definition pickle_laws :: "('s, 'i, 'o) pickles \<Rightarrow> bool" where
  "pickle_laws P \<longleftrightarrow>
     (\<forall>k x. up_session P k (pk_session P k x) = Some x) \<and>
     (\<forall>k x. up_inbound P k (pk_inbound P k x) = Some x) \<and>
     (\<forall>k x. up_outbound P k (pk_outbound P k x) = Some x)"

text \<open>A group of members that is only there when it is not empty.\<close>

definition nj_group :: "string \<Rightarrow> ('a \<Rightarrow> json) \<Rightarrow> (string, 'a) cmap \<Rightarrow> json \<Rightarrow> json" where
  "nj_group g f m data = (if m = [] then data else nj_set g (json_of_map f m) data)"

lemma members_group [simp]: "map_of (nj_members (nj_group g f m data)) k =
    (if k = g \<and> m \<noteq> [] then Some (json_of_map f m) else map_of (nj_members data) k)"
  by (simp add: nj_group_def)

lemma fold_group:
  assumes "map_of (nj_members data) g = None" and "ordered m"
  shows "fold (\<lambda>(k, v). nj_set2 g k (f v)) m data = nj_group g f m data"
proof -
  have "fold (\<lambda>(k, v). nj_set2 g k (f v)) m data
      = fold (\<lambda>(k, v). nj_set2 g k v) (map (\<lambda>(k, v). (k, f v)) m) data"
    by (induction m arbitrary: data) auto
  then show ?thesis
    using fold_nj_set2 [OF assms(1), of "map (\<lambda>(k, v). (k, f v)) m"] assms(2)
    by (simp add: ordered_map_values nj_group_def json_of_map_def)
qed

lemma pickle_all_eq:
  assumes "nonnull m" and "map_of (nj_members data) g = None" and "ordered m"
  shows "pickle_all g pk m data = Inr (nj_group g (\<lambda>p. JString (pk (the p))) m data)"
proof -
  have "pickle_all g pk m data = Inr (fold (\<lambda>(k, p). nj_set2 g k (JString (pk (the p)))) m data)"
    using assms(1) by (induction m arbitrary: data) (auto simp: nonnull_def pickle_ptr_def)
  with fold_group [OF assms(2,3)] show ?thesis by simp
qed

lemma load_sessions_eq:
  assumes "map_of (nj_members obj) g =
      (if m = [] then None else Some (json_of_map (\<lambda>p. JString (pk (the p))) m))"
    and "nonnull m" and "ordered m" and "\<And>x. up (pk x) = Some x"
  shows "load_sessions up obj g [] = Inr m"
proof -
  have "unpickle_all up (map (\<lambda>(k, p). (k, pk (the p))) m) acc
      = Inr (fold (\<lambda>(k, v). map_put k v) m acc)" for acc
    using assms(2,4) by (induction m arbitrary: acc) (auto simp: nonnull_def)
  moreover have "nj_map nj_string (json_of_map (\<lambda>p. JString (pk (the p))) m)
      = Inr (map (\<lambda>(k, p). (k, pk (the p))) m)"
    by (rule nj_map_of_map) auto
  ultimately show ?thesis
    using assms(1) puts_copy [OF assms(3)]
    by (auto simp: load_sessions_def nj_count_members nj_at_members)
qed

lemma dev_keys_json_back: "json_dev_keys (dev_keys_json k) = Inr k"
  by (simp add: json_dev_keys_def dev_keys_json_def nj_at_members)

lemma session_data_json_back: "json_outbound_session_data N (outbound_session_data_json d) = Inr d"
  by (simp add: json_outbound_session_data_def outbound_session_data_json_def nj_at_members)

lemma nj_ok_dev_keys [simp]: "nj_ok (dev_keys_json k)"
  by (simp add: dev_keys_json_def nj_set_def ordered_def)

lemma nj_ok_session_data [simp]: "nj_ok (outbound_session_data_json d)"
proof -
  have "- (2 ^ 63) \<le> uint (od_message_index d)" by (rule order_trans [OF _ uint_ge_0]) simp
  then show ?thesis
    using uint_lt2p [of "od_message_index d"]
    by (simp add: outbound_session_data_json_def nj_set_def ordered_def)
qed

lemma nj_ok_set [simp]: "nj_ok d \<Longrightarrow> nj_ok v \<Longrightarrow> nj_ok (nj_set k v d)"
proof (cases d)
  case (JObject kvs)
  have "list_all (\<lambda>(k, j). nj_ok j) kvs \<Longrightarrow> nj_ok v \<Longrightarrow> list_all (\<lambda>(k, j). nj_ok j) (map_put k v kvs)"
    by (induction k v kvs rule: map_put.induct) auto
  then show "nj_ok d \<Longrightarrow> nj_ok v \<Longrightarrow> ?thesis" using JObject by (simp add: nj_set_def)
qed (simp_all add: nj_set_def ordered_def)

lemma nj_ok_group [simp]:
  "nj_ok d \<Longrightarrow> ordered m \<Longrightarrow> (\<And>v. nj_ok (f v)) \<Longrightarrow> nj_ok (nj_group g f m d)"
  by (auto simp: nj_group_def)

definition storage_doc :: "('s, 'i, 'o) pickles \<Rightarrow> string \<Rightarrow> ('s, 'i, 'o) storage \<Rightarrow> json" where
  "storage_doc P key s =
     nj_group ''outbound_group_session_data'' outbound_session_data_json (outbound_group_session_data s)
    (nj_group ''outbound_group_sessions'' (\<lambda>p. JString (pk_outbound P key (the p))) (outbound_group_sessions s)
    (nj_group ''inbound_group_sessions'' (\<lambda>p. JString (pk_inbound P key (the p))) (inbound_group_sessions s)
    (nj_group ''olm_outbound_sessions'' (\<lambda>p. JString (pk_session P key (the p))) (olm_outbound_sessions s)
    (nj_group ''olm_inbound_sessions'' (\<lambda>p. JString (pk_session P key (the p))) (olm_inbound_sessions s)
    (nj_set ''members'' (json_of_map (json_of_map JBool) (members s))
    (nj_set ''encrypted_rooms'' (json_of_map JBool (encrypted_rooms s))
    (nj_set ''device_keys'' (json_of_map dev_keys_json (device_keys s))
    (nj_set ''devices'' (json_of_map (\<lambda>l. JArray (map JString l)) (devices s)) JNull))))))))"

lemma storage_json_doc:
  assumes "storage_ok s" and "sessions_ok s"
  shows "storage_json P key s = Inr (storage_doc P key s)"
  using assms
  by (simp add: storage_json_def storage_ok_def sessions_ok_def pickle_all_eq fold_group storage_doc_def Let_def)

lemma storage_doc_ok:
  assumes "storage_ok s"
  shows "nj_ok (storage_doc P key s)"
proof -
  have "nj_ok (json_of_map (json_of_map JBool) (members s))"
    using assms by (auto simp: storage_ok_def)
  moreover have "nj_ok (JArray (map JString l))" for l by (induction l) auto
  ultimately show ?thesis
    using assms by (simp add: storage_doc_def storage_ok_def split_def)
qed

lemma load_identity_doc: "load_identity (storage_doc P key s) s0 = s0"
  by (simp add: load_identity_def nj_at_members storage_doc_def)

lemma load_storage_doc:
  assumes "pickle_laws P" and "storage_ok s" and "sessions_ok s"
  shows "load_json N P key (storage_doc P key s) storage_new
    = Inr (s\<lparr>device_id := [], access_token := []\<rparr>)"
proof -
  let ?d = "storage_doc P key s"
  have "bindr (nj_at ?d ''devices'') (nj_map (nj_vector nj_string)) = Inr (devices s)"
    by (simp add: nj_at_members storage_doc_def nj_map_id)
  moreover have "bindr (nj_at ?d ''device_keys'') (nj_map json_dev_keys) = Inr (device_keys s)"
    by (simp add: nj_at_members storage_doc_def nj_map_id dev_keys_json_back)
  moreover have "bindr (nj_at ?d ''encrypted_rooms'') (nj_map nj_bool) = Inr (encrypted_rooms s)"
    by (simp add: nj_at_members storage_doc_def nj_map_id)
  moreover have "bindr (nj_at ?d ''members'') (nj_map (nj_map nj_bool)) = Inr (members s)"
    by (simp add: nj_at_members storage_doc_def nj_map_id)
  moreover have "load_sessions (up_session P key) ?d ''olm_inbound_sessions'' [] = Inr (olm_inbound_sessions s)"
    and "load_sessions (up_session P key) ?d ''olm_outbound_sessions'' [] = Inr (olm_outbound_sessions s)"
    and "load_sessions (up_inbound P key) ?d ''inbound_group_sessions'' [] = Inr (inbound_group_sessions s)"
    and "load_sessions (up_outbound P key) ?d ''outbound_group_sessions'' [] = Inr (outbound_group_sessions s)"
    using assms
    by (auto intro!: load_sessions_eq simp: storage_doc_def storage_ok_def sessions_ok_def pickle_laws_def)
  moreover have "load_group_data N ?d [] = Inr (outbound_group_session_data s)"
    using assms(2) puts_copy [of "outbound_group_session_data s"]
    by (auto simp: load_group_data_def nj_at_members nj_count_members storage_doc_def nj_map_id
        session_data_json_back storage_ok_def)
  ultimately show ?thesis
    by (simp add: load_json_def load_identity_doc storage_new_def)
qed

lemma save_load:
  assumes "nlohmann_laws N" and "pickle_laws P" and "storage_ok s" and "sessions_ok s"
    and "writable f" and "storage_save N P writable key f s fs = Inr fs'"
  shows "storage_load N P key f fs' storage_new = Inr (s\<lparr>device_id := [], access_token := []\<rparr>)"
proof -
  obtain t where t: "nl_dump N 2 (storage_doc P key s) = Some t" "fs' = fs(f \<mapsto> t)"
    using assms(3-6) by (auto simp: storage_save_def storage_json_doc split: option.splits)
  from nlohmann_lawsD [OF assms(1) storage_doc_ok [OF assms(3)] t(1)]
  show ?thesis
    using t(2) load_storage_doc [OF assms(2-4)] by (simp add: storage_load_def)
qed

end
