(* ===== verification/Matrix_Crypto.thy ===== *)
theory Matrix_Crypto
  imports Matrix_Storage Message
begin

text \<open>
  Encrypted messages of the Matrix client, src/cli_matrix_thread.cpp: receiving the key of a group session
  from another device, keeping the keys of devices, and sending messages. The HTTP client and the Olm
  library are not part of the repository. A call of the HTTP client is an action \<open>Http r\<close>; the callback
  the code gives with the call is a function of its own here, run when the answer comes. The operations
  of the Olm library are the record \<open>olm_lib\<close> over an unknown type \<open>'a\<close> of its client (the account and
  the source of randomness); where the library throws, they return \<open>None\<close>. What a callback captures by
  reference is taken to be alive when it runs. Logging is not modelled, except for what it is told of
  decrypted messages and of signatures that do not verify.
\<close>

definition OLM_ALGO :: string where
  "OLM_ALGO = ''m.olm.v1.curve25519-aes-sha2''"

record room_key =
  rk_room_id :: string
  rk_session_id :: string
  rk_session_key :: string

record ('a, 's, 'i, 'o) olm_lib =
  ol_identity :: "'a \<Rightarrow> dev_keys"
  ol_new_account :: 'a
  ol_load :: "string \<Rightarrow> string \<Rightarrow> 'a option"
  ol_save :: "string \<Rightarrow> 'a \<Rightarrow> string"
  ol_set_ids :: "string \<Rightarrow> string \<Rightarrow> 'a \<Rightarrow> 'a"
  ol_generate_keys :: "nat \<Rightarrow> 'a \<Rightarrow> 'a"
  ol_mark_published :: "'a \<Rightarrow> 'a"
  ol_upload_request :: "'a \<Rightarrow> json"
  ol_create_inbound :: "'a \<Rightarrow> string \<Rightarrow> ('s \<times> 'a) option"
  ol_matches_from :: "'s \<Rightarrow> string \<Rightarrow> string \<Rightarrow> bool"
  ol_decrypt :: "'s \<Rightarrow> 8 word \<Rightarrow> string \<Rightarrow> (string \<times> 's) option"
  ol_init_inbound_group :: "string \<Rightarrow> 'i option"
  ol_decrypt_group :: "'i \<Rightarrow> string \<Rightarrow> (string \<times> 'i) option"
  ol_init_outbound_group :: "'a \<Rightarrow> 'o \<times> 'a"
  ol_session_id :: "'o \<Rightarrow> string"
  ol_session_key :: "'o \<Rightarrow> string"
  ol_encrypt_group :: "'o \<Rightarrow> string \<Rightarrow> (string \<times> 'o) option"
  ol_create_outbound :: "'a \<Rightarrow> string \<Rightarrow> string \<Rightarrow> ('s \<times> 'a) option"
  ol_encrypted_content :: "'a \<Rightarrow> 's \<Rightarrow> room_key \<Rightarrow> string \<Rightarrow> string \<Rightarrow> string \<Rightarrow> (json \<times> 's) option"

record encrypted_msg =
  en_ciphertext :: string
  en_sender_key :: string
  en_session_id :: string
  en_device_id :: string
  en_algorithm :: string

text \<open>The calls of the HTTP client; the callback is told by the constructor.\<close>

datatype mtx_request =
    Login string string
  | UploadKeysFirst json
  | UploadKeys json
  | InitialSync string nat
  | SyncReq string nat
  | QueryKeys string
  | JoinRoom string
  | CreateRoom string string string string
  | InviteUser string string
  | SendRoomMessage string encrypted_msg
  | SendToDevice json
  | ClaimKeys string string room_key

datatype mtx_out =
    Http mtx_request
  | ToMsg message
  | Decrypted string string
  | Unverified string string
  | MtxErrOut string

record ('a, 's, 'i, 'o) mtx_state =
  g_olmclient :: 'a
  g_storage :: "('s, 'i, 'o) storage"
  g_matrix_user :: string
  next_batch_token :: string
  client_device_id :: string
  client_access_token :: string
  client_user_id :: string
  g_matrix_connected :: bool
  g_matrix_shutdown :: bool

text \<open>
  \<open>me_verify\<close>: \<open>verify_identity_signature\<close> of a device of a user, \<open>None\<close> when it throws;
  \<open>me_timeout\<close>: \<open>g_matrix_sync_timeout\<close>; \<open>me_default_timeout\<close>: the timeout of a fresh SyncOpts.
\<close>

record query_device =
  qd_device_id :: string
  qd_keys :: "(string, string) cmap"

record ('a, 's, 'i, 'o) mtx_env =
  me_json :: nlohmann
  me_olm :: "('a, 's, 'i, 'o) olm_lib"
  me_pickles :: "('s, 'i, 'o) pickles"
  me_verify :: "query_device \<Rightarrow> string \<Rightarrow> string \<Rightarrow> bool option"
  me_timeout :: nat
  me_default_timeout :: nat

section \<open>Receiving a room key\<close>

record olm_cipher_content =
  cc_body :: string
  cc_type :: "8 word"

definition json_olm_cipher_content :: "nlohmann \<Rightarrow> json \<Rightarrow> olm_cipher_content res" where
  "json_olm_cipher_content N obj =
     bindr (bindr (nj_at obj ''body'') nj_string) (\<lambda>b.
     bindr (bindr (nj_at obj ''type'') (nj_uint8 N)) (\<lambda>t.
       Inr \<lparr>cc_body = b, cc_type = t\<rparr>))"

record olm_message =
  om_sender_key :: string
  om_sender :: string
  om_ciphertext :: "(string, olm_cipher_content) cmap"

definition json_olm_message :: "nlohmann \<Rightarrow> json \<Rightarrow> olm_message res" where
  "json_olm_message N obj =
     bindr (nj_at obj ''type'') (\<lambda>ty.
       if ty \<noteq> JString ''m.room.encrypted'' then Inl StdInvalidArgument
       else
         bindr (bindr (nj_at obj ''content'') (\<lambda>c. nj_at c ''algorithm'')) (\<lambda>al.
           if al \<noteq> JString OLM_ALGO then Inl StdInvalidArgument
           else
             bindr (bindr (nj_at obj ''sender'') nj_string) (\<lambda>sd.
             bindr (bindr (bindr (nj_at obj ''content'') (\<lambda>c. nj_at c ''sender_key'')) nj_string) (\<lambda>sk.
             bindr (bindr (bindr (nj_at obj ''content'') (\<lambda>c. nj_at c ''ciphertext''))
                      (nj_map (json_olm_cipher_content N))) (\<lambda>ct.
               Inr \<lparr>om_sender_key = sk, om_sender = sd, om_ciphertext = ct\<rparr>)))))"

text \<open>The room key in a decrypted payload.\<close>

definition json_room_key :: "json \<Rightarrow> room_key res" where
  "json_room_key plaintext =
     bindr (bindr (bindr (nj_at plaintext ''content'') (\<lambda>c. nj_at c ''room_id'')) nj_string) (\<lambda>r.
     bindr (bindr (bindr (nj_at plaintext ''content'') (\<lambda>c. nj_at c ''session_id'')) nj_string) (\<lambda>i.
     bindr (bindr (bindr (nj_at plaintext ''content'') (\<lambda>c. nj_at c ''session_key'')) nj_string) (\<lambda>k.
       Inr \<lparr>rk_room_id = r, rk_session_id = i, rk_session_key = k\<rparr>)))"

text \<open>An operation that may throw after it has changed the state: the error, and the state it leaves.\<close>

type_synonym 'st effect = "error option \<times> 'st"

definition save_room_key ::
  "('a, 's, 'i, 'o) mtx_env \<Rightarrow> string \<Rightarrow> room_key \<Rightarrow> ('a, 's, 'i, 'o) mtx_state
    \<Rightarrow> ('a, 's, 'i, 'o) mtx_state effect" where
  "save_room_key E sender_key rk st =
     (if inbound_group_exists (rk_room_id rk) (rk_session_id rk) sender_key (g_storage st) then (None, st)
      else case ol_init_inbound_group (me_olm E) (rk_session_key rk) of
        None \<Rightarrow> (Some OlmError, st)
      | Some session \<Rightarrow>
          (None, st\<lparr>g_storage := set_inbound_group_session (rk_room_id rk) (rk_session_id rk)
                      sender_key session (g_storage st)\<rparr>))"

definition open_olm_session ::
  "('a, 's, 'i, 'o) mtx_env \<Rightarrow> string \<Rightarrow> string \<Rightarrow> ('a, 's, 'i, 'o) mtx_state
    \<Rightarrow> ('a, 's, 'i, 'o) mtx_state effect" where
  "open_olm_session E sender_key msg_body st =
     (case ol_create_inbound (me_olm E) (g_olmclient st) msg_body of
        None \<Rightarrow> (Some OlmError, st)
      | Some (session, a) \<Rightarrow>
          let st1 = st\<lparr>g_olmclient := a\<rparr> in
          if \<not> ol_matches_from (me_olm E) session sender_key msg_body then (None, st1)
          else case ol_decrypt (me_olm E) session 0 msg_body of
            None \<Rightarrow> (Some OlmError, st1)
          | Some (output, session') \<Rightarrow>
              (case nl_parse (me_json E) output of
                 None \<Rightarrow> (Some NlohmannError, st1)
               | Some plaintext \<Rightarrow>
                   let st2 = st1\<lparr>g_storage := (g_storage st1)\<lparr>olm_inbound_sessions :=
                               map_emplace sender_key (Some session')
                                 (olm_inbound_sessions (g_storage st1))\<rparr>\<rparr>
                   in case json_room_key plaintext of
                        Inl e \<Rightarrow> (Some e, st2)
                      | Inr rk \<Rightarrow> save_room_key E sender_key rk st2))"

fun decrypt_loop ::
  "('a, 's, 'i, 'o) mtx_env \<Rightarrow> string \<Rightarrow> string \<Rightarrow> (string \<times> olm_cipher_content) list
    \<Rightarrow> ('a, 's, 'i, 'o) mtx_state \<Rightarrow> ('a, 's, 'i, 'o) mtx_state effect" where
  "decrypt_loop E my_id_key sender_key [] st = (None, st)"
| "decrypt_loop E my_id_key sender_key ((k, c) # cs) st =
     (if k = my_id_key \<and> cc_type c = 0 then
        (case open_olm_session E sender_key (cc_body c) st of
           (Some e, st') \<Rightarrow> (Some e, st')
         | (None, st') \<Rightarrow> decrypt_loop E my_id_key sender_key cs st')
      else decrypt_loop E my_id_key sender_key cs st)"

definition decrypt_olm_message ::
  "('a, 's, 'i, 'o) mtx_env \<Rightarrow> olm_message \<Rightarrow> ('a, 's, 'i, 'o) mtx_state
    \<Rightarrow> ('a, 's, 'i, 'o) mtx_state effect" where
  "decrypt_olm_message E m st =
     decrypt_loop E (curve25519 (ol_identity (me_olm E) (g_olmclient st))) (om_sender_key m)
       (om_ciphertext m) st"

text \<open>The exceptions of the JSON library and std::invalid_argument are caught and logged.\<close>

definition caught :: "error \<Rightarrow> bool" where
  "caught e \<longleftrightarrow> e = NlohmannError \<or> e = StdInvalidArgument"

definition handle_to_device_msg ::
  "('a, 's, 'i, 'o) mtx_env \<Rightarrow> json \<Rightarrow> ('a, 's, 'i, 'o) mtx_state
    \<Rightarrow> ('a, 's, 'i, 'o) mtx_state res" where
  "handle_to_device_msg E msg st =
     (case (case json_olm_message (me_json E) msg of
              Inl e \<Rightarrow> (Some e, st)
            | Inr m \<Rightarrow> decrypt_olm_message E m st) of
        (None, st') \<Rightarrow> Inr st'
      | (Some e, st') \<Rightarrow> if caught e then Inr st' else Inl e)"

fun handle_to_device_msgs ::
  "('a, 's, 'i, 'o) mtx_env \<Rightarrow> json list \<Rightarrow> ('a, 's, 'i, 'o) mtx_state
    \<Rightarrow> ('a, 's, 'i, 'o) mtx_state res" where
  "handle_to_device_msgs E [] st = Inr st"
| "handle_to_device_msgs E (m # ms) st =
     bindr (handle_to_device_msg E m st) (\<lambda>st'. handle_to_device_msgs E ms st')"

section \<open>Keys of devices\<close>

definition mark_encrypted_room ::
  "string \<Rightarrow> ('a, 's, 'i, 'o) mtx_state \<Rightarrow> ('a, 's, 'i, 'o) mtx_state" where
  "mark_encrypted_room room st =
     st\<lparr>g_storage := (g_storage st)\<lparr>encrypted_rooms := map_put room True (encrypted_rooms (g_storage st))\<rparr>\<rparr>"

text \<open>The key of a device is kept once it is known, and the device is then one of its user's.\<close>

fun save_device_loop ::
  "(string \<times> query_device) list \<Rightarrow> (string, dev_keys) cmap \<Rightarrow> string list
    \<Rightarrow> ((string, dev_keys) cmap \<times> string list) res" where
  "save_device_loop [] ks device_list = Inr (ks, device_list)"
| "save_device_loop ((d, q) # qs) ks device_list =
     (let dev = qd_device_id q in
      case map_of (qd_keys q) (''curve25519:'' @ dev) of
        None \<Rightarrow> save_device_loop qs ks device_list
      | Some key \<Rightarrow>
          if map_of ks dev = None then
            (case map_of (qd_keys q) (''ed25519:'' @ dev) of
               None \<Rightarrow> Inl StdOutOfRange
             | Some e \<Rightarrow>
                 save_device_loop qs (map_put dev \<lparr>ed25519 = e, curve25519 = key\<rparr> ks)
                   (device_list @ [dev]))
          else save_device_loop qs ks (device_list @ [dev]))"

fun save_device_keys ::
  "(string, (string, query_device) cmap) cmap \<Rightarrow> ('s, 'i, 'o) storage \<Rightarrow> ('s, 'i, 'o) storage res" where
  "save_device_keys [] s = Inr s"
| "save_device_keys ((user_id, qs) # us) s =
     bindr (save_device_loop qs (device_keys s) []) (\<lambda>(ks, device_list).
       save_device_keys us
         (s\<lparr>device_keys := ks, devices := map_put user_id device_list (devices s)\<rparr>))"

definition get_device_keys :: "string \<Rightarrow> mtx_out" where
  "get_device_keys user = Http (QueryKeys user)"

text \<open>A signature that does not verify is logged.\<close>

definition unverified ::
  "('a, 's, 'i, 'o) mtx_env \<Rightarrow> (string, (string, query_device) cmap) cmap \<Rightarrow> mtx_out list" where
  "unverified E res =
     concat (map (\<lambda>(user_id, qs).
       concat (map (\<lambda>(d, q).
         if me_verify E q d user_id = Some True then [] else [Unverified user_id d]) qs)) res)"

definition device_keys_cb ::
  "('a, 's, 'i, 'o) mtx_env \<Rightarrow> (string, (string, query_device) cmap) cmap
    \<Rightarrow> ('a, 's, 'i, 'o) mtx_state \<Rightarrow> (('a, 's, 'i, 'o) mtx_state \<times> mtx_out list) res" where
  "device_keys_cb E res st =
     bindr (save_device_keys res (g_storage st)) (\<lambda>s.
       Inr (st\<lparr>g_storage := s\<rparr>, unverified E res))"

section \<open>Sending\<close>

definition message_json :: "string \<Rightarrow> string \<Rightarrow> json" where
  "message_json room_id msg =
     nj_braces
       [nj_braces [JString ''type'', JString ''m.room.message''],
        nj_braces [JString ''content'',
          nj_braces [nj_braces [JString ''type'', JString ''m.text''],
                     nj_braces [JString ''body'', JString msg]]],
        nj_braces [JString ''room_id'', JString room_id]]"

text \<open>The session is changed in place: the result is the session after the message and the request.\<close>

definition send_group_message ::
  "('a, 's, 'i, 'o) mtx_env \<Rightarrow> ('a, 's, 'i, 'o) mtx_state \<Rightarrow> 'o option \<Rightarrow> string \<Rightarrow> string \<Rightarrow> string
    \<Rightarrow> ('o \<times> mtx_out) res" where
  "send_group_message E st session session_id room_id msg =
     (case nl_dump (me_json E) (- 1) (message_json room_id msg) of
        None \<Rightarrow> Inl NlohmannError
      | Some doc \<Rightarrow>
          (case session of
             None \<Rightarrow> Inl Undefined
           | Some ses \<Rightarrow>
               (case ol_encrypt_group (me_olm E) ses doc of
                  None \<Rightarrow> Inl OlmError
                | Some (payload, ses') \<Rightarrow>
                  Inr (ses', Http (SendRoomMessage room_id
                    \<lparr> en_ciphertext = payload,
                      en_sender_key = curve25519 (ol_identity (me_olm E) (g_olmclient st)),
                      en_session_id = session_id, en_device_id = client_device_id st,
                      en_algorithm = OLM_ALGO \<rparr>)))))"

definition dev_keys_empty :: dev_keys where
  "dev_keys_empty = \<lparr>ed25519 = [], curve25519 = []\<rparr>"

text \<open>
  The body of a to-device message as the two places in the code build it from braced lists: with the
  entry of the member, a pair, and with the name of the member.
\<close>

definition to_device_body :: "json \<Rightarrow> string \<Rightarrow> json \<Rightarrow> json" where
  "to_device_body m dev device_msg =
     nj_braces [nj_braces [JString ''messages'',
       nj_braces [nj_braces [m, nj_braces [nj_braces [JString dev, device_msg]]]]]]"

definition pair_json :: "string \<times> bool \<Rightarrow> json" where
  "pair_json p = JArray [JString (fst p), JBool (snd p)]"

text \<open>One device of a member: a known session encrypts the room key, otherwise a key is claimed.\<close>

definition share_with_device ::
  "('a, 's, 'i, 'o) mtx_env \<Rightarrow> room_key \<Rightarrow> string \<times> bool \<Rightarrow> string
    \<Rightarrow> ('a, 's, 'i, 'o) mtx_state \<Rightarrow> (('a, 's, 'i, 'o) mtx_state \<times> mtx_out list) res" where
  "share_with_device E payload m dev st =
     (case map_ref dev dev_keys_empty (device_keys (g_storage st)) of (keys, ks) \<Rightarrow>
      let s1 = (g_storage st)\<lparr>device_keys := ks\<rparr> in
      case map_of (olm_outbound_sessions s1) (curve25519 keys) of
        Some None \<Rightarrow> Inl Undefined
      | Some (Some session) \<Rightarrow>
          (case ol_encrypted_content (me_olm E) (g_olmclient st) session payload (fst m)
                  (ed25519 keys) (curve25519 keys) of
             None \<Rightarrow> Inl OlmError
           | Some (device_msg, session') \<Rightarrow>
             Inr (st\<lparr>g_storage := s1\<lparr>olm_outbound_sessions :=
                       map_put (curve25519 keys) (Some session') (olm_outbound_sessions s1)\<rparr>\<rparr>,
                  [Http (SendToDevice (to_device_body (pair_json m) dev device_msg))]))
      | None \<Rightarrow> Inr (st\<lparr>g_storage := s1\<rparr>, [Http (ClaimKeys (fst m) dev payload)]))"

fun share_with_devices ::
  "('a, 's, 'i, 'o) mtx_env \<Rightarrow> room_key \<Rightarrow> string \<times> bool \<Rightarrow> string list
    \<Rightarrow> ('a, 's, 'i, 'o) mtx_state \<Rightarrow> (('a, 's, 'i, 'o) mtx_state \<times> mtx_out list) res" where
  "share_with_devices E payload m [] st = Inr (st, [])"
| "share_with_devices E payload m (dev # devs) st =
     bindr (share_with_device E payload m dev st) (\<lambda>(st1, out1).
     bindr (share_with_devices E payload m devs st1) (\<lambda>(st2, out2). Inr (st2, out1 @ out2)))"

fun share_with_members ::
  "('a, 's, 'i, 'o) mtx_env \<Rightarrow> room_key \<Rightarrow> (string \<times> bool) list
    \<Rightarrow> ('a, 's, 'i, 'o) mtx_state \<Rightarrow> (('a, 's, 'i, 'o) mtx_state \<times> mtx_out list) res" where
  "share_with_members E payload [] st = Inr (st, [])"
| "share_with_members E payload (m # ms) st =
     (case map_ref (fst m) [] (devices (g_storage st)) of (devs, ds) \<Rightarrow>
      bindr (share_with_devices E payload m devs
               (st\<lparr>g_storage := (g_storage st)\<lparr>devices := ds\<rparr>\<rparr>)) (\<lambda>(st1, out1).
      bindr (share_with_members E payload ms st1) (\<lambda>(st2, out2). Inr (st2, out1 @ out2))))"

definition create_outbound_megolm_session ::
  "('a, 's, 'i, 'o) mtx_env \<Rightarrow> string \<Rightarrow> string \<Rightarrow> ('a, 's, 'i, 'o) mtx_state
    \<Rightarrow> (('a, 's, 'i, 'o) mtx_state \<times> mtx_out list) res" where
  "create_outbound_megolm_session E room_id msg st0 =
     (case ol_init_outbound_group (me_olm E) (g_olmclient st0) of (session, a) \<Rightarrow>
      let st = st0\<lparr>g_olmclient := a\<rparr>;
          i = ol_session_id (me_olm E) session;
          k = ol_session_key (me_olm E) session;
          payload = \<lparr>rk_room_id = room_id, rk_session_id = i, rk_session_key = k\<rparr>
      in case map_of (members (g_storage st)) room_id of
           None \<Rightarrow> Inr (st, [])
         | Some ms \<Rightarrow>
             bindr (share_with_members E payload ms st) (\<lambda>(st1, out1).
             bindr (send_group_message E st1 (Some session) i room_id msg) (\<lambda>(session', req).
               Inr (st1\<lparr>g_storage := set_outbound_group_session room_id session'
                          \<lparr>od_session_id = i, od_session_key = k, od_message_index = 0\<rparr> (g_storage st1)\<rparr>,
                    out1 @ [req]))))"

text \<open>\<open>begin()->at("key")\<close>: the first member, which must be there.\<close>

fun nj_first :: "json \<Rightarrow> json res" where
  "nj_first (JObject ((k, j) # kvs)) = Inr j"
| "nj_first (JObject []) = Inl Undefined"
| "nj_first (JArray (j # js)) = Inr j"
| "nj_first (JArray []) = Inl Undefined"
| "nj_first JNull = Inl NlohmannError"
| "nj_first j = Inr j"

fun claimed_loop ::
  "('a, 's, 'i, 'o) mtx_env \<Rightarrow> string \<Rightarrow> string \<Rightarrow> room_key \<Rightarrow> (string \<times> json) list
    \<Rightarrow> ('a, 's, 'i, 'o) mtx_state \<Rightarrow> (('a, 's, 'i, 'o) mtx_state \<times> mtx_out list) res" where
  "claimed_loop E m dev payload [] st = Inr (st, [])"
| "claimed_loop E m dev payload ((d, j) # rds) st =
     bindr (bindr (nj_first j) (\<lambda>k. nj_at k ''key'')) (\<lambda>otk.
     case map_ref dev dev_keys_empty (device_keys (g_storage st)) of (keys, ks) \<Rightarrow>
     bindr (nj_string otk) (\<lambda>key.
       case ol_create_outbound (me_olm E) (g_olmclient st) (curve25519 keys) key of
         None \<Rightarrow> Inl OlmError
       | Some (session, a) \<Rightarrow>
           (case ol_encrypted_content (me_olm E) a session payload m (ed25519 keys) (curve25519 keys) of
              None \<Rightarrow> Inl OlmError
            | Some (device_msg, session') \<Rightarrow>
                let st1 = st\<lparr>g_olmclient := a, g_storage := (g_storage st)\<lparr>device_keys := ks,
                            olm_outbound_sessions := map_put (curve25519 keys) (Some session')
                              (olm_outbound_sessions (g_storage st))\<rparr>\<rparr>
                in bindr (claimed_loop E m dev payload rds st1) (\<lambda>(st2, out2).
                     Inr (st2, Http (SendToDevice (to_device_body (JString m) dev device_msg)) # out2)))))"

definition claimed_keys_cb ::
  "('a, 's, 'i, 'o) mtx_env \<Rightarrow> string \<Rightarrow> string \<Rightarrow> room_key
    \<Rightarrow> (string, (string, json) cmap) cmap
    \<Rightarrow> ('a, 's, 'i, 'o) mtx_state \<Rightarrow> (('a, 's, 'i, 'o) mtx_state \<times> mtx_out list) res" where
  "claimed_keys_cb E m dev payload one_time_keys st =
     (case map_of one_time_keys m of
        None \<Rightarrow> Inl StdOutOfRange
      | Some rds \<Rightarrow> claimed_loop E m dev payload rds st)"

text \<open>\<open>print_errors\<close> reads the error without asking whether there is one.\<close>

record mtx_error =
  err_status_code :: nat
  err_matrix_error :: string

definition print_errors :: "mtx_error option \<Rightarrow> unit res" where
  "print_errors err = (if err = None then Inl Undefined else Inr ())"

definition invite_room ::
  "string \<Rightarrow> string \<Rightarrow> string \<Rightarrow> ('a, 's, 'i, 'o) mtx_state \<Rightarrow> mtx_out" where
  "invite_room usr ad msg st =
     Http (CreateRoom (''Conversation between '' @ g_matrix_user st @ '' and '' @ usr) ad usr msg)"

text \<open>The callback of the new room; it logs the error first, whether there is one or not.\<close>

definition create_room_cb ::
  "('a, 's, 'i, 'o) mtx_env \<Rightarrow> string \<Rightarrow> string \<Rightarrow> string \<Rightarrow> mtx_error option
    \<Rightarrow> ('a, 's, 'i, 'o) mtx_state \<Rightarrow> (('a, 's, 'i, 'o) mtx_state \<times> mtx_out list) res" where
  "create_room_cb E usr msg room_id err st =
     bindr (print_errors err) (\<lambda>_.
     bindr (create_outbound_megolm_session E room_id msg st) (\<lambda>(st', out).
       Inr (st', Http (InviteUser room_id usr) # out)))"

definition matrix_message ::
  "('a, 's, 'i, 'o) mtx_env \<Rightarrow> string \<Rightarrow> string \<Rightarrow> string \<Rightarrow> ('a, 's, 'i, 'o) mtx_state
    \<Rightarrow> (('a, 's, 'i, 'o) mtx_state \<times> mtx_out list) res" where
  "matrix_message E usr ad msg st =
     (let room_id = in_room (g_matrix_user st) usr (g_storage st) in
      if room_id = [] then Inr (st, [invite_room usr ad msg st])
      else case get_outbound_group_session room_id (g_storage st) of ((session, data), s1) \<Rightarrow>
        bindr (send_group_message E st session (od_session_id data) room_id msg) (\<lambda>(session', req).
          Inr (st\<lparr>g_storage := s1\<lparr>outbound_group_sessions :=
                    map_put room_id (Some session') (outbound_group_sessions s1)\<rparr>\<rparr>, [req])))"

end
