(* ===== verification/Matrix_Thread.thy ===== *)
theory Matrix_Thread
  imports Matrix_Crypto
begin

text \<open>
  The Matrix client as a machine, src/cli_matrix_thread.cpp: the callbacks of login, key upload and sync,
  the start and the end of the thread, and one turn, in which a pending call is answered, the user
  sends a message, or the main thread asks the client to stop. The state of a turn is the client's state
  with the calls that are pending; the login ends, and with it the thread, when there are none left.
\<close>

section \<open>Responses\<close>

datatype room_event =
    EncryptionEvent
  | MemberEvent string
  | EncryptedEvent string string string
  | OtherEvent

record joined_room =
  jr_state :: "room_event list"
  jr_timeline :: "room_event list"

record sync_response =
  rs_invite :: "string list"
  rs_to_device :: "json list"
  rs_key_counts :: "(string, nat) cmap"
  rs_join :: "(string, joined_room) cmap"
  rs_next_batch :: string

section \<open>Messages of a sync\<close>

text \<open>Fewer than 50 one-time keys on the server are made up for.\<close>

fun top_up_keys ::
  "('a, 's, 'i, 'o) mtx_env \<Rightarrow> (string \<times> nat) list \<Rightarrow> ('a, 's, 'i, 'o) mtx_state
    \<Rightarrow> ('a, 's, 'i, 'o) mtx_state \<times> mtx_out list" where
  "top_up_keys E [] st = (st, [])"
| "top_up_keys E ((alg, n) # ns) st =
     (if n < 50 then
        (let st1 = st\<lparr>g_olmclient := ol_generate_keys (me_olm E) (50 - n) (g_olmclient st)\<rparr>;
             req = Http (UploadKeys (ol_upload_request (me_olm E) (g_olmclient st1)))
         in case top_up_keys E ns st1 of (st2, out) \<Rightarrow> (st2, req # out))
      else top_up_keys E ns st)"

definition member_event ::
  "string \<Rightarrow> string \<Rightarrow> ('a, 's, 'i, 'o) mtx_state \<Rightarrow> ('a, 's, 'i, 'o) mtx_state \<times> mtx_out list" where
  "member_event room_id user st =
     (st\<lparr>g_storage := add_member room_id user (g_storage st)\<rparr>, [get_device_keys user])"

definition encrypted_event ::
  "('a, 's, 'i, 'o) mtx_env \<Rightarrow> string \<Rightarrow> string \<Rightarrow> string \<Rightarrow> string \<Rightarrow> ('a, 's, 'i, 'o) mtx_state
    \<Rightarrow> (('a, 's, 'i, 'o) mtx_state \<times> mtx_out list) res" where
  "encrypted_event E room_id session_id sender_key ciphertext st =
     (if inbound_group_exists room_id session_id sender_key (g_storage st) then
        (case get_inbound_group_session room_id session_id sender_key (g_storage st) of
           (None, s) \<Rightarrow> Inl Undefined
         | (Some session, s) \<Rightarrow>
             (case ol_decrypt_group (me_olm E) session ciphertext of
                None \<Rightarrow> Inl OlmError
              | Some (data, session') \<Rightarrow>
                  (case nl_parse (me_json E) data of
                     None \<Rightarrow> Inl NlohmannError
                   | Some j \<Rightarrow>
                       bindr (bindr (bindr (nj_at j ''content'') (\<lambda>c. nj_at c ''body'')) nj_string)
                         (\<lambda>body. Inr
                           (st\<lparr>g_storage :=
                              set_inbound_group_session room_id session_id sender_key session' s\<rparr>,
                            [Decrypted room_id body])))))
      else Inr (st, []))"

text \<open>An event of a room's state or timeline; the state holds no encrypted events.\<close>

fun timeline_event ::
  "('a, 's, 'i, 'o) mtx_env \<Rightarrow> string \<Rightarrow> room_event \<Rightarrow> ('a, 's, 'i, 'o) mtx_state
    \<Rightarrow> (('a, 's, 'i, 'o) mtx_state \<times> mtx_out list) res" where
  "timeline_event E room_id EncryptionEvent st = Inr (mark_encrypted_room room_id st, [])"
| "timeline_event E room_id (MemberEvent user) st = Inr (member_event room_id user st)"
| "timeline_event E room_id (EncryptedEvent i k c) st = encrypted_event E room_id i k c st"
| "timeline_event E room_id OtherEvent st = Inr (st, [])"

definition state_event ::
  "('a, 's, 'i, 'o) mtx_env \<Rightarrow> string \<Rightarrow> room_event \<Rightarrow> ('a, 's, 'i, 'o) mtx_state
    \<Rightarrow> (('a, 's, 'i, 'o) mtx_state \<times> mtx_out list) res" where
  "state_event E room_id e st =
     (case e of EncryptedEvent i k c \<Rightarrow> Inr (st, []) | _ \<Rightarrow> timeline_event E room_id e st)"

definition join_event ::
  "('a, 's, 'i, 'o) mtx_env \<Rightarrow> string \<times> joined_room \<Rightarrow> ('a, 's, 'i, 'o) mtx_state
    \<Rightarrow> (('a, 's, 'i, 'o) mtx_state \<times> mtx_out list) res" where
  "join_event E r st =
     bindr (run_machine (state_event E (fst r)) (jr_state (snd r)) st) (\<lambda>(st1, out1).
     bindr (run_machine (timeline_event E (fst r)) (jr_timeline (snd r)) st1) (\<lambda>(st2, out2).
       Inr (st2, out1 @ out2)))"

definition parse_messages ::
  "('a, 's, 'i, 'o) mtx_env \<Rightarrow> sync_response \<Rightarrow> ('a, 's, 'i, 'o) mtx_state
    \<Rightarrow> (('a, 's, 'i, 'o) mtx_state \<times> mtx_out list) res" where
  "parse_messages E res st =
     (let out1 = map (\<lambda>room_id. Http (JoinRoom room_id)) (rs_invite res) in
      bindr (handle_to_device_msgs E (rs_to_device res) st) (\<lambda>st1.
      case top_up_keys E (rs_key_counts res) st1 of (st2, out2) \<Rightarrow>
      bindr (run_machine (join_event E) (rs_join res) st2) (\<lambda>(st3, out3).
        Inr (st3, out1 @ out2 @ out3 @ [ToMsg [''parsed_messages'']]))))"

section \<open>Callbacks of sync and login\<close>

text \<open>What both handlers do with a response: handle it, remember its token and sync again from there.\<close>

definition sync_again ::
  "('a, 's, 'i, 'o) mtx_env \<Rightarrow> string \<Rightarrow> ('a, 's, 'i, 'o) mtx_state
    \<Rightarrow> ('a, 's, 'i, 'o) mtx_state \<times> mtx_out list" where
  "sync_again E token st =
     (st\<lparr>next_batch_token := token\<rparr>, [Http (SyncReq token (me_timeout E))])"

definition sync_handler ::
  "('a, 's, 'i, 'o) mtx_env \<Rightarrow> sync_response \<Rightarrow> mtx_error option \<Rightarrow> ('a, 's, 'i, 'o) mtx_state
    \<Rightarrow> (('a, 's, 'i, 'o) mtx_state \<times> mtx_out list) res" where
  "sync_handler E res err st =
     (if err \<noteq> None then Inr (st, [Http (SyncReq (next_batch_token st) (me_default_timeout E))])
      else if g_matrix_shutdown st then Inr (st, [])
      else
        bindr (parse_messages E res st) (\<lambda>(st1, out1).
        case sync_again E (rs_next_batch res) st1 of (st2, out2) \<Rightarrow> Inr (st2, out1 @ out2)))"

text \<open>The members of the rooms are added once more.\<close>

fun initial_member ::
  "string \<Rightarrow> room_event \<Rightarrow> ('a, 's, 'i, 'o) mtx_state
    \<Rightarrow> (('a, 's, 'i, 'o) mtx_state \<times> mtx_out list) res" where
  "initial_member room_id (MemberEvent user) st = Inr (member_event room_id user st)"
| "initial_member room_id e st = Inr (st, [])"

definition initial_sync_handler ::
  "('a, 's, 'i, 'o) mtx_env \<Rightarrow> sync_response \<Rightarrow> mtx_error option \<Rightarrow> ('a, 's, 'i, 'o) mtx_state
    \<Rightarrow> (('a, 's, 'i, 'o) mtx_state \<times> mtx_out list) res" where
  "initial_sync_handler E res err st =
     (case err of
        Some e \<Rightarrow> Inr (st, if err_status_code e \<noteq> 200 then [Http (InitialSync [] 0)] else [])
      | None \<Rightarrow>
          if g_matrix_shutdown st then Inr (st, [])
          else
            bindr (parse_messages E res st) (\<lambda>(st1, out1).
            bindr (run_machine (\<lambda>r. run_machine (initial_member (fst r)) (jr_state (snd r)))
                     (rs_join res) st1) (\<lambda>(st2, out2).
            case sync_again E (rs_next_batch res) st2 of (st3, out3) \<Rightarrow>
              Inr (st3, out1 @ out2 @ out3))))"

definition keys_uploaded_cb ::
  "('a, 's, 'i, 'o) mtx_env \<Rightarrow> mtx_error option \<Rightarrow> ('a, 's, 'i, 'o) mtx_state
    \<Rightarrow> ('a, 's, 'i, 'o) mtx_state" where
  "keys_uploaded_cb E err st =
     (if err \<noteq> None then st
      else st\<lparr>g_olmclient := ol_mark_published (me_olm E) (g_olmclient st)\<rparr>)"

definition first_keys_uploaded ::
  "('a, 's, 'i, 'o) mtx_env \<Rightarrow> mtx_error option \<Rightarrow> ('a, 's, 'i, 'o) mtx_state
    \<Rightarrow> ('a, 's, 'i, 'o) mtx_state \<times> mtx_out list" where
  "first_keys_uploaded E err st =
     (if err \<noteq> None then (st, [])
      else (keys_uploaded_cb E err st, [Http (InitialSync [] 0)]))"

text \<open>The identity of the client: the stored one when there is one, otherwise the one of this login.\<close>

definition login_identity :: "('a, 's, 'i, 'o) mtx_state \<Rightarrow> ('a, 's, 'i, 'o) mtx_state" where
  "login_identity st =
     (if device_id (g_storage st) \<noteq> [] \<and> access_token (g_storage st) \<noteq> [] then
        st\<lparr>client_device_id := device_id (g_storage st),
           client_access_token := access_token (g_storage st)\<rparr>
      else
        st\<lparr>g_storage := (g_storage st)\<lparr>device_id := client_device_id st,
                          access_token := client_access_token st\<rparr>\<rparr>)"

definition login_cb ::
  "('a, 's, 'i, 'o) mtx_env \<Rightarrow> mtx_error option \<Rightarrow> ('a, 's, 'i, 'o) mtx_state
    \<Rightarrow> ('a, 's, 'i, 'o) mtx_state \<times> mtx_out list" where
  "login_cb E err st =
     (case err of
        Some e \<Rightarrow>
          (st, if err_matrix_error e \<noteq> [] then [MtxErrOut (err_matrix_error e @ [CHR 0x0A])] else [])
      | None \<Rightarrow>
          let st1 = login_identity st;
              a = ol_generate_keys (me_olm E) 50
                    (ol_set_ids (me_olm E) (client_user_id st1) (client_device_id st1) (g_olmclient st1))
          in (st1\<lparr>g_olmclient := a\<rparr>, [Http (UploadKeysFirst (ol_upload_request (me_olm E) a))]))"

section \<open>Start and end of the thread\<close>

definition account_file :: "string \<Rightarrow> string \<Rightarrow> string" where
  "account_file username server = ''piac-matrix-@'' @ username @ '':'' @ server @ ''.account.json''"

definition session_file :: "string \<Rightarrow> string \<Rightarrow> string" where
  "session_file username server = ''piac-matrix-@'' @ username @ '':'' @ server @ ''.session.json''"

text \<open>The host and the port of the server; whatever \<open>stoi\<close> throws is caught.\<close>

definition server_port :: "string \<Rightarrow> (string \<times> int) option" where
  "server_port server =
     (case split server '':'' of (host, prt) \<Rightarrow>
        if prt = [] then Some (host, 443)
        else (case stoi prt of Inl e \<Rightarrow> None | Inr p \<Rightarrow> Some (host, p)))"

text \<open>A known account is loaded with its sessions; these are added to what \<open>g_storage\<close> holds.\<close>

definition load_account ::
  "('a, 's, 'i, 'o) mtx_env \<Rightarrow> files \<Rightarrow> string \<Rightarrow> string \<Rightarrow> string \<Rightarrow> ('a, 's, 'i, 'o) mtx_state
    \<Rightarrow> ('a, 's, 'i, 'o) mtx_state res" where
  "load_account E fs username server db_key st =
     (let db_data = (case fs (account_file username server) of None \<Rightarrow> [] | Some t \<Rightarrow> t) in
      if db_data = [] then Inr (st\<lparr>g_olmclient := ol_new_account (me_olm E)\<rparr>)
      else case nl_parse (me_json E) db_data of
        None \<Rightarrow> Inl NlohmannError
      | Some j \<Rightarrow>
          bindr (bindr (nj_at j ''account'') nj_string) (\<lambda>acc.
            case ol_load (me_olm E) acc db_key of
              None \<Rightarrow> Inl OlmError
            | Some a \<Rightarrow>
                bindr (storage_load (me_json E) (me_pickles E) db_key (session_file username server) fs
                         (g_storage st)) (\<lambda>s. Inr (st\<lparr>g_olmclient := a, g_storage := s\<rparr>))))"

text \<open>The flag of the result says whether the thread goes on to the login.\<close>

definition matrix_start ::
  "('a, 's, 'i, 'o) mtx_env \<Rightarrow> files \<Rightarrow> string \<Rightarrow> string \<Rightarrow> string \<Rightarrow> string
    \<Rightarrow> ('a, 's, 'i, 'o) mtx_state \<Rightarrow> (('a, 's, 'i, 'o) mtx_state \<times> mtx_out list \<times> bool) res" where
  "matrix_start E fs server username password db_key st =
     (if g_matrix_connected st then Inr (st, [], False)
      else case server_port server of
        None \<Rightarrow> Inr (st, [MtxErrOut (''invalid <host>:<port> format'' @ [CHR 0x0A])], False)
      | Some (host, port) \<Rightarrow>
          bindr (load_account E fs username server db_key
                  (st\<lparr>g_matrix_user := ''@'' @ username @ '':'' @ host, next_batch_token := [],
                      client_device_id := [], client_access_token := [], client_user_id := []\<rparr>)) (\<lambda>st1.
            Inr (st1\<lparr>g_matrix_connected := True\<rparr>, [Http (Login username password)], True)))"

definition save_account ::
  "('a, 's, 'i, 'o) mtx_env \<Rightarrow> (string \<Rightarrow> bool) \<Rightarrow> string \<Rightarrow> string \<Rightarrow> 'a \<Rightarrow> files \<Rightarrow> files res" where
  "save_account E writable filename db_key a fs =
     (if \<not> writable filename then Inr fs
      else case nl_dump (me_json E) 2 (nj_set ''account'' (JString (ol_save (me_olm E) db_key a)) JNull) of
        None \<Rightarrow> Inl NlohmannError
      | Some text \<Rightarrow> Inr (fs(filename \<mapsto> text)))"

text \<open>
  The message thread is told before the files are written, so it is told whether or not writing them throws,
  which is the last part of the result.
\<close>

definition matrix_end ::
  "('a, 's, 'i, 'o) mtx_env \<Rightarrow> (string \<Rightarrow> bool) \<Rightarrow> string \<Rightarrow> string \<Rightarrow> string \<Rightarrow> files
    \<Rightarrow> ('a, 's, 'i, 'o) mtx_state \<Rightarrow> ('a, 's, 'i, 'o) mtx_state \<times> mtx_out list \<times> files res" where
  "matrix_end E writable username server db_key fs st =
     (st\<lparr>g_matrix_connected := False, g_matrix_shutdown := False\<rparr>, [ToMsg [''SHUTDOWN'']],
      bindr (storage_save (me_json E) (me_pickles E) writable db_key (session_file username server)
               (g_storage st) fs)
        (save_account E writable (account_file username server) db_key (g_olmclient st)))"

section \<open>Turns\<close>

datatype mtx_answer =
    AnsLogin string string string
  | AnsSync sync_response
  | AnsKeys "(string, (string, query_device) cmap) cmap"
  | AnsClaim "(string, (string, json) cmap) cmap"
  | AnsRoom string
  | AnsDone

definition no_response :: sync_response where
  "no_response = \<lparr>rs_invite = [], rs_to_device = [], rs_key_counts = [], rs_join = [], rs_next_batch = []\<rparr>"

text \<open>
  The callback of a call, on an error or an answer. At a login the HTTP client takes the identity of
  the answer before it runs the callback. The other callbacks only log.
\<close>

definition mtx_answered ::
  "('a, 's, 'i, 'o) mtx_env \<Rightarrow> mtx_request \<Rightarrow> mtx_error + mtx_answer \<Rightarrow> ('a, 's, 'i, 'o) mtx_state
    \<Rightarrow> (('a, 's, 'i, 'o) mtx_state \<times> mtx_out list) res" where
  "mtx_answered E r a st =
     (case r of
        Login u p \<Rightarrow>
          (case a of
             Inl e \<Rightarrow> Inr (login_cb E (Some e) st)
           | Inr (AnsLogin d t n) \<Rightarrow>
               Inr (login_cb E None
                 (st\<lparr>client_device_id := d, client_access_token := t, client_user_id := n\<rparr>))
           | _ \<Rightarrow> Inr (st, []))
      | UploadKeysFirst j \<Rightarrow> Inr (first_keys_uploaded E (case a of Inl e \<Rightarrow> Some e | Inr x \<Rightarrow> None) st)
      | UploadKeys j \<Rightarrow> Inr (keys_uploaded_cb E (case a of Inl e \<Rightarrow> Some e | Inr x \<Rightarrow> None) st, [])
      | InitialSync s n \<Rightarrow>
          (case a of
             Inl e \<Rightarrow> initial_sync_handler E no_response (Some e) st
           | Inr (AnsSync res) \<Rightarrow> initial_sync_handler E res None st
           | _ \<Rightarrow> Inr (st, []))
      | SyncReq s n \<Rightarrow>
          (case a of
             Inl e \<Rightarrow> sync_handler E no_response (Some e) st
           | Inr (AnsSync res) \<Rightarrow> sync_handler E res None st
           | _ \<Rightarrow> Inr (st, []))
      | QueryKeys u \<Rightarrow>
          (case a of Inr (AnsKeys res) \<Rightarrow> device_keys_cb E res st | _ \<Rightarrow> Inr (st, []))
      | CreateRoom nm ad usr msg \<Rightarrow>
          (case a of
             Inl e \<Rightarrow> create_room_cb E usr msg [] (Some e) st
           | Inr (AnsRoom room) \<Rightarrow> create_room_cb E usr msg room None st
           | _ \<Rightarrow> Inr (st, []))
      | ClaimKeys m dev payload \<Rightarrow>
          (case a of Inr (AnsClaim ks) \<Rightarrow> claimed_keys_cb E m dev payload ks st | _ \<Rightarrow> Inr (st, []))
      | _ \<Rightarrow> Inr (st, []))"

definition requests_of :: "mtx_out list \<Rightarrow> mtx_request list" where
  "requests_of out = concat (map (\<lambda>x. case x of Http r \<Rightarrow> [r] | _ \<Rightarrow> []) out)"

datatype mtx_event =
    Answer mtx_request "mtx_error + mtx_answer"
  | UserMessage string string string
  | AskShutdown

definition mtx_turn ::
  "('a, 's, 'i, 'o) mtx_env \<Rightarrow> mtx_event \<Rightarrow> ('a, 's, 'i, 'o) mtx_state \<times> mtx_request list
    \<Rightarrow> ((('a, 's, 'i, 'o) mtx_state \<times> mtx_request list) \<times> mtx_out list) res" where
  "mtx_turn E ev c =
     (case c of (st, pending) \<Rightarrow>
      (case ev of
         Answer r a \<Rightarrow>
           if r \<in> set pending then
             bindr (mtx_answered E r a st) (\<lambda>(st', out).
               Inr ((st', remove1 r pending @ requests_of out), out))
           else Inr (c, [])
       | UserMessage usr ad msg \<Rightarrow>
           bindr (matrix_message E usr ad msg st) (\<lambda>(st', out).
             Inr ((st', pending @ requests_of out), out))
       | AskShutdown \<Rightarrow> Inr ((st\<lparr>g_matrix_shutdown := True\<rparr>, pending), [])))"

end
