(* ===== verification/Message_Thread.thy ===== *)
theory Message_Thread
  imports Message
begin

text \<open>
  The thread of the client that hears from the Matrix thread, src/cli_message_thread.cpp. An event is
  what one poll brings: a message or a time-out. When the events end before the thread does, it still
  polls (\<open>Blocked\<close>).
\<close>

definition msg_handle_mtx :: "message \<Rightarrow> bool \<Rightarrow> bool res" where
  "msg_handle_mtx msg to_shutdown =
     bindr (msg_get msg) (\<lambda>(s, msg'). Inr (if s = ''SHUTDOWN'' then True else to_shutdown))"

fun message_loop :: "message option list \<Rightarrow> bool \<Rightarrow> message option list res" where
  "message_loop evs True = Inr evs"
| "message_loop [] False = Inl Blocked"
| "message_loop (None # evs) False = message_loop evs False"
| "message_loop (Some msg # evs) False = bindr (msg_handle_mtx msg False) (message_loop evs)"

definition message_thread :: "message option list \<Rightarrow> message option list res" where
  "message_thread evs = message_loop evs False"

text \<open>The thread ends with the first message SHUTDOWN and does not look at what follows.\<close>

lemma message_thread_ends:
  assumes "\<forall>e\<in>set evs. \<forall>m. e = Some m \<longrightarrow> m \<noteq> [] \<and> hd m \<noteq> ''SHUTDOWN''"
  shows "message_thread (evs @ Some (''SHUTDOWN'' # parts) # rest) = Inr rest"
  using assms unfolding message_thread_def
proof (induction evs)
  case (Cons e evs)
  then show ?case
  proof (cases e)
    case (Some m)
    then show ?thesis using Cons by (cases m) (auto simp: msg_handle_mtx_def)
  qed simp
qed (simp add: msg_handle_mtx_def)

lemma message_thread_waits:
  assumes "\<forall>e\<in>set evs. \<forall>m. e = Some m \<longrightarrow> m \<noteq> [] \<and> hd m \<noteq> ''SHUTDOWN''"
  shows "message_thread evs = Inl Blocked"
  using assms unfolding message_thread_def
proof (induction evs)
  case (Cons e evs)
  then show ?case
  proof (cases e)
    case (Some m)
    then show ?thesis using Cons by (cases m) (auto simp: msg_handle_mtx_def)
  qed simp
qed simp

end
