(* ===== verification/Matrix_Protocol.thy ===== *)
theory Matrix_Protocol
  imports Matrix_Thread Message_Thread
begin

text \<open>
  What every turn of the Matrix client keeps: the storage is well formed and holds no null session, every
  device listed for a user has its keys, keys once known never change, at most one call of the chain
  login - upload - sync is pending, and a pending sync starts where the last response ended.
\<close>

section \<open>Steps of the storage\<close>

definition devices_known :: "('s, 'i, 'o) storage \<Rightarrow> bool" where
  "devices_known s \<longleftrightarrow>
     (\<forall>u ds. map_of (devices s) u = Some ds \<longrightarrow> set ds \<subseteq> dom (map_of (device_keys s)))"

definition storage_step :: "('s, 'i, 'o) storage \<Rightarrow> ('s, 'i, 'o) storage \<Rightarrow> bool" where
  "storage_step s s' \<longleftrightarrow>
     (storage_ok s \<longrightarrow> storage_ok s') \<and> (sessions_ok s \<longrightarrow> sessions_ok s') \<and>
     (devices_known s \<longrightarrow> devices_known s') \<and>
     map_of (device_keys s) \<subseteq>\<^sub>m map_of (device_keys s')"

lemma known_mono:
  assumes "devices_known s" and "map_of (device_keys s) \<subseteq>\<^sub>m map_of (device_keys s')"
    and "\<And>v ds. map_of (devices s') v = Some ds \<Longrightarrow>
      map_of (devices s) v = Some ds \<or> set ds \<subseteq> dom (map_of (device_keys s'))"
  shows "devices_known s'"
  using assms(1,3) map_le_implies_dom_le [OF assms(2)] unfolding devices_known_def by blast

lemma step_refl [simp]: "storage_step s s"
  by (simp add: storage_step_def)

lemma step_trans: "storage_step s s' \<Longrightarrow> storage_step s' s'' \<Longrightarrow> storage_step s s''"
  by (auto simp: storage_step_def intro: map_le_trans)

lemma map_le_upd_new: "m k = None \<Longrightarrow> m \<subseteq>\<^sub>m m(k \<mapsto> v)"
  by (auto simp: map_le_def)

lemma set_map_put: "set (map_put k v m) \<subseteq> insert (k, v) (set m)"
  by (induction k v m rule: map_put.induct) auto

lemma nonnull_put [simp]: "nonnull m \<Longrightarrow> nonnull (map_put k (Some x) m)"
  using set_map_put [of k "Some x" m] by (auto simp: nonnull_def)

lemma nonnull_emplace [simp]: "nonnull m \<Longrightarrow> nonnull (map_emplace k (Some x) m)"
  by (simp add: map_emplace_def)

lemma devices_known_update [simp]:
  "devices_known (s\<lparr>device_id := x1\<rparr>) = devices_known s"
  "devices_known (s\<lparr>access_token := x1\<rparr>) = devices_known s"
  "devices_known (s\<lparr>encrypted_rooms := x2\<rparr>) = devices_known s"
  "devices_known (s\<lparr>members := x3\<rparr>) = devices_known s"
  "devices_known (s\<lparr>olm_inbound_sessions := x4\<rparr>) = devices_known s"
  "devices_known (s\<lparr>olm_outbound_sessions := x4\<rparr>) = devices_known s"
  "devices_known (s\<lparr>inbound_group_sessions := x5\<rparr>) = devices_known s"
  "devices_known (s\<lparr>outbound_group_session_data := x6\<rparr>) = devices_known s"
  "devices_known (s\<lparr>outbound_group_sessions := x7\<rparr>) = devices_known s"
  by (simp_all add: devices_known_def)

lemmas storage_defs = storage_step_def storage_ok_def sessions_ok_def

lemma step_olm_inbound [simp]:
  "storage_step s (s\<lparr>olm_inbound_sessions := map_emplace k (Some x) (olm_inbound_sessions s)\<rparr>)"
  by (simp add: storage_defs)

lemma step_olm_outbound [simp]:
  "storage_step s (s\<lparr>olm_outbound_sessions := map_put k (Some x) (olm_outbound_sessions s)\<rparr>)"
  by (simp add: storage_defs)

lemma step_inbound_group [simp]: "storage_step s (set_inbound_group_session r i k x s)"
  by (simp add: storage_defs set_inbound_group_session_def)

lemma step_outbound_group [simp]: "storage_step s (set_outbound_group_session r x d s)"
  by (simp add: storage_defs set_outbound_group_session_def)

lemma step_encrypted_rooms [simp]:
  "storage_step s (s\<lparr>encrypted_rooms := map_put k b (encrypted_rooms s)\<rparr>)"
  by (simp add: storage_defs)

lemma step_add_member [simp]: "storage_step s (add_member r u s)"
proof -
  have "\<forall>(k, us)\<in>set (members s). ordered us \<Longrightarrow> ordered m \<Longrightarrow>
      \<forall>(k, us)\<in>set (map_put r m (members s)). ordered us" for m
    using set_map_put [of r m "members s"] by auto
  moreover have "\<forall>(k, us)\<in>set (members s). ordered us \<Longrightarrow>
      ordered (map_put u True (case map_of (members s) r of Some us \<Rightarrow> us | None \<Rightarrow> []))"
    by (cases "map_of (members s) r") (fastforce dest: map_of_SomeD)+
  ultimately show ?thesis by (simp add: storage_defs add_member_def) blast
qed

lemma step_identity [simp]: "storage_step s (s\<lparr>device_id := d, access_token := t\<rparr>)"
  by (simp add: storage_defs)

lemma step_ref_devices:
  assumes "map_ref u [] (devices s) = (ds, m)"
  shows "storage_step s (s\<lparr>devices := m\<rparr>)"
proof -
  have "devices_known s \<Longrightarrow> devices_known (s\<lparr>devices := m\<rparr>)"
    by (erule known_mono) (use assms in \<open>auto simp: map_ref_def split: option.splits if_splits\<close>)
  then show ?thesis using assms
    by (auto simp: storage_step_def storage_ok_def sessions_ok_def map_ref_def split: option.splits)
qed

lemma step_ref_keys:
  assumes "map_ref d dev_keys_empty (device_keys s) = (k, m)"
  shows "storage_step s (s\<lparr>device_keys := m\<rparr>)"
proof -
  have le: "map_of (device_keys s) \<subseteq>\<^sub>m map_of m"
    using assms by (auto simp: map_ref_def map_le_def split: option.splits)
  then have "devices_known s \<Longrightarrow> devices_known (s\<lparr>device_keys := m\<rparr>)"
    by (auto elim: known_mono)
  with le show ?thesis using assms
    by (auto simp: storage_step_def storage_ok_def sessions_ok_def map_ref_def split: option.splits)
qed

section \<open>Calm operations\<close>

text \<open>The calls that lead from one sync to the next.\<close>

fun is_chain :: "mtx_request \<Rightarrow> bool" where
  "is_chain (Login u p) \<longleftrightarrow> True"
| "is_chain (UploadKeysFirst j) \<longleftrightarrow> True"
| "is_chain (InitialSync s n) \<longleftrightarrow> True"
| "is_chain (SyncReq s n) \<longleftrightarrow> True"
| "is_chain r \<longleftrightarrow> False"

fun quiet :: "mtx_out \<Rightarrow> bool" where
  "quiet (Http r) \<longleftrightarrow> \<not> is_chain r"
| "quiet (ToMsg m) \<longleftrightarrow> m = [''parsed_messages'']"
| "quiet x \<longleftrightarrow> True"

definition calm :: "('a, 's, 'i, 'o) mtx_state \<Rightarrow> ('a, 's, 'i, 'o) mtx_state \<Rightarrow> mtx_out list \<Rightarrow> bool" where
  "calm st st' out \<longleftrightarrow>
     storage_step (g_storage st) (g_storage st') \<and>
     next_batch_token st' = next_batch_token st \<and> g_matrix_shutdown st' = g_matrix_shutdown st \<and>
     list_all quiet out"

lemma calm_refl [simp]: "calm st st [] "
  by (simp add: calm_def)

lemma calm_trans: "calm st st1 out1 \<Longrightarrow> calm st1 st2 out2 \<Longrightarrow> calm st st2 (out1 @ out2)"
  by (auto simp: calm_def intro: step_trans)

interpretation calm: run_relation calm
  by unfold_locales (simp_all add: calm_trans)

lemma calm_storage: "storage_step (g_storage st) s \<Longrightarrow> list_all quiet out \<Longrightarrow> calm st (st\<lparr>g_storage := s\<rparr>) out"
  by (simp add: calm_def)

text \<open>Receiving room keys.\<close>

lemma save_room_key_calm: "calm st (snd (save_room_key E k rk st)) []"
  by (auto simp: save_room_key_def calm_def split: option.splits)

lemma open_olm_session_calm: "calm st (snd (open_olm_session E k b st)) []"
proof -
  let ?st = "\<lambda>a x. st\<lparr>g_olmclient := a, g_storage := (g_storage st)\<lparr>olm_inbound_sessions :=
    map_emplace k (Some x) (olm_inbound_sessions (g_storage st))\<rparr>\<rparr>"
  have 1: "calm st (?st a x) []" for a x by (simp add: calm_def)
  have 2: "calm st (snd (save_room_key E k rk (?st a x))) []" for a x rk
    using calm_trans [OF 1 save_room_key_calm] by simp
  have 3: "calm st (st\<lparr>g_olmclient := a\<rparr>) []" for a by (simp add: calm_def)
  show ?thesis
    unfolding open_olm_session_def Let_def
    by (simp split: option.split prod.split sum.split if_split add: 1 2 3)
qed

lemma decrypt_loop_calm: "calm st (snd (decrypt_loop E my k cs st)) []"
proof (induction E my k cs st rule: decrypt_loop.induct)
  case (2 E my k d c cs st)
  show ?case
  proof (cases "open_olm_session E k (cc_body c) st")
    case (Pair e st1)
    then have "calm st st1 []" using open_olm_session_calm [of st E k "cc_body c"] by simp
    with 2 Pair show ?thesis
      using calm_trans [of st st1 "[]" _ "[]"] by (auto split: option.splits)
  qed
qed simp

lemma decrypt_olm_calm: "decrypt_olm_message E m st = (e, st') \<Longrightarrow> calm st st' []"
  using decrypt_loop_calm [of st E "curve25519 (ol_identity (me_olm E) (g_olmclient st))" "om_sender_key m"
      "om_ciphertext m"]
  by (simp add: decrypt_olm_message_def)

lemma handle_to_device_calm: "handle_to_device_msg E m st = Inr st' \<Longrightarrow> calm st st' []"
  by (auto simp: handle_to_device_msg_def split: sum.splits prod.splits option.splits if_splits
      dest: decrypt_olm_calm)

lemma handle_to_devices_calm: "handle_to_device_msgs E ms st = Inr st' \<Longrightarrow> calm st st' []"
proof (induction E ms st rule: handle_to_device_msgs.induct)
  case (2 E m ms st)
  then obtain st1 where "handle_to_device_msg E m st = Inr st1" "calm st1 st' []"
    by (auto simp: bindr_Inr_conv)
  with handle_to_device_calm calm_trans [of st st1 "[]" st' "[]"] show ?case by fastforce
qed simp

text \<open>Keys of devices.\<close>

lemma save_device_loop_keeps:
  assumes "save_device_loop qs ks l = Inr (ks', l')"
  shows "(ordered ks \<longrightarrow> ordered ks') \<and> map_of ks \<subseteq>\<^sub>m map_of ks' \<and>
    (set l \<subseteq> dom (map_of ks) \<longrightarrow> set l' \<subseteq> dom (map_of ks'))"
  using assms
proof (induction qs ks l rule: save_device_loop.induct)
  case (2 d q qs ks l)
  let ?dev = "qd_device_id q"
  consider "map_of (qd_keys q) (''curve25519:'' @ ?dev) = None"
    | key e where "map_of (qd_keys q) (''curve25519:'' @ ?dev) = Some key" "map_of ks ?dev = None"
        "map_of (qd_keys q) (''ed25519:'' @ ?dev) = Some e"
    | key k where "map_of (qd_keys q) (''curve25519:'' @ ?dev) = Some key" "map_of ks ?dev = Some k"
    using 2(4) by (fastforce simp: Let_def split: option.splits if_splits)
  then show ?case
  proof cases
    case 1
    with 2 show ?thesis by (simp add: Let_def)
  next
    case c: (2 key e)
    let ?ks = "map_put ?dev \<lparr>ed25519 = e, curve25519 = key\<rparr> ks"
    have "save_device_loop qs ?ks (l @ [?dev]) = Inr (ks', l')"
      using "2.prems" c by (simp add: Let_def)
    from "2.IH"(2) [OF refl c(1,2,3) this]
    have ih: "ordered ?ks \<longrightarrow> ordered ks'" "map_of ?ks \<subseteq>\<^sub>m map_of ks'"
      "set (l @ [?dev]) \<subseteq> dom (map_of ?ks) \<longrightarrow> set l' \<subseteq> dom (map_of ks')" by blast+
    have "map_of ks \<subseteq>\<^sub>m map_of ?ks" using c(2) by (simp add: map_le_upd_new)
    with ih(2) have "map_of ks \<subseteq>\<^sub>m map_of ks'" using map_le_trans by blast
    with ih(1,3) show ?thesis by (auto simp del: map_of_put) auto
  next
    case c: (3 key k)
    then have "save_device_loop qs ks (l @ [?dev]) = Inr (ks', l')"
      using "2.prems" by (simp add: Let_def)
    from "2.IH"(3) [OF refl c(1) _ this] c(2) show ?thesis by auto
  qed
qed simp

lemma save_device_keys_step: "save_device_keys us s = Inr s' \<Longrightarrow> storage_step s s'"
proof (induction us arbitrary: s)
  case (Cons x us)
  obtain u qs where x: "x = (u, qs)" by fastforce
  then obtain ks l where l: "save_device_loop qs (device_keys s) [] = Inr (ks, l)"
    and s': "save_device_keys us (s\<lparr>device_keys := ks, devices := map_put u l (devices s)\<rparr>) = Inr s'"
    using Cons.prems by (auto simp: bindr_Inr_conv)
  have k: "ordered (device_keys s) \<longrightarrow> ordered ks" "map_of (device_keys s) \<subseteq>\<^sub>m map_of ks"
    "set l \<subseteq> dom (map_of ks)"
    using save_device_loop_keeps [OF l] by auto
  have "devices_known s \<Longrightarrow> devices_known (s\<lparr>device_keys := ks, devices := map_put u l (devices s)\<rparr>)"
    by (erule known_mono) (use k in \<open>auto split: if_splits\<close>)
  with k have "storage_step s (s\<lparr>device_keys := ks, devices := map_put u l (devices s)\<rparr>)"
    by (auto simp: storage_step_def storage_ok_def sessions_ok_def)
  with Cons.IH [OF s'] show ?case by (rule step_trans [rotated])
qed simp

lemma device_keys_calm: "device_keys_cb E res st = Inr (st', out) \<Longrightarrow> calm st st' out"
proof -
  have "list_all quiet (unverified E res)"
    by (auto simp: unverified_def list_all_iff split: if_splits)
  then show "device_keys_cb E res st = Inr (st', out) \<Longrightarrow> calm st st' out"
    by (auto simp: device_keys_cb_def bindr_Inr_conv intro!: calm_storage save_device_keys_step)
qed

text \<open>Sending.\<close>

lemma send_group_message_quiet:
  "send_group_message E st ses i r m = Inr (ses', req) \<Longrightarrow> quiet req"
  by (auto simp: send_group_message_def split: option.splits)

lemma share_with_device_calm:
  assumes "share_with_device E p m dev st = Inr (st', out)"
  shows "calm st st' out"
proof -
  obtain keys ks where r: "map_ref dev dev_keys_empty (device_keys (g_storage st)) = (keys, ks)"
    by fastforce
  let ?s = "(g_storage st)\<lparr>device_keys := ks\<rparr>"
  have 1: "storage_step (g_storage st) ?s" using step_ref_keys [OF r] .
  have "storage_step ?s (?s\<lparr>olm_outbound_sessions := map_put k (Some x) (olm_outbound_sessions ?s)\<rparr>)" for k x
    by (rule step_olm_outbound)
  with 1 have "storage_step (g_storage st)
      (?s\<lparr>olm_outbound_sessions := map_put k (Some x) (olm_outbound_sessions ?s)\<rparr>)" for k x
    by (rule step_trans)
  with 1 r show ?thesis
    using assms by (auto simp: share_with_device_def calm_def Let_def split: option.splits)
qed

lemma share_with_devices_calm: "share_with_devices E p m ds st = Inr (st', out) \<Longrightarrow> calm st st' out"
proof (induction E p m ds st arbitrary: out rule: share_with_devices.induct)
  case (2 E p m d ds st)
  then obtain st1 o1 o2 where "share_with_device E p m d st = Inr (st1, o1)" "calm st1 st' o2"
    "out = o1 @ o2"
    by (fastforce simp: bindr_Inr_conv)
  then show ?case by (blast intro: calm_trans share_with_device_calm)
qed simp

lemma share_with_members_calm: "share_with_members E p ms st = Inr (st', out) \<Longrightarrow> calm st st' out"
proof (induction E p ms st arbitrary: out rule: share_with_members.induct)
  case (2 E p m ms st)
  obtain ds devs where r: "map_ref (fst m) [] (devices (g_storage st)) = (devs, ds)" by fastforce
  let ?st = "st\<lparr>g_storage := (g_storage st)\<lparr>devices := ds\<rparr>\<rparr>"
  from 2 r obtain st1 o1 o2 where 1: "share_with_devices E p m devs ?st = Inr (st1, o1)"
    and 2: "calm st1 st' o2" "out = o1 @ o2"
    by (fastforce simp: bindr_Inr_conv)
  have "calm st ?st []" using step_ref_devices [OF r] by (simp add: calm_storage)
  with share_with_devices_calm [OF 1] have "calm st st1 o1" using calm_trans by fastforce
  with 2 show ?case using calm_trans by blast
qed simp

lemma create_outbound_calm:
  assumes "create_outbound_megolm_session E r m st = Inr (st', out)"
  shows "calm st st' out"
proof -
  obtain ses a where i: "ol_init_outbound_group (me_olm E) (g_olmclient st) = (ses, a)" by fastforce
  let ?st = "st\<lparr>g_olmclient := a\<rparr>"
  have 0: "calm st ?st []" by (simp add: calm_def)
  show ?thesis
  proof (cases "map_of (members (g_storage st)) r")
    case None
    then show ?thesis using assms i 0 by (simp add: create_outbound_megolm_session_def Let_def)
  next
    case (Some ms)
    let ?p = "\<lparr>rk_room_id = r, rk_session_id = ol_session_id (me_olm E) ses,
        rk_session_key = ol_session_key (me_olm E) ses\<rparr>"
    obtain st1 o1 ses' req where 1: "share_with_members E ?p ms ?st = Inr (st1, o1)"
      and 2: "send_group_message E st1 (Some ses) (ol_session_id (me_olm E) ses) r m = Inr (ses', req)"
      and 3: "out = o1 @ [req]" "\<exists>d. st' = st1\<lparr>g_storage := set_outbound_group_session r ses' d (g_storage st1)\<rparr>"
      using assms i Some by (fastforce simp: create_outbound_megolm_session_def Let_def bindr_Inr_conv)
    have "calm st1 st' [req]"
      using 3(2) send_group_message_quiet [OF 2] by (auto simp: calm_def)
    with calm_trans [OF 0 share_with_members_calm [OF 1]] show ?thesis
      using calm_trans 3(1) by fastforce
  qed
qed

lemma claimed_loop_Cons:
  assumes "claimed_loop E m dev p ((d, j) # rds) st = Inr (st', out)"
  obtains keys ks key ses a body ses' o2 where
    "map_ref dev dev_keys_empty (device_keys (g_storage st)) = (keys, ks)"
    "ol_create_outbound (me_olm E) (g_olmclient st) (curve25519 keys) key = Some (ses, a)"
    "ol_encrypted_content (me_olm E) a ses p m (ed25519 keys) (curve25519 keys) = Some (body, ses')"
    "claimed_loop E m dev p rds (st\<lparr>g_olmclient := a, g_storage := (g_storage st)\<lparr>device_keys := ks,
       olm_outbound_sessions := map_put (curve25519 keys) (Some ses') (olm_outbound_sessions (g_storage st))\<rparr>\<rparr>)
     = Inr (st', o2)"
    "out = Http (SendToDevice (to_device_body (JString m) dev body)) # o2"
proof -
  obtain keys ks where r: "map_ref dev dev_keys_empty (device_keys (g_storage st)) = (keys, ks)" by fastforce
  obtain otk key where k: "bindr (nj_first j) (\<lambda>k. nj_at k ''key'') = Inr otk" "nj_string otk = Inr key"
    using assms r by (auto simp: bindr_Inr_conv)
  obtain ses a where a: "ol_create_outbound (me_olm E) (g_olmclient st) (curve25519 keys) key = Some (ses, a)"
    using assms r k by (cases "ol_create_outbound (me_olm E) (g_olmclient st) (curve25519 keys) key") auto
  obtain body ses' where c: "ol_encrypted_content (me_olm E) a ses p m (ed25519 keys) (curve25519 keys) = Some (body, ses')"
    using assms r k a by (cases "ol_encrypted_content (me_olm E) a ses p m (ed25519 keys) (curve25519 keys)") auto
  show thesis using that [OF r a c] assms r k a c by (auto simp: bindr_Inr_conv)
qed

lemma claimed_loop_calm: "claimed_loop E m dev p rds st = Inr (st', out) \<Longrightarrow> calm st st' out"
proof (induction rds arbitrary: st out)
  case (Cons x rds)
  obtain d j where x: "x = (d, j)" by fastforce
  from Cons.prems [unfolded x] show ?case
  proof (rule claimed_loop_Cons)
    fix keys ks key ses a body ses' o2
    assume r: "map_ref dev dev_keys_empty (device_keys (g_storage st)) = (keys, ks)"
      and s: "claimed_loop E m dev p rds (st\<lparr>g_olmclient := a, g_storage := (g_storage st)\<lparr>device_keys := ks,
        olm_outbound_sessions := map_put (curve25519 keys) (Some ses') (olm_outbound_sessions (g_storage st))\<rparr>\<rparr>)
        = Inr (st', o2)"
      and out: "out = Http (SendToDevice (to_device_body (JString m) dev body)) # o2"
    let ?s = "(g_storage st)\<lparr>device_keys := ks, olm_outbound_sessions :=
      map_put (curve25519 keys) (Some ses') (olm_outbound_sessions (g_storage st))\<rparr>"
    have "storage_step (g_storage st) ?s"
      using step_trans [OF step_ref_keys [OF r] step_olm_outbound] by simp
    then have "calm st (st\<lparr>g_olmclient := a, g_storage := ?s\<rparr>)
        [Http (SendToDevice (to_device_body (JString m) dev body))]"
      by (simp add: calm_def)
    from calm_trans [OF this Cons.IH [OF s]] out show "calm st st' out" by simp
  qed
qed simp

lemma claimed_keys_calm: "claimed_keys_cb E m dev p ks st = Inr (st', out) \<Longrightarrow> calm st st' out"
  by (auto simp: claimed_keys_cb_def split: option.splits dest: claimed_loop_calm)

lemma create_room_calm: "create_room_cb E usr m r err st = Inr (st', out) \<Longrightarrow> calm st st' out"
  by (auto simp: create_room_cb_def bindr_Inr_conv calm_def dest!: create_outbound_calm)

lemma matrix_message_calm:
  assumes "matrix_message E usr ad m st = Inr (st', out)"
  shows "calm st st' out"
proof (cases "in_room (g_matrix_user st) usr (g_storage st) = []")
  case True
  then show ?thesis using assms by (auto simp: matrix_message_def calm_def invite_room_def)
next
  case False
  let ?r = "in_room (g_matrix_user st) usr (g_storage st)"
  obtain ses data s1 where g: "get_outbound_group_session ?r (g_storage st) = ((ses, data), s1)"
    by (metis prod.collapse)
  then obtain ses' req where q: "send_group_message E st ses (od_session_id data) ?r m = Inr (ses', req)"
    and st': "st' = st\<lparr>g_storage := s1\<lparr>outbound_group_sessions := map_put ?r (Some ses') (outbound_group_sessions s1)\<rparr>\<rparr>"
      "out = [req]"
    using assms False by (auto simp: matrix_message_def Let_def bindr_Inr_conv)
  from q obtain x where "ses = Some x" by (auto simp: send_group_message_def split: option.splits)
  with g have "storage_step (g_storage st) (s1\<lparr>outbound_group_sessions := map_put ?r (Some ses') (outbound_group_sessions s1)\<rparr>)"
    by (auto simp: get_outbound_group_session_def map_ref_def storage_defs split: option.splits)
  with st' send_group_message_quiet [OF q] show ?thesis by (simp add: calm_storage)
qed

text \<open>A sync.\<close>

lemma top_up_keys_calm: "top_up_keys E ns st = (st', out) \<Longrightarrow> calm st st' out"
proof (induction ns arbitrary: st out)
  case (Cons x ns)
  obtain alg n where x: "x = (alg, n)" by fastforce
  show ?case
  proof (cases "n < 50")
    case True
    let ?st = "st\<lparr>g_olmclient := ol_generate_keys (me_olm E) (50 - n) (g_olmclient st)\<rparr>"
    let ?q = "Http (UploadKeys (ol_upload_request (me_olm E) (g_olmclient ?st)))"
    obtain o2 where o2: "top_up_keys E ns ?st = (st', o2)" "out = ?q # o2"
      using Cons.prems x True by (auto simp: Let_def split: prod.splits)
    have "calm st ?st [?q]" by (simp add: calm_def)
    from calm_trans [OF this Cons.IH [OF o2(1)]] o2(2) show ?thesis by simp
  next
    case False
    with Cons x show ?thesis by simp
  qed
qed simp

lemma member_event_calm: "member_event r u st = (st', out) \<Longrightarrow> calm st st' out"
  by (auto simp: member_event_def get_device_keys_def calm_def)

lemma encrypted_event_calm: "encrypted_event E r i k c st = Inr (st', out) \<Longrightarrow> calm st st' out"
  by (auto simp: encrypted_event_def get_inbound_group_session_def inbound_group_exists_def
      bindr_Inr_conv map_ref_def intro!: calm_storage split: if_splits option.splits prod.splits)

lemma timeline_event_calm: "timeline_event E r e st = Inr (st', out) \<Longrightarrow> calm st st' out"
  by (cases e) (auto simp: mark_encrypted_room_def calm_storage member_event_calm encrypted_event_calm)

lemma state_event_calm: "state_event E r e st = Inr (st', out) \<Longrightarrow> calm st st' out"
  using timeline_event_calm [of E r e st st' out]
  by (auto simp: state_event_def split: room_event.splits)

lemma join_event_calm:
  assumes "join_event E r st = Inr (st', out)"
  shows "calm st st' out"
proof -
  obtain st1 o1 o2 where 1: "run_machine (state_event E (fst r)) (jr_state (snd r)) st = Inr (st1, o1)"
    and 2: "run_machine (timeline_event E (fst r)) (jr_timeline (snd r)) st1 = Inr (st', o2)" "out = o1 @ o2"
    using assms by (auto simp: join_event_def bindr_Inr_conv)
  have "calm st st1 o1" using calm.run [OF state_event_calm 1] .
  moreover have "calm st1 st' o2" using calm.run [OF timeline_event_calm 2(1)] .
  ultimately show ?thesis using 2(2) calm_trans by blast
qed

lemma parse_messages_calm:
  assumes "parse_messages E res st = Inr (st', out)"
  shows "calm st st' out"
proof -
  let ?o1 = "map (\<lambda>room_id. Http (JoinRoom room_id)) (rs_invite res)"
  obtain st1 st2 st3 o2 o3 where 1: "handle_to_device_msgs E (rs_to_device res) st = Inr st1"
    and 2: "top_up_keys E (rs_key_counts res) st1 = (st2, o2)"
    and 3: "run_machine (join_event E) (rs_join res) st2 = Inr (st', o3)"
    and out: "out = ?o1 @ o2 @ o3 @ [ToMsg [''parsed_messages'']]"
  proof -
    obtain st1 where 1: "handle_to_device_msgs E (rs_to_device res) st = Inr st1"
      using assms by (auto simp: parse_messages_def bindr_Inr_conv)
    obtain st2 o2 where 2: "top_up_keys E (rs_key_counts res) st1 = (st2, o2)" by fastforce
    show ?thesis using assms 1 2 that by (auto simp: parse_messages_def bindr_Inr_conv)
  qed
  have "list_all quiet ?o1" by (simp add: list_all_iff)
  then have "calm st st ?o1" by (simp add: calm_def)
  from calm_trans [OF calm_trans [OF this handle_to_devices_calm [OF 1]] top_up_keys_calm [OF 2]]
  have "calm st st2 (?o1 @ o2)" by simp
  moreover have "calm st2 st' o3" using calm.run [OF join_event_calm 3] .
  ultimately have "calm st st' ((?o1 @ o2) @ o3)" by (rule calm_trans)
  then show ?thesis by (simp add: out calm_def)
qed

section \<open>The chain of syncs\<close>

lemma requests_of_simps [simp]:
  "requests_of [] = []"
  "requests_of (Http r # out) = r # requests_of out"
  "requests_of (ToMsg m # out) = requests_of out"
  "requests_of (Decrypted a b # out) = requests_of out"
  "requests_of (Unverified a b # out) = requests_of out"
  "requests_of (MtxErrOut a # out) = requests_of out"
  "requests_of (xs @ ys) = requests_of xs @ requests_of ys"
  by (simp_all add: requests_of_def)

lemma quiet_requests: "list_all quiet out \<Longrightarrow> \<forall>r\<in>set (requests_of out). \<not> is_chain r"
  by (induction out) (auto simp: requests_of_def split: mtx_out.splits)

text \<open>A step that may send one call of the chain, which starts at the token of the new state.\<close>

definition chain_step :: "('a, 's, 'i, 'o) mtx_state \<Rightarrow> ('a, 's, 'i, 'o) mtx_state \<Rightarrow> mtx_out list \<Rightarrow> bool" where
  "chain_step st st' out \<longleftrightarrow>
     storage_step (g_storage st) (g_storage st') \<and> g_matrix_shutdown st' = g_matrix_shutdown st \<and>
     length (filter is_chain (requests_of out)) \<le> 1 \<and>
     (\<forall>s n. SyncReq s n \<in> set (requests_of out) \<longrightarrow> s = next_batch_token st') \<and>
     (\<forall>m. ToMsg m \<in> set out \<longrightarrow> m = [''parsed_messages''])"

lemma quiet_to_msg: "list_all quiet out \<Longrightarrow> ToMsg m \<in> set out \<Longrightarrow> m = [''parsed_messages'']"
  by (auto simp: list_all_iff)

lemma calm_chain_step: "calm st st' out \<Longrightarrow> chain_step st st' out"
  using quiet_requests [of out] quiet_to_msg [of out]
  by (fastforce simp: calm_def chain_step_def filter_empty_conv)

lemma calm_then_sync:
  assumes "calm st st1 out1"
  shows "chain_step st (st1\<lparr>next_batch_token := tok\<rparr>) (out1 @ [Http (SyncReq tok n)])"
  using assms quiet_requests [of out1] quiet_to_msg [of out1]
  by (fastforce simp: calm_def chain_step_def filter_empty_conv)

lemma login_identity_step: "storage_step (g_storage st) (g_storage (login_identity st))"
  "g_matrix_shutdown (login_identity st) = g_matrix_shutdown st"
  by (simp_all add: login_identity_def)

lemma login_chain: "chain_step st (fst (login_cb E err st)) (snd (login_cb E err st))"
  by (auto simp: login_cb_def chain_step_def Let_def login_identity_step split: option.splits)

lemma first_keys_chain: "chain_step st (fst (first_keys_uploaded E err st)) (snd (first_keys_uploaded E err st))"
  by (simp add: first_keys_uploaded_def keys_uploaded_cb_def chain_step_def)

lemma sync_handler_chain:
  assumes "sync_handler E res err st = Inr (st', out)"
  shows "chain_step st st' out"
proof -
  consider "err \<noteq> None" | "err = None" "g_matrix_shutdown st" | "err = None" "\<not> g_matrix_shutdown st" by blast
  then show ?thesis
  proof cases
    case 1
    then show ?thesis using assms by (auto simp: sync_handler_def chain_step_def)
  next
    case 2
    then show ?thesis using assms by (auto simp: sync_handler_def chain_step_def)
  next
    case 3
    then obtain st1 out1 where "parse_messages E res st = Inr (st1, out1)"
      "st' = st1\<lparr>next_batch_token := rs_next_batch res\<rparr>"
      "out = out1 @ [Http (SyncReq (rs_next_batch res) (me_timeout E))]"
      using assms by (auto simp: sync_handler_def bindr_Inr_conv sync_again_def)
    then show ?thesis using calm_then_sync parse_messages_calm by blast
  qed
qed

lemma initial_member_calm: "initial_member r e st = Inr (st', out) \<Longrightarrow> calm st st' out"
  by (cases e) (auto simp: member_event_calm)

lemma initial_sync_chain:
  assumes "initial_sync_handler E res err st = Inr (st', out)"
  shows "chain_step st st' out"
proof (cases err)
  case (Some e)
  then show ?thesis using assms by (auto simp: initial_sync_handler_def chain_step_def split: if_splits)
next
  case None
  show ?thesis
  proof (cases "g_matrix_shutdown st")
    case True
    then show ?thesis using assms None by (auto simp: initial_sync_handler_def chain_step_def)
  next
    case False
    let ?f = "\<lambda>r. run_machine (initial_member (fst r)) (jr_state (snd r))"
    obtain st1 st2 out1 out2 where 1: "parse_messages E res st = Inr (st1, out1)"
      and 2: "run_machine ?f (rs_join res) st1 = Inr (st2, out2)"
      and 3: "st' = st2\<lparr>next_batch_token := rs_next_batch res\<rparr>"
        "out = (out1 @ out2) @ [Http (SyncReq (rs_next_batch res) (me_timeout E))]"
      using assms None False by (auto simp: initial_sync_handler_def bindr_Inr_conv sync_again_def)
    have "calm st1 st2 out2"
      by (rule calm.run [OF _ 2]) (rule calm.run [OF initial_member_calm])
    with parse_messages_calm [OF 1] have "calm st st2 (out1 @ out2)" by (rule calm_trans)
    then show ?thesis unfolding 3 by (rule calm_then_sync)
  qed
qed

lemma answered_calm:
  assumes "mtx_answered E r a st = Inr (st', out)" and "\<not> is_chain r"
  shows "calm st st' out"
proof (cases r)
  case (UploadKeys j)
  then show ?thesis
    using assms(1) by (auto simp: mtx_answered_def keys_uploaded_cb_def calm_def split: if_splits)
next
  case (QueryKeys u)
  then show ?thesis using assms(1)
    by (auto simp: mtx_answered_def split: sum.splits mtx_answer.splits dest: device_keys_calm)
next
  case (CreateRoom nm ad usr msg)
  then show ?thesis using assms(1)
    by (auto simp: mtx_answered_def split: sum.splits mtx_answer.splits dest: create_room_calm)
next
  case (ClaimKeys m dev payload)
  then show ?thesis using assms(1)
    by (auto simp: mtx_answered_def split: sum.splits mtx_answer.splits dest: claimed_keys_calm)
qed (use assms in \<open>simp_all add: mtx_answered_def\<close>)

lemma answered_chain:
  assumes "mtx_answered E r a st = Inr (st', out)"
  shows "chain_step st st' out"
proof (cases "is_chain r")
  case False
  with assms show ?thesis by (intro calm_chain_step answered_calm)
next
  case True
  then show ?thesis
  proof (cases r)
    case (Login u p)
    show ?thesis
    proof (cases a)
      case (Inl e)
      then show ?thesis using assms Login login_chain [of st E "Some e"] by (simp add: mtx_answered_def)
    next
      case (Inr x)
      then show ?thesis
      proof (cases x)
        case (AnsLogin d t n)
        let ?st = "st\<lparr>client_device_id := d, client_access_token := t, client_user_id := n\<rparr>"
        have "chain_step ?st st' out"
          using assms Login Inr AnsLogin login_chain [of ?st E None] by (simp add: mtx_answered_def)
        then show ?thesis by (simp add: chain_step_def)
      qed (use assms Login Inr in \<open>simp_all add: mtx_answered_def calm_chain_step\<close>)
    qed
  next
    case (UploadKeysFirst j)
    then show ?thesis
      using assms first_keys_chain [of st E "case a of Inl e \<Rightarrow> Some e | Inr x \<Rightarrow> None"]
      by (simp add: mtx_answered_def)
  next
    case (InitialSync s n)
    then show ?thesis using assms
      by (auto simp: mtx_answered_def calm_chain_step split: sum.splits mtx_answer.splits
          dest: initial_sync_chain)
  next
    case (SyncReq s n)
    then show ?thesis using assms
      by (auto simp: mtx_answered_def calm_chain_step split: sum.splits mtx_answer.splits
          dest: sync_handler_chain)
  qed simp_all
qed

section \<open>Turns\<close>

definition chain_inv :: "('a, 's, 'i, 'o) mtx_state \<times> mtx_request list \<Rightarrow> bool" where
  "chain_inv c \<longleftrightarrow>
     length (filter is_chain (snd c)) \<le> 1 \<and>
     (\<forall>s n. SyncReq s n \<in> set (snd c) \<longrightarrow> s = next_batch_token (fst c))"

definition mtx_inv :: "('a, 's, 'i, 'o) mtx_state \<times> mtx_request list \<Rightarrow> bool" where
  "mtx_inv c \<longleftrightarrow>
     chain_inv c \<and> storage_ok (g_storage (fst c)) \<and> sessions_ok (g_storage (fst c)) \<and>
     devices_known (g_storage (fst c))"

definition good_mtx_out :: "mtx_out \<Rightarrow> bool" where
  "good_mtx_out x \<longleftrightarrow> (\<forall>m. x = ToMsg m \<longrightarrow> m = [''parsed_messages''])"

lemma chain_alone:
  assumes "length (filter is_chain p) \<le> 1" and "r \<in> set p" and "is_chain r"
  shows "filter is_chain (remove1 r p) = []"
proof -
  have "r \<in> set (filter is_chain p)" using assms(2,3) by simp
  with assms(1) have "filter is_chain p = [r]" by (cases "filter is_chain p") auto
  then show ?thesis by (simp add: filter_remove1)
qed

lemma chain_inv_quiet:
  assumes "chain_inv (st, p)" and "calm st st' out" and "set q \<subseteq> set p" and "length (filter is_chain q) \<le> 1"
  shows "chain_inv (st', q @ requests_of out)"
proof -
  have "list_all quiet out" using assms(2) by (simp add: calm_def)
  from quiet_requests [OF this]
  have "filter is_chain (requests_of out) = []" "\<forall>s n. SyncReq s n \<notin> set (requests_of out)"
    by (auto simp: filter_empty_conv)
  with assms show ?thesis by (simp add: chain_inv_def calm_def) blast
qed

lemma filter_remove1_le: "length (filter P (remove1 x xs)) \<le> length (filter P xs)"
  by (simp add: filter_remove1 length_remove1)

text \<open>A turn changes the storage by a step, and keeps the chain.\<close>

lemma mtx_turn_step:
  assumes "chain_inv c" and "mtx_turn E ev c = Inr (c', out)"
  shows "chain_inv c' \<and> storage_step (g_storage (fst c)) (g_storage (fst c')) \<and> (\<forall>x\<in>set out. good_mtx_out x)"
proof -
  obtain st p where c: "c = (st, p)" by fastforce
  show ?thesis
  proof (cases ev)
    case (UserMessage usr ad msg)
    then obtain st' where m: "matrix_message E usr ad msg st = Inr (st', out)" "c' = (st', p @ requests_of out)"
      using assms(2) c by (auto simp: mtx_turn_def bindr_Inr_conv)
    have "calm st st' out" using m(1) by (rule matrix_message_calm)
    with m assms(1) c show ?thesis
      using chain_inv_quiet [of st p st' out p] quiet_to_msg [of out]
      by (auto simp: calm_def good_mtx_out_def chain_inv_def)
  next
    case AskShutdown
    then have "c' = (st\<lparr>g_matrix_shutdown := True\<rparr>, p)" "out = []"
      using assms(2) c by (simp_all add: mtx_turn_def)
    with assms(1) c show ?thesis by (simp add: chain_inv_def)
  next
    case (Answer r a)
    show ?thesis
    proof (cases "r \<in> set p")
      case False
      then show ?thesis using assms c Answer by (simp add: mtx_turn_def)
    next
      case True
      then obtain st' where m: "mtx_answered E r a st = Inr (st', out)"
        "c' = (st', remove1 r p @ requests_of out)"
        using assms(2) c Answer by (auto simp: mtx_turn_def bindr_Inr_conv)
      have s: "chain_step st st' out" using m(1) by (rule answered_chain)
      have "chain_inv c'"
      proof (cases "is_chain r")
        case True
        have none: "filter is_chain (remove1 r p) = []"
          using chain_alone assms(1) c \<open>r \<in> set p\<close> True by (auto simp: chain_inv_def)
        then have "SyncReq s n \<notin> set (remove1 r p)" for s n
          by (auto simp: filter_empty_conv dest: bspec)
        with none s show ?thesis by (auto simp: m(2) chain_inv_def chain_step_def)
      next
        case False
        have "length (filter is_chain (remove1 r p)) \<le> 1"
          using filter_remove1_le [of is_chain r p] assms(1) c by (simp add: chain_inv_def)
        with chain_inv_quiet [OF _ answered_calm [OF m(1) False] set_remove1_subset [of r p]] assms(1) c m(2)
        show ?thesis by simp
      qed
      with s show ?thesis by (auto simp: m(2) c chain_step_def good_mtx_out_def)
    qed
  qed
qed

lemma mtx_turn_inv:
  assumes "mtx_inv c" and "mtx_turn E ev c = Inr (c', out)"
  shows "mtx_inv c'" and "x \<in> set out \<Longrightarrow> good_mtx_out x"
proof -
  have "chain_inv c" using assms(1) by (simp add: mtx_inv_def)
  note step = mtx_turn_step [OF this assms(2)]
  with assms(1) show "mtx_inv c'" by (simp add: mtx_inv_def storage_step_def)
  show "x \<in> set out \<Longrightarrow> good_mtx_out x" using step by blast
qed

interpretation mtx: machine "mtx_turn E" mtx_inv good_mtx_out
  by unfold_locales (fact mtx_turn_inv)+

interpretation mtx_chain: machine "mtx_turn E" chain_inv good_mtx_out
  by unfold_locales (use mtx_turn_step in blast)+

text \<open>Over a run the storage takes steps: what was known stays.\<close>

lemma mtx_run_step:
  assumes "chain_inv c" and "run_machine (mtx_turn E) evs c = Inr (c', out)"
  shows "storage_step (g_storage (fst c)) (g_storage (fst c'))"
  using assms
proof (induction evs arbitrary: c out)
  case (Cons e evs)
  then obtain c1 o1 o2 where 1: "mtx_turn E e c = Inr (c1, o1)" "run_machine (mtx_turn E) evs c1 = Inr (c', o2)"
    by (auto simp: bindr_Inr_conv)
  from mtx_turn_step [OF Cons.prems(1) 1(1)] Cons.IH [of c1 o2] 1(2) show ?case
    using step_trans by blast
qed simp

section \<open>Tokens\<close>

text \<open>
  The token of the response that a turn handles: a sync that is pending is answered, and the client has not
  been asked to stop. And the last one in a run, which starts with \<open>t\<close>.
\<close>

fun is_sync :: "mtx_request \<Rightarrow> bool" where
  "is_sync (InitialSync s n) \<longleftrightarrow> True"
| "is_sync (SyncReq s n) \<longleftrightarrow> True"
| "is_sync r \<longleftrightarrow> False"

definition handled_batch ::
  "mtx_event \<Rightarrow> ('a, 's, 'i, 'o) mtx_state \<times> mtx_request list \<Rightarrow> string option" where
  "handled_batch ev c =
     (case ev of
        Answer r (Inr (AnsSync res)) \<Rightarrow>
          if r \<in> set (snd c) \<and> is_sync r \<and> \<not> g_matrix_shutdown (fst c) then Some (rs_next_batch res) else None
      | _ \<Rightarrow> None)"

fun last_batch ::
  "('a, 's, 'i, 'o) mtx_env \<Rightarrow> string \<Rightarrow> mtx_event list \<Rightarrow> ('a, 's, 'i, 'o) mtx_state \<times> mtx_request list
    \<Rightarrow> string" where
  "last_batch E t [] c = t"
| "last_batch E t (ev # evs) c =
     (case mtx_turn E ev c of
        Inl e \<Rightarrow> t
      | Inr (c', out) \<Rightarrow> last_batch E (case handled_batch ev c of Some b \<Rightarrow> b | None \<Rightarrow> t) evs c')"

lemma sync_token:
  "sync_handler E res None st = Inr (st', out) \<Longrightarrow>
     next_batch_token st' = (if g_matrix_shutdown st then next_batch_token st else rs_next_batch res)"
  "initial_sync_handler E res None st = Inr (st', out) \<Longrightarrow>
     next_batch_token st' = (if g_matrix_shutdown st then next_batch_token st else rs_next_batch res)"
  "sync_handler E res (Some e) st = Inr (st', out) \<Longrightarrow> next_batch_token st' = next_batch_token st"
  "initial_sync_handler E res (Some e) st = Inr (st', out) \<Longrightarrow> next_batch_token st' = next_batch_token st"
  by (auto simp: sync_handler_def initial_sync_handler_def sync_again_def bindr_Inr_conv split: if_splits)

lemma answered_token:
  assumes "mtx_answered E r a st = Inr (st', out)"
  shows "next_batch_token st' =
    (case a of Inr (AnsSync res) \<Rightarrow>
       if is_sync r \<and> \<not> g_matrix_shutdown st then rs_next_batch res else next_batch_token st
     | _ \<Rightarrow> next_batch_token st)"
proof (cases "is_chain r")
  case False
  then have "next_batch_token st' = next_batch_token st" using answered_calm [OF assms] by (simp add: calm_def)
  moreover have "\<not> is_sync r" using False by (cases r) simp_all
  ultimately show ?thesis by (simp split: sum.split mtx_answer.split)
next
  case True
  then show ?thesis
  proof (cases r)
    case (Login u p)
    then show ?thesis using assms
      by (auto simp: mtx_answered_def login_cb_def Let_def login_identity_def split: sum.splits mtx_answer.splits)
  next
    case (UploadKeysFirst j)
    then show ?thesis using assms
      by (auto simp: mtx_answered_def first_keys_uploaded_def keys_uploaded_cb_def split: sum.splits mtx_answer.splits if_splits)
  next
    case (InitialSync s n)
    then show ?thesis using assms
      by (auto simp: mtx_answered_def split: sum.splits mtx_answer.splits dest: sync_token)
  next
    case (SyncReq s n)
    then show ?thesis using assms
      by (auto simp: mtx_answered_def split: sum.splits mtx_answer.splits dest: sync_token)
  qed simp_all
qed

lemma turn_token:
  assumes "mtx_turn E ev c = Inr (c', out)"
  shows "next_batch_token (fst c') = (case handled_batch ev c of Some b \<Rightarrow> b | None \<Rightarrow> next_batch_token (fst c))"
proof (cases ev)
  case (Answer r a)
  obtain st p where c: "c = (st, p)" by fastforce
  show ?thesis
  proof (cases "r \<in> set p")
    case True
    then obtain st' where m: "mtx_answered E r a st = Inr (st', out)" "fst c' = st'"
      using assms c Answer by (auto simp: mtx_turn_def bindr_Inr_conv)
    then show ?thesis using answered_token [OF m(1)] True
      by (auto simp: Answer c handled_batch_def split: sum.splits mtx_answer.splits)
  qed (use assms Answer c in \<open>auto simp: mtx_turn_def handled_batch_def split: sum.splits mtx_answer.splits\<close>)
next
  case (UserMessage usr ad msg)
  then obtain st p st' where "c = (st, p)" "matrix_message E usr ad msg st = Inr (st', out)" "fst c' = st'"
    using assms by (auto simp: mtx_turn_def bindr_Inr_conv split: prod.splits)
  then show ?thesis using matrix_message_calm [of E usr ad msg st st' out] UserMessage
    by (simp add: handled_batch_def calm_def)
next
  case AskShutdown
  then show ?thesis using assms by (auto simp: mtx_turn_def handled_batch_def split: prod.splits)
qed

lemma run_token:
  assumes "run_machine (mtx_turn E) evs c = Inr (c', out)"
  shows "next_batch_token (fst c') = last_batch E (next_batch_token (fst c)) evs c"
  using assms
proof (induction evs arbitrary: c out)
  case (Cons ev evs)
  then obtain c1 o1 o2 where 1: "mtx_turn E ev c = Inr (c1, o1)" "run_machine (mtx_turn E) evs c1 = Inr (c', o2)"
    by (auto simp: bindr_Inr_conv)
  from Cons.IH [OF 1(2)] turn_token [OF 1(1)] 1(1) show ?case by simp
qed simp

section \<open>Syncs that do not succeed\<close>

text \<open>What ends the chain of syncs: an answer, or an initial sync that fails with the status 200.\<close>

fun ends_sync :: "mtx_event \<Rightarrow> bool" where
  "ends_sync (Answer (SyncReq s n) a) \<longleftrightarrow> (\<exists>x. a = Inr x)"
| "ends_sync (Answer (InitialSync s n) a) \<longleftrightarrow> (\<forall>e. a = Inl e \<longrightarrow> err_status_code e = 200)"
| "ends_sync _ \<longleftrightarrow> False"

lemma turn_keeps_sync:
  assumes "mtx_turn E ev (st, p) = Inr ((st', p'), out)" and "q \<in> set p" and "is_sync q" and "\<not> ends_sync ev"
  shows "\<exists>q'\<in>set p'. is_sync q'"
proof (cases ev)
  case (Answer r a)
  show ?thesis
  proof (cases "r \<in> set p")
    case True
    then obtain st1 where m: "mtx_answered E r a st = Inr (st1, out)" "p' = remove1 r p @ requests_of out"
      using assms(1) Answer by (auto simp: mtx_turn_def bindr_Inr_conv)
    show ?thesis
    proof (cases "r = q")
      case False
      then have "q \<in> set (remove1 r p)" using assms(2) by simp
      with m(2) assms(3) show ?thesis by auto
    next
      case r: True
      have "\<exists>q'\<in>set (requests_of out). is_sync q'"
      proof (cases q)
        case (InitialSync s n)
        then show ?thesis using m(1) assms(4) Answer r by (auto simp: mtx_answered_def initial_sync_handler_def)
      next
        case (SyncReq s n)
        then show ?thesis using m(1) assms(4) Answer r by (cases a) (auto simp: mtx_answered_def sync_handler_def)
      qed (use assms(3) in simp_all)
      with m(2) show ?thesis by auto
    qed
  qed (use assms Answer in \<open>auto simp: mtx_turn_def\<close>)
qed (use assms in \<open>auto simp: mtx_turn_def bindr_Inr_conv\<close>)

lemma run_keeps_sync:
  assumes "run_machine (mtx_turn E) evs (st, p) = Inr ((st', p'), out)" and "\<exists>q\<in>set p. is_sync q"
    and "\<forall>ev\<in>set evs. \<not> ends_sync ev"
  shows "\<exists>q\<in>set p'. is_sync q"
  using assms
proof (induction evs arbitrary: st p out)
  case (Cons ev evs)
  then obtain st1 p1 o1 o2 where 1: "mtx_turn E ev (st, p) = Inr ((st1, p1), o1)"
    "run_machine (mtx_turn E) evs (st1, p1) = Inr ((st', p'), o2)"
    by (auto simp: bindr_Inr_conv)
  from turn_keeps_sync [OF 1(1)] Cons.prems(2,3) have "\<exists>q\<in>set p1. is_sync q" by auto
  from Cons.IH [OF 1(2) this] Cons.prems(3) show ?case by simp
qed simp

end
