(* ===== verification/Ref_Libs.thy ===== *)
theory Ref_Libs
  imports Db_Store
begin

text \<open>
  Concrete libraries that satisfy the laws assumed of the real ones: a codec for the ads, a database
  that is a list of numbered documents, a digest of 32 characters and a code of two letters per
  character. They show
  that the laws can hold together, and the properties are instantiated with them.
\<close>

section \<open>A codec\<close>

definition esc :: "char \<Rightarrow> string" where
  "esc c = (if c = CHR ''|'' then [CHR 0x5C, CHR ''p''] else if c = CHR 0x5C then [CHR 0x5C, CHR ''b'']
            else [c])"

fun fields :: "string \<Rightarrow> string \<Rightarrow> string list" where
  "fields acc [] = []"
| "fields acc [c] = (if c = CHR ''|'' then [acc] else [])"
| "fields acc (c # d # cs) =
     (if c = CHR ''|'' then acc # fields [] (d # cs)
      else if c = CHR 0x5C then fields (acc @ [if d = CHR ''p'' then CHR ''|'' else CHR 0x5C]) cs
      else fields (acc @ [c]) (d # cs))"

lemma fields_bar: "fields acc (CHR ''|'' # cs) = acc # fields [] cs"
  by (cases cs) auto

lemma fields_plain: "c \<noteq> CHR ''|'' \<Longrightarrow> c \<noteq> CHR 0x5C \<Longrightarrow> cs \<noteq> [] \<Longrightarrow>
    fields acc (c # cs) = fields (acc @ [c]) cs"
  by (cases cs) auto

lemma fields_esc: "fields acc (concat (map esc s) @ CHR ''|'' # rest) = (acc @ s) # fields [] rest"
proof (induction s arbitrary: acc)
  case (Cons c s)
  show ?case
    using Cons [of "acc @ [c]"] by (auto simp: esc_def fields_plain)
qed (simp add: fields_bar)

definition enc_fields :: "string list \<Rightarrow> string" where
  "enc_fields ss = concat (map (\<lambda>s. concat (map esc s) @ [CHR ''|'']) ss)"

lemma fields_enc: "fields [] (enc_fields ss) = ss"
  by (induction ss) (auto simp: enc_fields_def fields_esc)

lemma NUL_enc_fields: "\<forall>s\<in>set ss. NUL \<notin> set s \<Longrightarrow> NUL \<notin> set (enc_fields ss)"
  by (auto simp: enc_fields_def esc_def NUL_def)

fun ref_atom :: "json \<Rightarrow> string" where
  "ref_atom (JInt i) = nat_to_string (unat (word_of_int i :: 32 word))"
| "ref_atom (JDouble d) = nat_to_string (unat d)"
| "ref_atom (JString s) = s"
| "ref_atom _ = []"

fun ref_write :: "json \<Rightarrow> string" where
  "ref_write (JObject kvs) = enc_fields (map (\<lambda>kv. ref_atom (snd kv)) kvs)"
| "ref_write _ = []"

definition ref_obj :: "string list \<Rightarrow> json option" where
  "ref_obj fs =
     (case fs of
        [i, t, a, ds, p, ca, co, sh, fo, lo, ke] \<Rightarrow>
          (let price = of_nat (nat_of_digits p) :: double in
           if dbl_finite price then Some (JObject
             [ (''id'', JInt (sint (of_nat (nat_of_digits i) :: 32 word))), (''title'', JString t),
               (''author'', JString a), (''description'', JString ds), (''price'', JDouble price),
               (''category'', JString ca), (''condition'', JString co), (''shipping'', JString sh),
               (''format'', JString fo), (''location'', JString lo), (''keywords'', JString ke) ])
           else None)
      | _ \<Rightarrow> None)"

definition ref_json :: json_lib where
  "ref_json = \<lparr> parse_json = \<lambda>s. ref_obj (fields [] s), write_json = ref_write,
                int_to_double = \<lambda>i. 0 \<rparr>"

lemma ref_json_laws: "json_laws ref_json (\<lambda>p. p)"
proof -
  have w: "ref_write (doc_json d) = enc_fields [nat_to_string (unat (m_id d)), cstr (m_title d),
      cstr (m_author d), cstr (m_description d), nat_to_string (unat (m_price d)),
      cstr (m_category d), cstr (m_condition d), cstr (m_shipping d), cstr (m_format d),
      cstr (m_location d), cstr (m_keywords d)]" for d
    by (simp add: doc_json_def)
  have "ref_obj (fields [] (ref_write (doc_json d))) = Some (doc_json d)" if "dbl_finite (m_price d)" for d
    using that by (simp add: w fields_enc ref_obj_def doc_json_def)
  moreover have "NUL \<notin> set (ref_write (doc_json d))" for d
    unfolding w by (rule NUL_enc_fields) simp
  moreover have "ref_write (doc_json d) \<noteq> []" for d
    by (simp add: w enc_fields_def)
  moreover have "json_finite j" if "ref_obj fs = Some j" for fs j
    using that by (auto simp: ref_obj_def Let_def split: list.splits if_splits)
  moreover have "dbl_finite 0" by (simp add: dbl_finite_def)
  ultimately show ?thesis by (simp add: json_laws_def ref_json_def)
qed

section \<open>A database\<close>

type_synonym ref_db = "(nat \<times> xdoc) list"

fun index_ids :: "nat list \<Rightarrow> string \<Rightarrow> ref_db \<Rightarrow> nat list" where
  "index_ids seen t [] = []"
| "index_ids seen t ((i, d) # db) =
     (if i \<notin> set seen \<and> (t = [] \<or> t \<in> set (xd_terms d)) then i # index_ids (i # seen) t db
      else index_ids (i # seen) t db)"

definition ref_index :: "ref_db \<Rightarrow> string \<Rightarrow> nat list" where
  "ref_index db t = index_ids [] t db"

fun drop_ids :: "nat list \<Rightarrow> ref_db \<Rightarrow> ref_db" where
  "drop_ids is [] = []"
| "drop_ids is ((i, d) # db) = (if i \<in> set is then drop_ids is db else (i, d) # drop_ids is db)"

definition ref_delete :: "ref_db \<Rightarrow> string \<Rightarrow> ref_db" where
  "ref_delete db t = drop_ids (ref_index db t) db"

definition ref_xapian :: "ref_db xapian" where
  "ref_xapian =
     \<lparr> x_open = \<lambda>db name. None,
       x_open_rw = \<lambda>db name. Inr db,
       x_commit = \<lambda>db0 db. (None, db),
       x_doccount = \<lambda>db. length (remdups (map fst db)),
       x_postlist = ref_index,
       x_get_data = \<lambda>db i. (case map_of db i of None \<Rightarrow> [] | Some d \<Rightarrow> xd_data d),
       x_index_text = \<lambda>body p. map (\<lambda>w. (if p = [] then ''Z'' else p) @ w) (tokenize body),
       x_replace_document = \<lambda>db t d.
         Inr ((case ref_index db t of i # is \<Rightarrow> i | [] \<Rightarrow> Suc (foldr max (map fst db) 0), d)
              # ref_delete db t),
       x_delete_document = \<lambda>db t. Inr (ref_delete db t),
       x_mset = \<lambda>db q n m. Inr (0, []) \<rparr>"

lemma set_index_ids:
  "set (index_ids seen t db)
     = {i. i \<notin> set seen \<and> (\<exists>d. map_of db i = Some d \<and> (t = [] \<or> t \<in> set (xd_terms d)))}"
  by (induction seen t db rule: index_ids.induct) (auto split: if_splits)

lemma set_ref_index: "set (ref_index db t) = indexed_by (map_of db) t"
  by (simp add: ref_index_def set_index_ids indexed_by_def)

lemma distinct_index_ids: "distinct (index_ids seen t db)"
  by (induction seen t db rule: index_ids.induct) (simp_all add: set_index_ids)

lemma map_of_drop_ids: "map_of (drop_ids is db) = (map_of db) |` (- set is)"
  by (induction "is" db rule: drop_ids.induct) (auto simp: restrict_map_def fun_eq_iff)

lemma map_of_ref_delete: "map_of (ref_delete db t) = (map_of db) |` (- indexed_by (map_of db) t)"
  by (simp add: ref_delete_def map_of_drop_ids set_ref_index)

lemma fresh_key: "map_of db (Suc (foldr max (map fst db) 0)) = None"
proof -
  have "n < Suc (foldr max ns 0)" if "n \<in> set ns" for n :: nat and ns
    using that by (induction ns) auto
  then have "Suc (foldr max (map fst db) 0) \<notin> set (map fst db)" by blast
  then show ?thesis by (simp add: map_of_eq_None_iff)
qed

lemma ref_replace:
  fixes db :: ref_db
  assumes "x_replace_document ref_xapian db t d = Inr db'"
  shows "\<exists>i. (map_of db i = None \<or> i \<in> indexed_by (map_of db) t) \<and>
     map_of db' = ((map_of db) |` (- indexed_by (map_of db) t))(i \<mapsto> d)"
proof -
  obtain i where i: "map_of db i = None \<or> i \<in> indexed_by (map_of db) t"
    and db': "db' = (i, d) # ref_delete db t"
  proof (cases "ref_index db t")
    case Nil
    then show thesis using that assms fresh_key [of db] by (auto simp: ref_xapian_def)
  next
    case (Cons j js)
    then show thesis using that assms set_ref_index [of db t] by (auto simp: ref_xapian_def)
  qed
  then have "map_of db' = ((map_of db) |` (- indexed_by (map_of db) t))(i \<mapsto> d)"
    by (simp add: map_of_ref_delete)
  with i show ?thesis by blast
qed

lemma ref_xapian_laws: "xapian_laws ref_xapian map_of"
  unfolding xapian_laws_def
proof (intro conjI allI impI)
  fix db :: ref_db
  show "finite (dom (map_of db))" by (rule finite_dom_map_of)
  show "x_doccount ref_xapian db = card (dom (map_of db))"
    by (simp add: ref_xapian_def dom_map_of_conv_image_fst length_remdups_card_conv)
  show "set (x_postlist ref_xapian db t) = indexed_by (map_of db) t" for t
    by (simp add: ref_xapian_def set_ref_index)
  show "distinct (x_postlist ref_xapian db t)" for t
    by (simp add: ref_xapian_def ref_index_def distinct_index_ids)
  show "map_of db i = Some d \<Longrightarrow> x_get_data ref_xapian db i = xd_data d" for i d
    by (simp add: ref_xapian_def)
  show "x_open_rw ref_xapian db name = Inr db' \<Longrightarrow> map_of db' = map_of db" for name db'
    by (simp add: ref_xapian_def)
  show "x_replace_document ref_xapian db t d = Inr db' \<Longrightarrow> t \<noteq> [] \<Longrightarrow>
      \<exists>i. (map_of db i = None \<or> i \<in> indexed_by (map_of db) t) \<and>
        map_of db' = ((map_of db) |` (- indexed_by (map_of db) t))(i \<mapsto> d)" for t d db'
    by (rule ref_replace)
  show "x_delete_document ref_xapian db t = Inr db' \<Longrightarrow>
      map_of db' = (map_of db) |` (- indexed_by (map_of db) t)" for t db'
    using map_of_ref_delete by (auto simp: ref_xapian_def)
  show "x_commit ref_xapian db0 db = (err, db') \<Longrightarrow>
      map_of db' = map_of db \<or> err \<noteq> None \<and> map_of db' = map_of db0" for db0 err db'
    by (simp add: ref_xapian_def)
next
  fix body p w
  assume "w \<in> set (x_index_text ref_xapian body p)" and "p = [] \<or> hd p \<noteq> CHR ''Q''"
  then obtain u where "w = (if p = [] then ''Z'' else p) @ u" by (auto simp: ref_xapian_def)
  then show "w \<noteq> []" "hd w \<noteq> CHR ''Q''"
    using \<open>p = [] \<or> hd p \<noteq> CHR ''Q''\<close> by (cases p; simp)+
qed

section \<open>An environment\<close>

definition ref_sha :: "string \<Rightarrow> string" where
  "ref_sha s = take 32 (s @ replicate 32 (CHR ''.''))"

text \<open>Each half of a character, as one of the sixteen characters from \<open>@\<close> on.\<close>

fun nibbles :: "char \<Rightarrow> string" where
  "nibbles (Char b0 b1 b2 b3 b4 b5 b6 b7) =
     [Char b4 b5 b6 b7 False False True False, Char b0 b1 b2 b3 False False True False]"

fun ref_hex :: "string \<Rightarrow> string" where
  "ref_hex [] = []"
| "ref_hex (c # cs) = nibbles c @ ref_hex cs"

lemma nibbles_append: "nibbles c @ xs = nibbles d @ ys \<longleftrightarrow> c = d \<and> xs = ys"
  by (cases c; cases d) auto

lemma nibbles_not_Nil [simp]: "nibbles c \<noteq> []"
  by (cases c) simp

lemma ref_hex_inj: "inj ref_hex"
proof (rule injI)
  fix s t :: string
  show "ref_hex s = ref_hex t \<Longrightarrow> s = t"
  proof (induction s arbitrary: t)
    case Nil
    then show ?case by (cases t) simp_all
  next
    case (Cons c s)
    then show ?case by (cases t) (simp_all add: nibbles_append)
  qed
qed

definition ref_env :: "bool \<Rightarrow> files \<Rightarrow> ref_db env" where
  "ref_env dbg fs =
     \<lparr> e_dbg = dbg, e_json = ref_json, e_xap = ref_xapian, e_sha = ref_sha, e_hex = ref_hex,
       e_dstr = \<lambda>d. nat_to_string (unat d), e_files = fs \<rparr>"

lemma ref_env_laws: "env_laws (ref_env dbg fs) (\<lambda>p. p) map_of"
  by (simp add: env_laws_def ref_env_def ref_json_laws ref_xapian_laws ref_hex_inj ref_sha_def min_def)

lemma ref_env_healthy: "healthy (ref_env dbg fs) map_of db_name"
  by (simp add: healthy_def ref_env_def ref_xapian_def)

lemma ref_env_no_faults: "no_faults (ref_env dbg fs)"
  by (simp add: no_faults_def ref_env_def ref_xapian_def)

lemma ref_db_ok_empty: "db_ok (ref_env dbg fs) (\<lambda>p. p) map_of db_name []"
  by (simp add: db_ok_def ref_env_laws ref_env_healthy keyed_def)

end
