(* ===== verification/Ref_Matrix.thy ===== *)
theory Ref_Matrix
  imports Matrix_Protocol Ref_Libs "HOL-Library.Code_Target_Nat"
begin

text \<open>
  Concrete libraries for the Matrix client: a codec for JSON values, which writes a value in postfix
  order and reads it back with a stack, and a toy Olm library whose sessions are their keys. They show
  that the laws assumed of the real libraries can hold, and the properties are instantiated with them.
\<close>

section \<open>A codec for JSON\<close>

fun toks :: "json \<Rightarrow> string list" where
  "toks JNull = [''n'']"
| "toks (JBool b) = [if b then ''t'' else ''f'']"
| "toks (JInt i) = [if i < 0 then CHR ''m'' # nat_to_string (nat (- i)) else CHR ''i'' # nat_to_string (nat i)]"
| "toks (JDouble d) = [''n'']"
| "toks (JString s) = [CHR ''s'' # s]"
| "toks (JArray js) = concat (map toks js) @ [CHR ''a'' # nat_to_string (length js)]"
| "toks (JObject kvs) =
     concat (map (\<lambda>(k, j). toks j @ [CHR ''k'' # k]) kvs) @ [CHR ''o'' # nat_to_string (length kvs)]"

type_synonym jstack = "(string \<times> json) list"

fun tok_step :: "string \<Rightarrow> jstack \<Rightarrow> jstack" where
  "tok_step [] st = st"
| "tok_step (c # arg) st =
     (if c = CHR ''t'' then ([], JBool True) # st
      else if c = CHR ''f'' then ([], JBool False) # st
      else if c = CHR ''i'' then ([], JInt (int (nat_of_digits arg))) # st
      else if c = CHR ''m'' then ([], JInt (- int (nat_of_digits arg))) # st
      else if c = CHR ''s'' then ([], JString arg) # st
      else if c = CHR ''k'' then (case st of [] \<Rightarrow> [] | (x, j) # st' \<Rightarrow> (arg, j) # st')
      else if c = CHR ''a'' then
        ([], JArray (rev (map snd (take (nat_of_digits arg) st)))) # drop (nat_of_digits arg) st
      else if c = CHR ''o'' then
        ([], JObject (rev (take (nat_of_digits arg) st))) # drop (nat_of_digits arg) st
      else ([], JNull) # st)"

definition ref_nl_dump :: "json \<Rightarrow> string" where
  "ref_nl_dump j = enc_fields (toks j)"

definition ref_nl_parse :: "string \<Rightarrow> json option" where
  "ref_nl_parse t =
     (case fold tok_step (fields [] t) [] of [(x, j)] \<Rightarrow> Some j | _ \<Rightarrow> None)"

definition ref_nlohmann :: nlohmann where
  "ref_nlohmann = \<lparr>nl_parse = ref_nl_parse, nl_dump = (\<lambda>n j. Some (ref_nl_dump j)), nl_float = (\<lambda>d. 0)\<rparr>"

lemma run_array:
  assumes "\<And>j st. j \<in> set js \<Longrightarrow> fold tok_step (toks j) st = ([], j) # st"
  shows "fold tok_step (concat (map toks js)) st = rev (map (Pair []) js) @ st"
  using assms by (induction js arbitrary: st) auto

lemma run_object:
  assumes "\<forall>(k, j)\<in>set kvs. \<forall>st. fold tok_step (toks j) st = ([], j) # st"
  shows "fold tok_step (concat (map (\<lambda>(k, j). toks j @ [CHR ''k'' # k]) kvs)) st = rev kvs @ st"
  using assms by (induction kvs arbitrary: st) auto

lemma run_toks: "nj_ok j \<Longrightarrow> fold tok_step (toks j) st = ([], j) # st"
proof (induction j arbitrary: st)
  case (JInt i)
  then show ?case by simp
next
  case (JArray js)
  then show ?case
    by (simp add: run_array list_all_iff take_map comp_def rev_map)
next
  case (JObject kvs)
  have "\<forall>(k, j)\<in>set kvs. \<forall>st. fold tok_step (toks j) st = ([], j) # st"
    using JObject by (fastforce simp: list_all_iff)
  then show ?case by (simp add: run_object)
qed auto

lemma toks_not_Nil: "toks j \<noteq> []"
  by (cases j) auto

lemma ref_nlohmann_laws: "nlohmann_laws ref_nlohmann"
proof -
  have "enc_fields (toks j) \<noteq> []" for j
    using toks_not_Nil [of j] by (cases "toks j") (auto simp: enc_fields_def)
  then show ?thesis
    by (simp add: nlohmann_laws_def ref_nlohmann_def ref_nl_dump_def ref_nl_parse_def fields_enc run_toks)
qed

section \<open>A toy Olm library\<close>

definition ref_room_key_json :: "room_key \<Rightarrow> json" where
  "ref_room_key_json rk = JObject [(''content'', JObject
     [(''room_id'', JString (rk_room_id rk)), (''session_id'', JString (rk_session_id rk)),
      (''session_key'', JString (rk_session_key rk))])]"

definition ref_content :: "string \<Rightarrow> room_key \<Rightarrow> string \<Rightarrow> json" where
  "ref_content a rk c = JObject
     [(''algorithm'', JString OLM_ALGO),
      (''ciphertext'', JObject [(c, JObject
         [(''body'', JString (ref_nl_dump (ref_room_key_json rk))), (''type'', JInt 0)])]),
      (''sender_key'', JString (CHR ''c'' # a))]"

definition strip :: "string \<Rightarrow> string \<Rightarrow> string option" where
  "strip k t = (if take (length k) t = k then Some (drop (length k) t) else None)"

lemma strip_append [simp]: "strip k (k @ t) = Some t"
  by (simp add: strip_def)

definition ref_olm :: "(string, string, string, string) olm_lib" where
  "ref_olm =
     \<lparr> ol_identity = (\<lambda>a. \<lparr>ed25519 = CHR ''e'' # a, curve25519 = CHR ''c'' # a\<rparr>),
       ol_new_account = ''me'', ol_load = (\<lambda>t k. strip k t), ol_save = (\<lambda>k a. k @ a),
       ol_set_ids = (\<lambda>u d a. a), ol_generate_keys = (\<lambda>n a. a), ol_mark_published = (\<lambda>a. a),
       ol_upload_request = (\<lambda>a. JString a), ol_create_inbound = (\<lambda>a b. Some (''s'', a)),
       ol_matches_from = (\<lambda>s k b. True), ol_decrypt = (\<lambda>s n b. Some (b, s)),
       ol_init_inbound_group = (\<lambda>k. Some k), ol_decrypt_group = (\<lambda>i c. map_option (\<lambda>t. (t, i)) (strip i c)),
       ol_init_outbound_group = (\<lambda>a. (a @ ''-key'', a)), ol_session_id = (\<lambda>ses. ses @ ''-id''),
       ol_session_key = (\<lambda>ses. ses), ol_encrypt_group = (\<lambda>ses t. Some (ses @ t, ses)),
       ol_create_outbound = (\<lambda>a i k. Some (i, a)),
       ol_encrypted_content = (\<lambda>a s rk u e c. Some (ref_content a rk c, s)) \<rparr>"

definition ref_pickles :: "(string, string, string) pickles" where
  "ref_pickles = \<lparr> pk_session = (\<lambda>k x. k @ x), pk_inbound = (\<lambda>k x. k @ x), pk_outbound = (\<lambda>k x. k @ x),
     up_session = strip, up_inbound = strip, up_outbound = strip \<rparr>"

lemma ref_pickle_laws: "pickle_laws ref_pickles"
  by (simp add: pickle_laws_def ref_pickles_def)

definition ref_mtx :: "(string, string, string, string) mtx_env" where
  "ref_mtx = \<lparr> me_json = ref_nlohmann, me_olm = ref_olm, me_pickles = ref_pickles,
     me_verify = (\<lambda>q d u. Some True), me_timeout = 10000, me_default_timeout = 0 \<rparr>"

section \<open>States for the witnesses\<close>

definition fresh_mtx :: "(string, string, string, string) mtx_state" where
  "fresh_mtx = \<lparr> g_olmclient = [], g_storage = storage_new, g_matrix_user = [], next_batch_token = [],
     client_device_id = [], client_access_token = [], client_user_id = [], g_matrix_connected = False,
     g_matrix_shutdown = False \<rparr>"

end
