(* ===== verification/Matrix_Properties.thy ===== *)
theory Matrix_Properties
  imports Ref_Matrix
begin

text \<open>
  The properties of the client's Matrix threads, src/cli_matrix_thread.cpp and
  src/cli_message_thread.cpp, with their instances on the reference libraries.
\<close>

section \<open>The storage over a run\<close>

text \<open>
  C23. The chain of syncs does not fork and skips nothing: over any run from the login on, at most one call
  of the chain login, key upload, sync is pending, and a pending sync starts at the \<open>next_batch\<close> of the
  last response that the run has handled (where it has handled none, at the token the client had). The
  storage stays well formed: ordered maps, no null session, and every device listed for a user has
  its keys.
\<close>

theorem sync_chain:
  assumes "storage_ok (g_storage st)" and "sessions_ok (g_storage st)" and "devices_known (g_storage st)"
    and "run_machine (mtx_turn E) evs (st, [Login u p]) = Inr ((st', pending), out)"
  shows "length (filter is_chain pending) \<le> 1 \<and>
    (\<forall>s n. SyncReq s n \<in> set pending \<longrightarrow> s = last_batch E (next_batch_token st) evs (st, [Login u p])) \<and>
    storage_ok (g_storage st') \<and> sessions_ok (g_storage st') \<and> devices_known (g_storage st')"
proof -
  have "mtx_inv (st, [Login u p])" using assms(1-3) by (simp add: mtx_inv_def chain_inv_def)
  from mtx.run_inv [OF this assms(4)] run_token [OF assms(4)] show ?thesis by (simp add: mtx_inv_def chain_inv_def)
qed

definition demo_sync :: sync_response where
  "demo_sync = \<lparr> rs_invite = [''!r''], rs_to_device = [], rs_key_counts = [(''k'', 49)],
     rs_join = [(''!r'', \<lparr>jr_state = [MemberEvent ''@me''], jr_timeline = [MemberEvent ''@you'']\<rparr>)],
     rs_next_batch = ''t1'' \<rparr>"

definition demo_mtx_events :: "mtx_event list" where
  "demo_mtx_events =
     [Answer (Login ''me'' ''pw'') (Inr (AnsLogin ''DEV'' ''tok'' ''@me'')),
      Answer (UploadKeysFirst (JString [])) (Inr AnsDone),
      Answer (InitialSync [] 0) (Inr (AnsSync demo_sync)),
      Answer (QueryKeys ''@you'') (Inr (AnsKeys [(''@you'', [(''D'',
        \<lparr>qd_device_id = ''D'', qd_keys = [(''curve25519:D'', ''c''), (''ed25519:D'', ''e'')]\<rparr>)])])),
      Answer (SyncReq ''t1'' 10000) (Inl \<lparr>err_status_code = 502, err_matrix_error = []\<rparr>)]"

lemma fresh_storage [simp]:
  "storage_ok storage_new" "sessions_ok storage_new" "devices_known storage_new"
  by (simp_all add: storage_new_def storage_ok_def sessions_ok_def devices_known_def nonnull_def)

lemma sync_chain_witness:
  "\<exists>st' pending out. run_machine (mtx_turn ref_mtx) demo_mtx_events (fresh_mtx, [Login ''me'' ''pw''])
      = Inr ((st', pending), out) \<and>
    SyncReq ''t1'' 0 \<in> set pending \<and> last_batch ref_mtx [] demo_mtx_events (fresh_mtx, [Login ''me'' ''pw'']) = ''t1'' \<and> devices_known (g_storage st')"
proof -
  define r where "r = run_machine (mtx_turn ref_mtx) demo_mtx_events (fresh_mtx, [Login ''me'' ''pw''])"
  have "case r of Inl e \<Rightarrow> False | Inr ((st', pending), out) \<Rightarrow> SyncReq ''t1'' 0 \<in> set pending"
    unfolding r_def by code_simp
  then obtain st' pending out where r: "r = Inr ((st', pending), out)" "SyncReq ''t1'' 0 \<in> set pending"
    by (cases r) auto
  have "storage_ok (g_storage fresh_mtx)" "sessions_ok (g_storage fresh_mtx)" "devices_known (g_storage fresh_mtx)"
    by (simp_all add: fresh_mtx_def)
  note chain = sync_chain [OF this r(1) [unfolded r_def]]
  have "next_batch_token fresh_mtx = []" by (simp add: fresh_mtx_def)
  with chain r show ?thesis
    unfolding r_def by (intro exI [of _ st'] exI [of _ pending] exI [of _ out]) auto
qed

text \<open>
  C26. A device's keys are the first ones seen: over any run keys once stored never change, and they are
  stored the same whether or not their signature verifies, which is only logged.
\<close>

theorem device_keys_pinned:
  assumes "run_machine (mtx_turn E) evs (st, [Login u p]) = Inr ((st', pending), out)"
    and "map_of (device_keys (g_storage st)) d = Some k"
  shows "map_of (device_keys (g_storage st')) d = Some k \<and>
    device_keys_cb (E\<lparr>me_verify := v\<rparr>) res st =
      bindr (device_keys_cb E res st) (\<lambda>(st2, out2). Inr (st2, unverified (E\<lparr>me_verify := v\<rparr>) res))"
proof -
  have "chain_inv (st, [Login u p])" by (simp add: chain_inv_def)
  from mtx_run_step [OF this assms(1)] assms(2) have "map_of (device_keys (g_storage st')) d = Some k"
    by (simp add: storage_step_def map_le_def) (metis domI)
  then show ?thesis
    by (cases "save_device_keys res (g_storage st)") (simp_all add: device_keys_cb_def)
qed

definition demo_known :: "(string, string, string, string) mtx_state" where
  "demo_known = fresh_mtx\<lparr>g_storage := storage_new\<lparr>device_keys := [(''D'', \<lparr>ed25519 = ''e1'', curve25519 = ''c1''\<rparr>)]\<rparr>\<rparr>"

lemma device_keys_pinned_witness:
  "\<exists>st' pending out. run_machine (mtx_turn ref_mtx) demo_mtx_events (demo_known, [Login ''me'' ''pw''])
      = Inr ((st', pending), out) \<and>
    map_of (device_keys (g_storage st')) ''D'' = Some \<lparr>ed25519 = ''e1'', curve25519 = ''c1''\<rparr>"
proof -
  define r where "r = run_machine (mtx_turn ref_mtx) demo_mtx_events (demo_known, [Login ''me'' ''pw''])"
  have "case r of Inl e \<Rightarrow> False | Inr ((st', pending), out) \<Rightarrow> True" unfolding r_def by code_simp
  then obtain st' pending out where r: "r = Inr ((st', pending), out)" by (cases r) auto
  have "map_of (device_keys (g_storage demo_known)) ''D'' = Some \<lparr>ed25519 = ''e1'', curve25519 = ''c1''\<rparr>"
    by (simp add: demo_known_def)
  from device_keys_pinned [OF r [unfolded r_def] this] r show ?thesis
    unfolding r_def by (intro exI [of _ st'] exI [of _ pending] exI [of _ out]) auto
qed

section \<open>Restarting\<close>

text \<open>
  C24. What a session saves the next one loads, except who it is: after the thread has ended and its files are
  written, a new process finds the same account and the same storage in them, but no device identity, and
  takes that of the new login.
\<close>

theorem matrix_restart:
  assumes "nlohmann_laws (me_json E)" and "pickle_laws (me_pickles E)"
    and "\<And>k a. ol_load (me_olm E) (ol_save (me_olm E) k a) k = Some a"
    and "storage_ok (g_storage st)" and "sessions_ok (g_storage st)" and "\<forall>f. writable f"
    and "matrix_end E writable user server key fs st = (st', out, Inr fs')"
    and "server_port server = Some hp" and "g_storage st0 = storage_new" and "\<not> g_matrix_connected st0"
  shows "\<exists>st2. matrix_start E fs' server user pw key st0 = Inr (st2, [Http (Login user pw)], True) \<and>
    g_olmclient st2 = g_olmclient st \<and>
    g_storage st2 = (g_storage st)\<lparr>device_id := [], access_token := []\<rparr> \<and>
    client_device_id (login_identity (st2\<lparr>client_device_id := d, client_access_token := t\<rparr>)) = d"
proof -
  let ?N = "me_json E"
  obtain fs1 where s: "storage_save ?N (me_pickles E) writable key (session_file user server) (g_storage st) fs = Inr fs1"
    and a: "save_account E writable (account_file user server) key (g_olmclient st) fs1 = Inr fs'"
    using assms(7) by (auto simp: matrix_end_def bindr_Inr_conv)
  let ?j = "nj_set ''account'' (JString (ol_save (me_olm E) key (g_olmclient st))) JNull"
  obtain doc where t: "nl_dump ?N 2 ?j = Some doc" "fs' = fs1(account_file user server \<mapsto> doc)"
    using a assms(6) by (auto simp: save_account_def split: option.splits)
  have "nj_ok ?j" by simp
  from nlohmann_lawsD [OF assms(1) this t(1)] have p: "doc \<noteq> []" "nl_parse ?N doc = Some ?j" by auto
  have "account_file user server \<noteq> session_file user server"
    by (simp add: account_file_def session_file_def)
  then have "storage_load ?N (me_pickles E) key (session_file user server) fs' x
      = storage_load ?N (me_pickles E) key (session_file user server) fs1 x" for x :: "('b, 'c, 'd) storage"
    by (simp add: storage_load_def t(2))
  with save_load [OF assms(1,2,4,5) _ s] assms(6)
  have l: "storage_load ?N (me_pickles E) key (session_file user server) fs' storage_new
      = Inr ((g_storage st)\<lparr>device_id := [], access_token := []\<rparr>)" by simp
  show ?thesis
    using assms(3,8-10) p l
    by (cases hp) (auto simp: matrix_start_def load_account_def t(2) nj_at_members login_identity_def)
qed

definition demo_full :: "(string, string, string, string) mtx_state" where
  "demo_full = fresh_mtx\<lparr>g_olmclient := ''acc'', g_storage := storage_new\<lparr>device_id := ''DEV'', access_token := ''tok'',
     members := [(''!r'', [(''@me:h'', True), (''@you'', True)])],
     olm_inbound_sessions := [(''c'', Some ''s'')],
     outbound_group_session_data := [(''!r'', \<lparr>od_session_id = ''i'', od_session_key = ''k'', od_message_index = 3\<rparr>)],
     outbound_group_sessions := [(''!r'', Some ''k'')]\<rparr>\<rparr>"

lemma demo_full_ok: "storage_ok (g_storage demo_full)" "sessions_ok (g_storage demo_full)"
  by (simp_all add: demo_full_def storage_ok_def sessions_ok_def nonnull_def storage_new_def ordered_def)

lemma matrix_restart_witness:
  "\<exists>st' out fs' st2. matrix_end ref_mtx (\<lambda>f. True) ''me'' ''h:8008'' ''key'' Map.empty demo_full = (st', out, Inr fs') \<and>
     matrix_start ref_mtx fs' ''h:8008'' ''me'' ''pw'' ''key'' fresh_mtx = Inr (st2, [Http (Login ''me'' ''pw'')], True) \<and>
     g_storage st2 = (g_storage demo_full)\<lparr>device_id := [], access_token := []\<rparr>"
proof -
  define r where "r = matrix_end ref_mtx (\<lambda>f. True) ''me'' ''h:8008'' ''key'' Map.empty demo_full"
  have "case r of (st', out, Inr fs') \<Rightarrow> True | _ \<Rightarrow> False" unfolding r_def by code_simp
  then obtain st' out fs' where r: "r = (st', out, Inr fs')" by (cases r) (auto split: sum.splits)
  have port: "server_port ''h:8008'' = Some (''h'', 8008)" by code_simp
  have "nlohmann_laws (me_json ref_mtx)" "pickle_laws (me_pickles ref_mtx)"
    "\<And>k a. ol_load (me_olm ref_mtx) (ol_save (me_olm ref_mtx) k a) k = Some a"
    by (simp_all add: ref_mtx_def ref_nlohmann_laws ref_pickle_laws ref_olm_def)
  moreover have "g_storage fresh_mtx = storage_new" "\<not> g_matrix_connected fresh_mtx"
    by (simp_all add: fresh_mtx_def)
  ultimately obtain st2 where "matrix_start ref_mtx fs' ''h:8008'' ''me'' ''pw'' ''key'' fresh_mtx
      = Inr (st2, [Http (Login ''me'' ''pw'')], True)"
    "g_storage st2 = (g_storage demo_full)\<lparr>device_id := [], access_token := []\<rparr>"
    using matrix_restart [OF _ _ _ demo_full_ok _ r [unfolded r_def] port, of fresh_mtx "''pw''"] by blast
  with r show ?thesis unfolding r_def by blast
qed

section \<open>Stopping\<close>

text \<open>
  C37. Stopping waits for the server. While a sync or the initial sync is pending, a run in which no sync is
  answered with success ends with a sync pending, whatever else happens in it: answers to other calls,
  messages and requests to stop of the user, and any number of failures, except an initial sync that
  fails with the status 200. A failed sync is sent again at once, from the stored token. Only with the
  first sync that is answered after the request to stop (or the initial one that fails with 200) nothing
  is sent and, as at most one call of the chain was pending (C23), no call of the chain is left.
\<close>

theorem stop_needs_answer:
  assumes "run_machine (mtx_turn E) evs (st, pending) = Inr ((st', pending'), out)"
    and "\<exists>q\<in>set pending. is_sync q" and "\<forall>ev\<in>set evs. \<not> ends_sync ev"
  shows "(\<exists>q\<in>set pending'. is_sync q) \<and>
    (\<forall>s n e. SyncReq s n \<in> set pending' \<longrightarrow>
       mtx_turn E (Answer (SyncReq s n) (Inl e)) (st', pending') =
         Inr ((st', remove1 (SyncReq s n) pending' @ [SyncReq (next_batch_token st') (me_default_timeout E)]),
           [Http (SyncReq (next_batch_token st') (me_default_timeout E))])) \<and>
    (\<forall>q (a :: mtx_error + mtx_answer). q \<in> set pending' \<longrightarrow> is_sync q \<longrightarrow> chain_inv (st, pending) \<longrightarrow>
       (g_matrix_shutdown st' \<and> (\<exists>res. a = Inr (AnsSync res)) \<or>
        (\<exists>s n e. q = InitialSync s n \<and> a = Inl e \<and> err_status_code e = 200)) \<longrightarrow>
       mtx_turn E (Answer q a) (st', pending') = Inr ((st', remove1 q pending'), []) \<and>
       \<not> (\<exists>r\<in>set (remove1 q pending'). is_chain r))"
proof (intro conjI allI impI)
  show "\<exists>q\<in>set pending'. is_sync q" by (rule run_keeps_sync [OF assms])
next
  fix s n e assume "SyncReq s n \<in> set pending'"
  then show "mtx_turn E (Answer (SyncReq s n) (Inl e)) (st', pending') =
      Inr ((st', remove1 (SyncReq s n) pending' @ [SyncReq (next_batch_token st') (me_default_timeout E)]),
        [Http (SyncReq (next_batch_token st') (me_default_timeout E))])"
    by (simp add: mtx_turn_def mtx_answered_def sync_handler_def)
next
  fix q and a :: "mtx_error + mtx_answer" assume q: "q \<in> set pending'" "is_sync q" and c: "chain_inv (st, pending)"
    and a: "g_matrix_shutdown st' \<and> (\<exists>res. a = Inr (AnsSync res)) \<or>
      (\<exists>s n e. q = InitialSync s n \<and> a = Inl e \<and> err_status_code e = 200)"
  have "mtx_answered E q a st' = Inr (st', [])"
    using q(2) a by (cases q) (auto simp: mtx_answered_def sync_handler_def initial_sync_handler_def)
  with q(1) show "mtx_turn E (Answer q a) (st', pending') = Inr ((st', remove1 q pending'), [])"
    by (simp add: mtx_turn_def)
  have "length (filter is_chain pending') \<le> 1"
    using mtx_chain.run_inv [OF c assms(1)] by (simp add: chain_inv_def)
  from chain_alone [OF this q(1)] q(2) show "\<not> (\<exists>r\<in>set (remove1 q pending'). is_chain r)"
    by (cases q) (simp_all add: filter_empty_conv)
qed

definition demo_errors :: "mtx_event list" where
  "demo_errors =
     [Answer (InitialSync [] 0) (Inl \<lparr>err_status_code = 0, err_matrix_error = []\<rparr>), AskShutdown,
      Answer (InitialSync [] 0) (Inl \<lparr>err_status_code = 502, err_matrix_error = []\<rparr>)]"

lemma stop_needs_answer_witness:
  "\<exists>st' pending' out. run_machine (mtx_turn ref_mtx) demo_errors (fresh_mtx, [InitialSync [] 0]) = Inr ((st', pending'), out) \<and>
    g_matrix_shutdown st' \<and> (\<exists>q\<in>set pending'. is_sync q) \<and>
    mtx_turn ref_mtx (Answer (InitialSync [] 0) (Inr (AnsSync demo_sync))) (st', pending')
      = Inr ((st', remove1 (InitialSync [] 0) pending'), [])"
proof -
  define r where "r = run_machine (mtx_turn ref_mtx) demo_errors (fresh_mtx, [InitialSync [] 0])"
  have "case r of Inl x \<Rightarrow> False | Inr ((st', p), out) \<Rightarrow> g_matrix_shutdown st' \<and> InitialSync [] 0 \<in> set p"
    unfolding r_def by code_simp
  then obtain st' p out where r: "r = Inr ((st', p), out)" "g_matrix_shutdown st'" "InitialSync [] 0 \<in> set p"
    by (cases r) auto
  have q: "\<exists>q\<in>set [InitialSync [] 0]. is_sync q" "\<forall>ev\<in>set demo_errors. \<not> ends_sync ev"
    by (simp_all add: demo_errors_def)
  have c: "chain_inv (fresh_mtx, [InitialSync [] 0])" by (simp add: chain_inv_def)
  note stop = stop_needs_answer [OF r(1) [unfolded r_def] q]
  have "mtx_turn ref_mtx (Answer (InitialSync [] 0) (Inr (AnsSync demo_sync))) (st', p)
      = Inr ((st', remove1 (InitialSync [] 0) p), [])"
    using stop [THEN conjunct2, THEN conjunct2, rule_format, OF r(3) _ c, of "Inr (AnsSync demo_sync)"] r(2) by auto
  with stop r show ?thesis unfolding r_def by blast
qed

text \<open>What a run of the Matrix thread looks like to the message thread: each message after a poll that found none.\<close>

definition to_messages :: "mtx_out list \<Rightarrow> message option list" where
  "to_messages out = concat (map (\<lambda>x. case x of ToMsg m \<Rightarrow> [None, Some m] | _ \<Rightarrow> []) out)"

text \<open>
  C36. The message thread ends with the Matrix thread: whatever the Matrix thread tells it in a run does not end
  it, and what the end of the thread tells it does, whether or not the files can then be saved; a Matrix thread that is not let in by its server
  setting tells it nothing, and it polls for ever.
\<close>

theorem message_thread_follows:
  assumes "run_machine (mtx_turn E) evs (st, [Login u p]) = Inr (c, out)"
    and "matrix_end E writable u server key fs (fst c) = (st', out', saved)"
  shows "message_thread (to_messages out @ to_messages out') = Inr [] \<and>
    (server_port server = None \<longrightarrow> \<not> g_matrix_connected st0 \<longrightarrow>
      (\<exists>out0. matrix_start E fs server u p key st0 = Inr (st0, out0, False) \<and>
        message_thread (to_messages out0 @ replicate n None) = Inl Blocked))"
proof -
  have "chain_inv (st, [Login u p])" by (simp add: chain_inv_def)
  from mtx_chain.run_out [OF this assms(1)] have "\<forall>x\<in>set out. good_mtx_out x" by blast
  then have "\<forall>e\<in>set (to_messages out). \<forall>m. e = Some m \<longrightarrow> m \<noteq> [] \<and> hd m \<noteq> ''SHUTDOWN''"
    by (fastforce simp: to_messages_def good_mtx_out_def split: mtx_out.splits)
  then have 1: "\<forall>e\<in>set (to_messages out @ [None]). \<forall>m. e = Some m \<longrightarrow> m \<noteq> [] \<and> hd m \<noteq> ''SHUTDOWN''"
    by simp
  have "to_messages out' = [None, Some (''SHUTDOWN'' # [])]"
    using assms(2) by (auto simp: matrix_end_def bindr_Inr_conv to_messages_def)
  then have "message_thread (to_messages out @ to_messages out') = Inr []"
    using message_thread_ends [OF 1, of "[]" "[]"] by simp
  moreover have "message_thread (to_messages [MtxErrOut m] @ replicate n None) = Inl Blocked" for m
    by (rule message_thread_waits) (simp add: to_messages_def)
  ultimately show ?thesis by (simp add: matrix_start_def)
qed

lemma message_thread_follows_witness:
  "\<exists>out out'. message_thread (to_messages out @ to_messages out') = Inr [] \<and> length (to_messages out) = 2"
proof -
  define r where "r = run_machine (mtx_turn ref_mtx) demo_mtx_events (fresh_mtx, [Login ''me'' ''pw''])"
  have "case r of Inl x \<Rightarrow> False | Inr (c, out) \<Rightarrow> length (to_messages out) = 2" unfolding r_def by code_simp
  then obtain c out where r: "r = Inr (c, out)" "length (to_messages out) = 2" by (cases r) auto
  obtain st' out' saved where "matrix_end ref_mtx (\<lambda>f. True) ''me'' ''h'' ''key'' Map.empty (fst c) = (st', out', saved)"
    by (cases "matrix_end ref_mtx (\<lambda>f. True) ''me'' ''h'' ''key'' Map.empty (fst c)")
  from message_thread_follows [OF r(1) [unfolded r_def] this] r(2) show ?thesis by blast
qed

end
