(* ===== verification/Matrix_Sharing.thy ===== *)
theory Matrix_Sharing
  imports Matrix_Properties
begin

text \<open>
  Sharing the key of a group session, src/src/cli_matrix_thread.cpp: which devices a key is claimed for,
  and what no turn of the client changes, its own identity and the keys of devices it knows.
\<close>

section \<open>Sharing the key\<close>

lemma known_le:
  assumes "m \<subseteq>\<^sub>m m'" and "m k = Some v"
  shows "m' k = Some v"
proof -
  have "m k = m' k" using assms(1) domI [of m k v] assms(2) unfolding map_le_def by blast
  with assms(2) show ?thesis by simp
qed

text \<open>What sharing a room key leaves as it was.\<close>

definition sharing :: "('a, 's, 'i, 'o) mtx_state \<Rightarrow> ('a, 's, 'i, 'o) mtx_state \<Rightarrow> bool" where
  "sharing st st' \<longleftrightarrow>
     g_olmclient st' = g_olmclient st \<and>
     map_of (devices (g_storage st)) \<subseteq>\<^sub>m map_of (devices (g_storage st')) \<and>
     map_of (device_keys (g_storage st)) \<subseteq>\<^sub>m map_of (device_keys (g_storage st')) \<and>
     dom (map_of (olm_outbound_sessions (g_storage st'))) = dom (map_of (olm_outbound_sessions (g_storage st)))"

lemma sharing_refl [simp]: "sharing st st"
  by (simp add: sharing_def)

lemma sharing_trans: "sharing st st1 \<Longrightarrow> sharing st1 st2 \<Longrightarrow> sharing st st2"
  unfolding sharing_def by (auto intro: map_le_trans)

text \<open>A device whose keys are known and with which there is no session.\<close>

definition new_device :: "('a, 's, 'i, 'o) mtx_state \<Rightarrow> string \<Rightarrow> dev_keys \<Rightarrow> bool" where
  "new_device st d k \<longleftrightarrow>
     map_of (device_keys (g_storage st)) d = Some k \<and>
     curve25519 k \<notin> dom (map_of (olm_outbound_sessions (g_storage st)))"

lemma new_device_sharing: "new_device st d k \<Longrightarrow> sharing st st' \<Longrightarrow> new_device st' d k"
  using known_le [of "map_of (device_keys (g_storage st))"] by (simp add: new_device_def sharing_def)

lemma share_with_device_sharing:
  assumes "share_with_device E p m d st = Inr (st', out)"
  shows "sharing st st'"
proof -
  obtain keys ks where r: "map_ref d dev_keys_empty (device_keys (g_storage st)) = (keys, ks)" by fastforce
  then have "map_of (device_keys (g_storage st)) \<subseteq>\<^sub>m map_of ks"
    by (auto simp: map_ref_def map_le_def split: option.splits)
  moreover have "map_of (olm_outbound_sessions (g_storage st)) (curve25519 keys) = Some x \<Longrightarrow>
      insert (curve25519 keys) (dom (map_of (olm_outbound_sessions (g_storage st))))
        = dom (map_of (olm_outbound_sessions (g_storage st)))" for x
    by (intro insert_absorb domI)
  ultimately show ?thesis using r assms
    by (auto simp: share_with_device_def sharing_def Let_def split: option.splits)
qed

lemma share_with_device_claims:
  assumes "share_with_device E p m d st = Inr (st', out)" and "new_device st d k"
  shows "out = [Http (ClaimKeys (fst m) d p)]"
proof -
  have "map_of (olm_outbound_sessions (g_storage st)) (curve25519 k) = None"
    using assms(2) by (auto simp: new_device_def)
  with assms show ?thesis by (simp add: share_with_device_def new_device_def)
qed

lemma share_with_devices_claims:
  assumes "share_with_devices E p m ds st = Inr (st', out)"
  shows "sharing st st' \<and> (\<forall>d\<in>set ds. \<forall>k. new_device st d k \<longrightarrow> Http (ClaimKeys (fst m) d p) \<in> set out)"
  using assms
proof (induction E p m ds st arbitrary: out rule: share_with_devices.induct)
  case (2 E p m d ds st)
  then obtain st1 o1 o2 where 1: "share_with_device E p m d st = Inr (st1, o1)" and out: "out = o1 @ o2"
    and 2: "sharing st1 st'" "\<forall>d\<in>set ds. \<forall>k. new_device st1 d k \<longrightarrow> Http (ClaimKeys (fst m) d p) \<in> set o2"
    by (fastforce simp: bindr_Inr_conv)
  have s: "sharing st st1" using 1 by (rule share_with_device_sharing)
  have "Http (ClaimKeys (fst m) x p) \<in> set out" if "x \<in> set (d # ds)" "new_device st x k" for x k
  proof (cases "x = d")
    case True
    with that share_with_device_claims [OF 1] out show ?thesis by simp
  next
    case False
    with that 2(2) new_device_sharing [OF that(2) s] out show ?thesis by auto
  qed
  with sharing_trans [OF s 2(1)] show ?case by blast
qed simp

lemma share_with_members_claims:
  assumes "share_with_members E p ms st = Inr (st', out)"
  shows "sharing st st' \<and>
    (\<forall>m\<in>set ms. \<forall>ds d k. map_of (devices (g_storage st)) (fst m) = Some ds \<longrightarrow> d \<in> set ds \<longrightarrow>
      new_device st d k \<longrightarrow> Http (ClaimKeys (fst m) d p) \<in> set out)"
  using assms
proof (induction E p ms st arbitrary: out rule: share_with_members.induct)
  case (2 E p m ms st)
  obtain devs ds where r: "map_ref (fst m) [] (devices (g_storage st)) = (devs, ds)" by fastforce
  let ?st = "st\<lparr>g_storage := (g_storage st)\<lparr>devices := ds\<rparr>\<rparr>"
  from 2 r obtain st1 o1 o2 where 1: "share_with_devices E p m devs ?st = Inr (st1, o1)" and out: "out = o1 @ o2"
    and 2: "sharing st1 st'" "\<forall>m\<in>set ms. \<forall>ds d k. map_of (devices (g_storage st1)) (fst m) = Some ds \<longrightarrow>
      d \<in> set ds \<longrightarrow> new_device st1 d k \<longrightarrow> Http (ClaimKeys (fst m) d p) \<in> set o2"
    by (fastforce simp: bindr_Inr_conv)
  have 0: "sharing st ?st"
    using r by (auto simp: sharing_def map_ref_def map_le_def split: option.splits)
  note c = share_with_devices_claims [OF 1]
  have s: "sharing st st1" using sharing_trans [OF 0] c by blast
  have "Http (ClaimKeys (fst x) d p) \<in> set out"
    if "x \<in> set (m # ms)" "map_of (devices (g_storage st)) (fst x) = Some l" "d \<in> set l" "new_device st d k"
    for x l d k
  proof (cases "x = m")
    case True
    then have "devs = l" using r that(2) by (simp add: map_ref_def)
    with c that(3) new_device_sharing [OF that(4) 0] True out show ?thesis by auto
  next
    case False
    have "map_of (devices (g_storage st1)) (fst x) = Some l"
      using s that(2) unfolding sharing_def by (blast intro: known_le)
    with 2(2) False that(1,3) new_device_sharing [OF that(4) s] out show ?thesis by auto
  qed
  with sharing_trans [OF s 2(1)] show ?case by blast
qed simp

definition made_key :: "('a, 's, 'i, 'o) mtx_env \<Rightarrow> string \<Rightarrow> ('a, 's, 'i, 'o) mtx_state \<Rightarrow> room_key" where
  "made_key E room st =
     (let ses = fst (ol_init_outbound_group (me_olm E) (g_olmclient st))
      in \<lparr>rk_room_id = room, rk_session_id = ol_session_id (me_olm E) ses,
          rk_session_key = ol_session_key (me_olm E) ses\<rparr>)"

lemma create_outbound_parts:
  assumes "create_outbound_megolm_session E room msg st = Inr (st', out)"
    and "map_of (members (g_storage st)) room = Some ms"
  obtains st1 out1 ses' enc where
    "share_with_members E (made_key E room st) ms
       (st\<lparr>g_olmclient := snd (ol_init_outbound_group (me_olm E) (g_olmclient st))\<rparr>) = Inr (st1, out1)"
    "send_group_message E st1 (Some (fst (ol_init_outbound_group (me_olm E) (g_olmclient st))))
       (rk_session_id (made_key E room st)) room msg = Inr (ses', Http (SendRoomMessage room enc))"
    "out = out1 @ [Http (SendRoomMessage room enc)]"
    "g_olmclient st' = g_olmclient st1" "device_keys (g_storage st') = device_keys (g_storage st1)"
proof -
  obtain ses a where i: "ol_init_outbound_group (me_olm E) (g_olmclient st) = (ses, a)" by fastforce
  have k: "made_key E room st = \<lparr>rk_room_id = room, rk_session_id = ol_session_id (me_olm E) ses,
      rk_session_key = ol_session_key (me_olm E) ses\<rparr>" by (simp add: made_key_def i)
  obtain st1 o1 ses' req where 1: "share_with_members E (made_key E room st) ms (st\<lparr>g_olmclient := a\<rparr>) = Inr (st1, o1)"
    and 2: "send_group_message E st1 (Some ses) (ol_session_id (me_olm E) ses) room msg = Inr (ses', req)"
    and 3: "out = o1 @ [req]" "\<exists>d. st' = st1\<lparr>g_storage := set_outbound_group_session room ses' d (g_storage st1)\<rparr>"
    using assms i k by (fastforce simp: create_outbound_megolm_session_def Let_def bindr_Inr_conv)
  obtain enc where "req = Http (SendRoomMessage room enc)"
    using 2 by (auto simp: send_group_message_def split: option.splits)
  with 1 2 3 show thesis
    by (intro that [of st1 o1 ses' enc]) (auto simp: i k set_outbound_group_session_def)
qed

section \<open>The identity of a client\<close>

definition own_keys :: "('a, 's, 'i, 'o) mtx_env \<Rightarrow> ('a, 's, 'i, 'o) mtx_state \<Rightarrow> dev_keys" where
  "own_keys E st = ol_identity (me_olm E) (g_olmclient st)"

text \<open>No operation of the Olm library on an account changes its identity.\<close>

definition identity_law :: "('a, 's, 'i, 'o) olm_lib \<Rightarrow> bool" where
  "identity_law L \<longleftrightarrow>
     (\<forall>u d a. ol_identity L (ol_set_ids L u d a) = ol_identity L a) \<and>
     (\<forall>n a. ol_identity L (ol_generate_keys L n a) = ol_identity L a) \<and>
     (\<forall>a. ol_identity L (ol_mark_published L a) = ol_identity L a) \<and>
     (\<forall>a. ol_identity L (snd (ol_init_outbound_group L a)) = ol_identity L a) \<and>
     (\<forall>a b s a'. ol_create_inbound L a b = Some (s, a') \<longrightarrow> ol_identity L a' = ol_identity L a) \<and>
     (\<forall>a i k s a'. ol_create_outbound L a i k = Some (s, a') \<longrightarrow> ol_identity L a' = ol_identity L a)"

lemma identity_lawD:
  assumes "identity_law L"
  shows "ol_identity L (ol_set_ids L u d a) = ol_identity L a"
    and "ol_identity L (ol_generate_keys L n a) = ol_identity L a"
    and "ol_identity L (ol_mark_published L a) = ol_identity L a"
    and "ol_init_outbound_group L a = (ses, a') \<Longrightarrow> ol_identity L a' = ol_identity L a"
    and "ol_create_inbound L a b = Some (s, a') \<Longrightarrow> ol_identity L a' = ol_identity L a"
    and "ol_create_outbound L a i k = Some (s, a') \<Longrightarrow> ol_identity L a' = ol_identity L a"
  using assms unfolding identity_law_def by (simp, simp, simp, metis snd_conv, blast+)

definition same_keys ::
  "('a, 's, 'i, 'o) mtx_env \<Rightarrow> ('a, 's, 'i, 'o) mtx_state \<Rightarrow> ('a, 's, 'i, 'o) mtx_state \<Rightarrow> mtx_out list \<Rightarrow> bool" where
  "same_keys E st st' out \<longleftrightarrow> own_keys E st' = own_keys E st"

interpretation keys: run_relation "same_keys E"
  by unfold_locales (simp_all add: same_keys_def)

lemmas keys_defs = same_keys_def own_keys_def

lemma open_olm_session_keys:
  assumes "identity_law (me_olm E)"
  shows "same_keys E st (snd (open_olm_session E k b st)) []"
  using identity_lawD(5) [OF assms, of "g_olmclient st" b]
  by (auto simp: open_olm_session_def save_room_key_def keys_defs Let_def
      split: option.split prod.split sum.split if_split)

lemma decrypt_loop_keys:
  assumes "identity_law (me_olm E)"
  shows "same_keys E st (snd (decrypt_loop E my k cs st)) []"
proof (induction cs arbitrary: st)
  case (Cons x cs)
  obtain d c where x: "x = (d, c)" by fastforce
  show ?case
  proof (cases "open_olm_session E k (cc_body c) st")
    case (Pair e st1)
    then have "same_keys E st st1 []" using open_olm_session_keys [OF assms, of st k "cc_body c"] by simp
    with Cons [of st] Cons [of st1] Pair x show ?thesis
      by (auto simp: same_keys_def split: option.splits)
  qed
qed (simp add: same_keys_def)

lemma handle_to_device_keys:
  "identity_law (me_olm E) \<Longrightarrow> handle_to_device_msg E m st = Inr st' \<Longrightarrow> same_keys E st st' []"
  using decrypt_loop_keys [of E st]
  by (auto simp: handle_to_device_msg_def decrypt_olm_message_def keys.rel_refl
      split: sum.splits prod.splits option.splits if_splits) (metis snd_conv)+

lemma handle_to_devices_keys:
  assumes "identity_law (me_olm E)"
  shows "handle_to_device_msgs E ms st = Inr st' \<Longrightarrow> same_keys E st st' []"
proof (induction ms arbitrary: st)
  case (Cons m ms)
  then obtain st1 where "handle_to_device_msg E m st = Inr st1" "same_keys E st1 st' []"
    by (auto simp: bindr_Inr_conv)
  with handle_to_device_keys [OF assms] show ?case by (fastforce simp: same_keys_def)
qed (simp add: same_keys_def)

lemma top_up_keys_keys:
  assumes "identity_law (me_olm E)"
  shows "top_up_keys E ns st = (st', out) \<Longrightarrow> same_keys E st st' out"
  by (induction ns arbitrary: st out)
    (auto simp: keys_defs identity_lawD(2) [OF assms] Let_def split: if_splits prod.splits)

text \<open>What does not touch the account at all.\<close>

lemma client_kept:
  "timeline_event E r e st = Inr (st', out) \<Longrightarrow> g_olmclient st' = g_olmclient st"
  "state_event E r e st = Inr (st', out) \<Longrightarrow> g_olmclient st' = g_olmclient st"
  "initial_member r e st = Inr (st', out) \<Longrightarrow> g_olmclient st' = g_olmclient st"
  "matrix_message E usr ad msg st = Inr (st', out) \<Longrightarrow> g_olmclient st' = g_olmclient st"
  "device_keys_cb E qs st = Inr (st', out) \<Longrightarrow> g_olmclient st' = g_olmclient st"
proof -
  show t: "timeline_event E r e st = Inr (st', out) \<Longrightarrow> g_olmclient st' = g_olmclient st" for r e st st' out
    by (cases e) (auto simp: mark_encrypted_room_def member_event_def encrypted_event_def bindr_Inr_conv
        split: if_splits option.splits prod.splits)
  show "state_event E r e st = Inr (st', out) \<Longrightarrow> g_olmclient st' = g_olmclient st"
    using t [of r e st st' out] by (auto simp: state_event_def split: room_event.splits)
  show "initial_member r e st = Inr (st', out) \<Longrightarrow> g_olmclient st' = g_olmclient st"
    by (cases e) (auto simp: member_event_def)
  show "matrix_message E usr ad msg st = Inr (st', out) \<Longrightarrow> g_olmclient st' = g_olmclient st"
    by (auto simp: matrix_message_def Let_def bindr_Inr_conv split: if_splits prod.splits)
  show "device_keys_cb E qs st = Inr (st', out) \<Longrightarrow> g_olmclient st' = g_olmclient st"
    by (auto simp: device_keys_cb_def bindr_Inr_conv)
qed

lemma same_client: "g_olmclient st' = g_olmclient st \<Longrightarrow> same_keys E st st' out"
  by (simp add: keys_defs)

lemma parse_messages_keys:
  assumes "identity_law (me_olm E)" and "parse_messages E res st = Inr (st', out)"
  shows "same_keys E st st' out"
proof -
  obtain st1 where 1: "handle_to_device_msgs E (rs_to_device res) st = Inr st1"
    using assms(2) by (auto simp: parse_messages_def bindr_Inr_conv)
  obtain st2 o2 where 2: "top_up_keys E (rs_key_counts res) st1 = (st2, o2)" by fastforce
  obtain o3 where 3: "run_machine (join_event E) (rs_join res) st2 = Inr (st', o3)"
    using assms(2) 1 2 by (auto simp: parse_messages_def bindr_Inr_conv)
  have "same_keys E s s' o'" if j: "join_event E r s = Inr (s', o')" for r s s' o'
  proof -
    obtain s1 o1 o2 where a: "run_machine (state_event E (fst r)) (jr_state (snd r)) s = Inr (s1, o1)"
      and b: "run_machine (timeline_event E (fst r)) (jr_timeline (snd r)) s1 = Inr (s', o2)" "o' = o1 @ o2"
      using j by (auto simp: join_event_def bindr_Inr_conv)
    have "same_keys E s s1 o1" by (rule keys.run [OF _ a]) (rule same_client, rule client_kept)
    moreover have "same_keys E s1 s' o2" by (rule keys.run [OF _ b(1)]) (rule same_client, rule client_kept)
    ultimately show ?thesis by (simp add: same_keys_def)
  qed
  then have "same_keys E st2 st' o3" by (rule keys.run [OF _ 3])
  with handle_to_devices_keys [OF assms(1) 1] top_up_keys_keys [OF assms(1) 2] show ?thesis
    by (simp add: same_keys_def)
qed

lemma create_outbound_keys:
  assumes "identity_law (me_olm E)" and "create_outbound_megolm_session E room msg st = Inr (st', out)"
  shows "same_keys E st st' out"
proof -
  obtain ses a where i: "ol_init_outbound_group (me_olm E) (g_olmclient st) = (ses, a)" by fastforce
  note a = identity_lawD(4) [OF assms(1) i]
  show ?thesis
  proof (cases "map_of (members (g_storage st)) room")
    case None
    then show ?thesis using assms(2) i a by (auto simp: create_outbound_megolm_session_def Let_def keys_defs)
  next
    case (Some ms)
    obtain st1 out1 where "share_with_members E (made_key E room st) ms (st\<lparr>g_olmclient := a\<rparr>) = Inr (st1, out1)"
      and st': "g_olmclient st' = g_olmclient st1"
      by (rule create_outbound_parts [OF assms(2) Some, unfolded i snd_conv])
    then have "g_olmclient st1 = a" using share_with_members_claims by (fastforce simp: sharing_def)
    with st' a show ?thesis by (simp add: keys_defs)
  qed
qed

lemma claimed_loop_keys:
  assumes "identity_law (me_olm E)"
  shows "claimed_loop E m dev p rds st = Inr (st', out) \<Longrightarrow> same_keys E st st' out"
proof (induction rds arbitrary: st out)
  case (Cons x rds)
  obtain d j where x: "x = (d, j)" by fastforce
  from Cons.prems [unfolded x] show ?case
    by (rule claimed_loop_Cons) (drule Cons.IH, simp add: keys_defs identity_lawD(6) [OF assms])
qed (simp add: same_keys_def)

lemma sync_keys:
  assumes "identity_law (me_olm E)"
  shows "sync_handler E res err st = Inr (st', out) \<Longrightarrow> same_keys E st st' out"
    and "initial_sync_handler E res err st = Inr (st', out) \<Longrightarrow> same_keys E st st' out"
proof -
  show "sync_handler E res err st = Inr (st', out) \<Longrightarrow> same_keys E st st' out"
    using parse_messages_keys [OF assms, of res st]
    by (fastforce simp: sync_handler_def sync_again_def keys_defs bindr_Inr_conv split: if_splits)
  let ?f = "\<lambda>r. run_machine (initial_member (fst r)) (jr_state (snd r))"
  have "same_keys E s s' o'" if "?f r s = Inr (s', o')" for r s s' o'
    by (rule keys.run [OF _ that]) (rule same_client, rule client_kept)
  then have "same_keys E s s' o'" if "run_machine ?f rs s = Inr (s', o')" for rs s s' o'
    by (rule keys.run [OF _ that])
  with parse_messages_keys [OF assms, of res st]
  show "initial_sync_handler E res err st = Inr (st', out) \<Longrightarrow> same_keys E st st' out"
    by (fastforce simp: initial_sync_handler_def sync_again_def keys_defs bindr_Inr_conv
        split: if_splits option.splits)
qed

lemma answered_keys:
  assumes law: "identity_law (me_olm E)" and "mtx_answered E r a st = Inr (st', out)"
  shows "same_keys E st st' out"
proof (cases r)
  case (Login u p)
  with assms(2) show ?thesis
    by (auto simp: mtx_answered_def login_cb_def login_identity_def keys_defs Let_def identity_lawD(1,2) [OF law]
        split: sum.splits mtx_answer.splits if_splits)
next
  case (QueryKeys u)
  with assms(2) show ?thesis
    by (auto simp: mtx_answered_def same_client split: sum.splits mtx_answer.splits dest: client_kept(5))
next
  case (CreateRoom nm ad usr msg)
  with assms(2) show ?thesis
    by (auto simp: mtx_answered_def create_room_cb_def bindr_Inr_conv same_keys_def
        split: sum.splits mtx_answer.splits dest!: create_outbound_keys [OF law])
next
  case (ClaimKeys m dev payload)
  with assms(2) show ?thesis
    by (auto simp: mtx_answered_def claimed_keys_cb_def keys.rel_refl split: sum.splits mtx_answer.splits option.splits
        dest: claimed_loop_keys [OF law])
next
  case (InitialSync s n)
  with assms(2) show ?thesis
    by (auto simp: mtx_answered_def same_client split: sum.splits mtx_answer.splits dest: sync_keys [OF law])
next
  case (SyncReq s n)
  with assms(2) show ?thesis
    by (auto simp: mtx_answered_def same_client split: sum.splits mtx_answer.splits dest: sync_keys [OF law])
qed (use assms(2) in \<open>auto simp: mtx_answered_def first_keys_uploaded_def keys_uploaded_cb_def keys_defs
    identity_lawD(3) [OF law] split: sum.splits if_splits\<close>)

lemma mtx_turn_keys:
  assumes "identity_law (me_olm E)" and "mtx_turn E ev c = Inr (c', out)"
  shows "same_keys E (fst c) (fst c') out"
proof -
  obtain st p where c: "c = (st, p)" by fastforce
  show ?thesis
    by (cases ev) (use assms(2) c in \<open>auto simp: mtx_turn_def bindr_Inr_conv same_client split: if_splits
      dest: answered_keys [OF assms(1)] client_kept(4)\<close>)
qed

interpretation run_keys: run_relation "\<lambda>c c'. same_keys E (fst c) (fst c')"
  by unfold_locales (simp_all add: same_keys_def)

text \<open>Over a run the identity stays, and so do the keys of devices.\<close>

lemma mtx_run_keeps:
  assumes "identity_law (me_olm E)" and "chain_inv c" and "run_machine (mtx_turn E) evs c = Inr (c', out)"
  shows "own_keys E (fst c') = own_keys E (fst c)"
    and "map_of (device_keys (g_storage (fst c))) d = Some k \<Longrightarrow> map_of (device_keys (g_storage (fst c'))) d = Some k"
proof -
  have "same_keys E (fst c) (fst c') out"
    using mtx_turn_keys [OF assms(1)] by (rule run_keys.run [OF _ assms(3)])
  then show "own_keys E (fst c') = own_keys E (fst c)" by (simp add: same_keys_def)
  have "map_of (device_keys (g_storage (fst c))) \<subseteq>\<^sub>m map_of (device_keys (g_storage (fst c')))"
    using mtx_run_step [OF assms(2,3)] by (simp add: storage_step_def)
  then show "map_of (device_keys (g_storage (fst c))) d = Some k \<Longrightarrow> map_of (device_keys (g_storage (fst c'))) d = Some k"
    by (rule known_le)
qed

end
