(* ===== verification/Matrix_Conversation.thy ===== *)
theory Matrix_Conversation
  imports Matrix_Sharing
begin

text \<open>
  Two clients and the messages between them. The one with a group session of a room encrypts the messages of
  its user with it; the other one gets the key of the session in a to-device event and decrypts them. And
  what comes before, when the session is made: its key goes to the devices of the members, with an Olm
  session where there is one and after claiming a one-time key where there is none. What is between the
  clients, the server and the Olm library, appears as the laws \<open>group_law\<close>, \<open>ratchet_law\<close> and \<open>olm_law\<close> and
  as the event that the server makes of a to-device message. No run of the client gets to make a session,
  since the callback that does first logs an error that is not there (\<open>Matrix_Sending\<close>).
\<close>

section \<open>Receiving\<close>

text \<open>
  What the Olm library promises of a group session: an inbound session made from the key of an outbound one
  decrypts what that one encrypts. And what it is for a to-device event to carry a room key for this
  client: it is an Olm message of the sender for the client's key, which opens to the key.
\<close>

definition group_law :: "('a, 's, 'i, 'o) olm_lib \<Rightarrow> bool" where
  "group_law L \<longleftrightarrow>
     (\<forall>ses t c ses'. ol_encrypt_group L ses t = Some (c, ses') \<longrightarrow>
        (\<exists>g g'. ol_init_inbound_group L (ol_session_key L ses) = Some g \<and>
                ol_decrypt_group L g c = Some (t, g')))"

definition carries_key ::
  "('a, 's, 'i, 'o) mtx_env \<Rightarrow> ('a, 's, 'i, 'o) mtx_state \<Rightarrow> json \<Rightarrow> string \<Rightarrow> room_key \<Rightarrow> bool" where
  "carries_key E st ev sender_key rk \<longleftrightarrow>
     (\<exists>m b s a plain s' j. json_olm_message (me_json E) ev = Inr m \<and> om_sender_key m = sender_key \<and>
        om_ciphertext m = [(curve25519 (ol_identity (me_olm E) (g_olmclient st)), \<lparr>cc_body = b, cc_type = 0\<rparr>)] \<and>
        ol_create_inbound (me_olm E) (g_olmclient st) b = Some (s, a) \<and>
        ol_matches_from (me_olm E) s sender_key b \<and>
        ol_decrypt (me_olm E) s 0 b = Some (plain, s') \<and> nl_parse (me_json E) plain = Some j \<and>
        json_room_key j = Inr rk)"

lemma message_json_ok: "nj_ok (message_json r m)"
  "bindr (bindr (nj_at (message_json r m) ''content'') (\<lambda>c. nj_at c ''body'')) nj_string = Inr m"
proof -
  have "message_json r m = JObject [(''content'', JObject [(''body'', JString m), (''type'', JString ''m.text'')]),
      (''room_id'', JString r), (''type'', JString ''m.room.message'')]"
    by (simp add: message_json_def nj_braces_def map_emplace_def)
  then show "nj_ok (message_json r m)"
    "bindr (bindr (nj_at (message_json r m) ''content'') (\<lambda>c. nj_at c ''body'')) nj_string = Inr m"
    by (simp_all add: ordered_def)
qed

lemma key_received:
  assumes "carries_key E st ev sk \<lparr>rk_room_id = r, rk_session_id = i, rk_session_key = k\<rparr>"
    and "\<not> inbound_group_exists r i sk (g_storage st)"
    and "ol_init_inbound_group (me_olm E) k = Some g"
  shows "\<exists>st'. handle_to_device_msg E ev st = Inr st' \<and>
    map_of (inbound_group_sessions (g_storage st')) (group_key r i sk) = Some (Some g)"
proof -
  obtain m b s a plain s' j where c: "json_olm_message (me_json E) ev = Inr m" "om_sender_key m = sk"
    "om_ciphertext m = [(curve25519 (ol_identity (me_olm E) (g_olmclient st)), \<lparr>cc_body = b, cc_type = 0\<rparr>)]"
    "ol_create_inbound (me_olm E) (g_olmclient st) b = Some (s, a)" "ol_matches_from (me_olm E) s sk b"
    "ol_decrypt (me_olm E) s 0 b = Some (plain, s')" "nl_parse (me_json E) plain = Some j"
    "json_room_key j = Inr \<lparr>rk_room_id = r, rk_session_id = i, rk_session_key = k\<rparr>"
    using assms(1) unfolding carries_key_def by blast
  then show ?thesis using assms(2,3)
    by (simp add: handle_to_device_msg_def decrypt_olm_message_def open_olm_session_def save_room_key_def
        inbound_group_exists_def set_inbound_group_session_def)
qed

text \<open>
  A room key and a message in one sync: the message is decrypted to the text that was sent, and nothing
  else is told to the message thread than that the messages were handled.
\<close>

lemma room_key_then_message:
  assumes "nlohmann_laws (me_json E)" and "group_law (me_olm E)"
    and "send_group_message E sa (Some ses) (ol_session_id (me_olm E) ses) room msg
      = Inr (ses', Http (SendRoomMessage room enc))"
    and "carries_key E sb ev (en_sender_key enc) \<lparr>rk_room_id = room,
      rk_session_id = ol_session_id (me_olm E) ses, rk_session_key = ol_session_key (me_olm E) ses\<rparr>"
    and "\<not> inbound_group_exists room (ol_session_id (me_olm E) ses) (en_sender_key enc) (g_storage sb)"
  shows "\<exists>sb'. parse_messages E \<lparr>rs_invite = [], rs_to_device = [ev], rs_key_counts = [],
      rs_join = [(room, \<lparr>jr_state = [], jr_timeline =
        [EncryptedEvent (en_session_id enc) (en_sender_key enc) (en_ciphertext enc)]\<rparr>)], rs_next_batch = tok\<rparr> sb
    = Inr (sb', [Decrypted room msg, ToMsg [''parsed_messages'']])"
proof -
  obtain doc where d: "nl_dump (me_json E) (- 1) (message_json room msg) = Some doc"
    and e: "ol_encrypt_group (me_olm E) ses doc = Some (en_ciphertext enc, ses')"
    and i: "en_session_id enc = ol_session_id (me_olm E) ses"
    using assms(3) by (auto simp: send_group_message_def split: option.splits)
  obtain g g' where g: "ol_init_inbound_group (me_olm E) (ol_session_key (me_olm E) ses) = Some g"
    "ol_decrypt_group (me_olm E) g (en_ciphertext enc) = Some (doc, g')"
    using assms(2) e unfolding group_law_def by blast
  obtain st where st: "handle_to_device_msg E ev sb = Inr st"
    "map_of (inbound_group_sessions (g_storage st)) (group_key room (en_session_id enc) (en_sender_key enc)) = Some (Some g)"
    using key_received [OF assms(4,5) g(1)] i by auto
  have "nl_parse (me_json E) doc = Some (message_json room msg)"
    using nlohmann_lawsD [OF assms(1) message_json_ok(1) d] by simp
  then have "\<exists>st'. encrypted_event E room (en_session_id enc) (en_sender_key enc) (en_ciphertext enc) st
      = Inr (st', [Decrypted room msg])"
    using st(2) g(2) message_json_ok(2) [of room msg]
    by (simp add: encrypted_event_def inbound_group_exists_def get_inbound_group_session_def)
  with st(1) show ?thesis by (auto simp: parse_messages_def join_event_def)
qed

section \<open>From one client to the other\<close>

text \<open>
  What the Olm library and the JSON library promise of a session made from the keys of a device: what a
  new session encrypts for an account that holds the one-time
  key it was made with is a pre-key message for that account, which opens to the room key.
\<close>

definition olm_law :: "('a, 's, 'i, 'o) mtx_env \<Rightarrow> ('a \<Rightarrow> string \<Rightarrow> bool) \<Rightarrow> bool" where
  "olm_law E holds \<longleftrightarrow>
     (let L = me_olm E in
      (\<forall>a b key s a' rk u c s'.
        holds b key \<longrightarrow> ol_create_outbound L a (curve25519 (ol_identity L b)) key = Some (s, a') \<longrightarrow>
        ol_encrypted_content L a' s rk u (ed25519 (ol_identity L b)) (curve25519 (ol_identity L b)) = Some (c, s') \<longrightarrow>
        (\<exists>body s1 b' plain s2 j.
           c = JObject [(''algorithm'', JString OLM_ALGO),
             (''ciphertext'', JObject [(curve25519 (ol_identity L b),
               JObject [(''body'', JString body), (''type'', JInt 0)])]),
             (''sender_key'', JString (curve25519 (ol_identity L a)))] \<and>
           ol_create_inbound L b body = Some (s1, b') \<and>
           ol_matches_from L s1 (curve25519 (ol_identity L a)) body \<and>
           ol_decrypt L s1 0 body = Some (plain, s2) \<and>
           nl_parse (me_json E) plain = Some j \<and> json_room_key j = Inr rk)))"

text \<open>The event that the server delivers for the content of a to-device message.\<close>

definition to_device_event :: "string \<Rightarrow> json \<Rightarrow> json" where
  "to_device_event sender content =
     JObject [(''content'', content), (''sender'', JString sender), (''type'', JString ''m.room.encrypted'')]"

lemma content_carries_key:
  assumes "olm_law E holds" and "holds (g_olmclient sb) key"
    and "ol_create_outbound (me_olm E) a (curve25519 (ol_identity (me_olm E) (g_olmclient sb))) key = Some (s, a')"
    and "ol_encrypted_content (me_olm E) a' s rk u (ed25519 (ol_identity (me_olm E) (g_olmclient sb)))
      (curve25519 (ol_identity (me_olm E) (g_olmclient sb))) = Some (c, s')"
  shows "carries_key E sb (to_device_event sender c) (curve25519 (ol_identity (me_olm E) a)) rk"
proof -
  let ?L = "me_olm E" and ?b = "g_olmclient sb"
  obtain body s1 b' plain s2 j where c: "c = JObject [(''algorithm'', JString OLM_ALGO),
      (''ciphertext'', JObject [(curve25519 (ol_identity ?L ?b), JObject [(''body'', JString body), (''type'', JInt 0)])]),
      (''sender_key'', JString (curve25519 (ol_identity ?L a)))]"
    and o: "ol_create_inbound ?L ?b body = Some (s1, b')"
      "ol_matches_from ?L s1 (curve25519 (ol_identity ?L a)) body" "ol_decrypt ?L s1 0 body = Some (plain, s2)"
      "nl_parse (me_json E) plain = Some j" "json_room_key j = Inr rk"
    using assms unfolding olm_law_def Let_def by metis
  have "json_olm_message (me_json E) (to_device_event sender c) = Inr \<lparr>om_sender_key = curve25519 (ol_identity ?L a),
      om_sender = sender, om_ciphertext = [(curve25519 (ol_identity ?L ?b), \<lparr>cc_body = body, cc_type = 0\<rparr>)]\<rparr>"
    by (simp add: json_olm_message_def to_device_event_def c json_olm_cipher_content_def)
  with o show ?thesis unfolding carries_key_def by fastforce
qed

lemma claimed_keys_single:
  assumes "claimed_keys_cb E u d rk [(u, [(x, j)])] st = Inr (st', out)"
    and "map_of (device_keys (g_storage st)) d = Some keys"
    and "bindr (nj_first j) (\<lambda>k. nj_at k ''key'') = Inr (JString key)"
  obtains s a c s' where
    "ol_create_outbound (me_olm E) (g_olmclient st) (curve25519 keys) key = Some (s, a)"
    "ol_encrypted_content (me_olm E) a s rk u (ed25519 keys) (curve25519 keys) = Some (c, s')"
    "requests_of out = [SendToDevice (JObject [(''messages'', JObject [(u, JObject [(d, c)])])])]"
proof -
  obtain s a where 1: "ol_create_outbound (me_olm E) (g_olmclient st) (curve25519 keys) key = Some (s, a)"
    using assms by (cases "ol_create_outbound (me_olm E) (g_olmclient st) (curve25519 keys) key")
      (auto simp: claimed_keys_cb_def)
  moreover obtain c s' where 2: "ol_encrypted_content (me_olm E) a s rk u (ed25519 keys) (curve25519 keys) = Some (c, s')"
    using assms 1 by (cases "ol_encrypted_content (me_olm E) a s rk u (ed25519 keys) (curve25519 keys)")
      (auto simp: claimed_keys_cb_def)
  moreover have "out = [Http (SendToDevice (to_device_body (JString u) d c))]"
    using assms 1 2 by (simp add: claimed_keys_cb_def Let_def)
  moreover have "to_device_body (JString u) d c = JObject [(''messages'', JObject [(u, JObject [(d, c)])])]"
    by (simp add: to_device_body_def nj_braces_def map_emplace_def)
  ultimately show thesis using that by simp
qed

text \<open>
  What making a session for a room is for: a message reaches a member that the sender had no session with.
  (No run of the client gets here, since the callback that would start it fails first, \<open>Matrix_Sending\<close>.) The session claims a
  one-time key of each known device of the members, and sends the message; whatever happens at the
  sender until the server has given the key, exactly one to-device message then goes to that device,
  and when its content and the message reach the member in one sync, in that order, the member reads
  the text that was sent.
\<close>

lemma first_message_arrives:
  assumes "nlohmann_laws (me_json E)" and "group_law (me_olm E)" and "olm_law E holds" and "identity_law (me_olm E)"
    and "map_of (members (g_storage sa)) room = Some ms" and "m \<in> set ms"
    and "map_of (devices (g_storage sa)) (fst m) = Some ds" and "d \<in> set ds" and "new_device sa d (own_keys E sb)"
    and "create_outbound_megolm_session E room msg sa = Inr (sa', out)" and "chain_inv (sa, pending)"
    and "run_machine (mtx_turn E) evs (sa', pending @ requests_of out) = Inr ((sa1, pending1), out1)"
    and "ClaimKeys (fst m) d (made_key E room sa) \<in> set pending1"
    and "holds (g_olmclient sb) key" and "bindr (nj_first j) (\<lambda>k. nj_at k ''key'') = Inr (JString key)"
    and "mtx_turn E (Answer (ClaimKeys (fst m) d (made_key E room sa)) (Inr (AnsClaim [(fst m, [(d, j)])])))
      (sa1, pending1) = Inr (c2, out2)"
    and "\<not> inbound_group_exists room (rk_session_id (made_key E room sa)) (curve25519 (own_keys E sa)) (g_storage sb)"
  shows "ClaimKeys (fst m) d (made_key E room sa) \<in> set (requests_of out) \<and>
    (\<exists>enc content sb'. SendRoomMessage room enc = last (requests_of out) \<and>
      requests_of out2 = [SendToDevice (JObject [(''messages'', JObject [(fst m, JObject [(d, content)])])])] \<and>
      parse_messages E \<lparr>rs_invite = [], rs_to_device = [to_device_event alice content], rs_key_counts = [],
        rs_join = [(room, \<lparr>jr_state = [], jr_timeline =
          [EncryptedEvent (en_session_id enc) (en_sender_key enc) (en_ciphertext enc)]\<rparr>)], rs_next_batch = tok\<rparr> sb
      = Inr (sb', [Decrypted room msg, ToMsg [''parsed_messages'']]))"
proof -
  let ?L = "me_olm E" and ?k = "made_key E room sa"
  obtain ses a where i: "ol_init_outbound_group ?L (g_olmclient sa) = (ses, a)" by fastforce
  have k: "?k = \<lparr>rk_room_id = room, rk_session_id = ol_session_id ?L ses, rk_session_key = ol_session_key ?L ses\<rparr>"
    by (simp add: made_key_def i)
  obtain st1 o1 ses' enc where 1: "share_with_members E ?k ms (sa\<lparr>g_olmclient := a\<rparr>) = Inr (st1, o1)"
    and 2: "send_group_message E st1 (Some ses) (rk_session_id ?k) room msg = Inr (ses', Http (SendRoomMessage room enc))"
    and out: "out = o1 @ [Http (SendRoomMessage room enc)]"
    and st: "g_olmclient sa' = g_olmclient st1" "device_keys (g_storage sa') = device_keys (g_storage st1)"
    by (rule create_outbound_parts [OF assms(10,5), unfolded i fst_conv snd_conv])
  have 2: "send_group_message E st1 (Some ses) (ol_session_id ?L ses) room msg = Inr (ses', Http (SendRoomMessage room enc))"
    using 2 by (simp add: k)
  note c = share_with_members_claims [OF 1]
  have n: "new_device (sa\<lparr>g_olmclient := a\<rparr>) d (own_keys E sb)" using assms(9) by (simp add: new_device_def)
  have claim: "ClaimKeys (fst m) d ?k \<in> set (requests_of out)"
  proof -
    have "Http (ClaimKeys (fst m) d ?k) \<in> set o1" using c assms(6-8) n by auto
    then show ?thesis unfolding out requests_of_def by force
  qed
  have "chain_inv (sa', pending @ requests_of out)"
    using chain_inv_quiet [OF assms(11) create_outbound_calm [OF assms(10)], of pending] assms(11)
    by (simp add: chain_inv_def)
  note run = mtx_run_keeps [OF assms(4) this assms(12), unfolded fst_conv]
  have own': "own_keys E sa' = own_keys E sa"
    using create_outbound_keys [OF assms(4,10)] by (simp add: same_keys_def)
  have "map_of (device_keys (g_storage sa')) d = Some (own_keys E sb)"
    using new_device_sharing [OF n conjunct1 [OF c]] st(2) by (simp add: new_device_def)
  then have d: "map_of (device_keys (g_storage sa1)) d = Some (own_keys E sb)" by (rule run(2))
  obtain sa2 where "claimed_keys_cb E (fst m) d ?k [(fst m, [(d, j)])] sa1 = Inr (sa2, out2)"
    using assms(13,16) by (auto simp: mtx_turn_def mtx_answered_def bindr_Inr_conv)
  from claimed_keys_single [OF this d assms(15)] obtain s a2 content s2
    where o: "ol_create_outbound ?L (g_olmclient sa1) (curve25519 (own_keys E sb)) key = Some (s, a2)"
      "ol_encrypted_content ?L a2 s ?k (fst m) (ed25519 (own_keys E sb)) (curve25519 (own_keys E sb)) = Some (content, s2)"
      "requests_of out2 = [SendToDevice (JObject [(''messages'', JObject [(fst m, JObject [(d, content)])])])]" .
  have e: "en_sender_key enc = curve25519 (own_keys E sa)"
    using 2 st(1) own' by (auto simp: send_group_message_def own_keys_def split: option.splits)
  from content_carries_key [OF assms(3,14) o(1,2) [unfolded own_keys_def], of alice]
  have "carries_key E sb (to_device_event alice content) (en_sender_key enc) ?k"
    using run(1) own' unfolding e own_keys_def by simp
  from room_key_then_message [OF assms(1,2) 2 this [unfolded k], of tok] assms(17)
  obtain sb' where "parse_messages E \<lparr>rs_invite = [], rs_to_device = [to_device_event alice content], rs_key_counts = [],
        rs_join = [(room, \<lparr>jr_state = [], jr_timeline =
          [EncryptedEvent (en_session_id enc) (en_sender_key enc) (en_ciphertext enc)]\<rparr>)], rs_next_batch = tok\<rparr> sb
      = Inr (sb', [Decrypted room msg, ToMsg [''parsed_messages'']])"
    unfolding e k by auto
  moreover have "SendRoomMessage room enc = last (requests_of out)" unfolding out by simp
  ultimately show ?thesis using claim o(3) by blast
qed

section \<open>Messages of a session\<close>

text \<open>
  What the Olm library promises of a group session over time: the inbound session made from an outbound
  session's key keeps up with it (\<open>pairs\<close>), decrypting what it encrypts, in order.
\<close>

definition ratchet_law :: "('a, 's, 'i, 'o) olm_lib \<Rightarrow> ('o \<Rightarrow> 'i \<Rightarrow> bool) \<Rightarrow> bool" where
  "ratchet_law L pairs \<longleftrightarrow>
     (\<forall>ses. \<exists>g. ol_init_inbound_group L (ol_session_key L ses) = Some g \<and> pairs ses g) \<and>
     (\<forall>ses g t c ses'. pairs ses g \<longrightarrow> ol_encrypt_group L ses t = Some (c, ses') \<longrightarrow>
        (\<exists>g'. ol_decrypt_group L g c = Some (t, g') \<and> pairs ses' g'))"

text \<open>Messages and what a session makes of them, one after the other.\<close>

inductive encrypted ::
  "('a, 's, 'i, 'o) mtx_env \<Rightarrow> string \<Rightarrow> string \<Rightarrow> string \<Rightarrow> 'o \<Rightarrow> string list \<Rightarrow> encrypted_msg list \<Rightarrow> bool"
  for E room i sk where
  none: "encrypted E room i sk ses [] []"
| next_one: "nl_dump (me_json E) (- 1) (message_json room msg) = Some doc \<Longrightarrow>
    ol_encrypt_group (me_olm E) ses doc = Some (en_ciphertext e, ses') \<Longrightarrow>
    en_session_id e = i \<Longrightarrow> en_sender_key e = sk \<Longrightarrow> encrypted E room i sk ses' msgs es \<Longrightarrow>
    encrypted E room i sk ses (msg # msgs) (e # es)"

lemma messages_sent:
  assumes "room_of (g_matrix_user st) usr (members (g_storage st)) = room" and "room \<noteq> []"
    and "map_of (outbound_group_sessions (g_storage st)) room = Some (Some ses)"
    and "map_of (outbound_group_session_data (g_storage st)) room = Some d"
    and "run_machine (mtx_turn E) (map (UserMessage usr ad) msgs) (st, pending) = Inr (c, out)"
  shows "\<exists>es. out = map (\<lambda>e. Http (SendRoomMessage room e)) es \<and>
    encrypted E room (od_session_id d) (curve25519 (own_keys E st)) ses msgs es"
  using assms
proof (induction msgs arbitrary: st ses pending out)
  case Nil
  then show ?case by (auto intro: encrypted.none)
next
  case (Cons msg msgs)
  have g: "get_outbound_group_session room (g_storage st) = ((Some ses, d), g_storage st)"
    using Cons.prems(3,4) by (simp add: get_outbound_group_session_def map_ref_def)
  have room: "in_room (g_matrix_user st) usr (g_storage st) = room" using Cons.prems(1) by (simp add: in_room_def)
  obtain c1 o1 o2 where 1: "mtx_turn E (UserMessage usr ad msg) (st, pending) = Inr (c1, o1)"
    "run_machine (mtx_turn E) (map (UserMessage usr ad) msgs) c1 = Inr (c, o2)" "out = o1 @ o2"
    using Cons.prems(5) by (auto simp: bindr_Inr_conv)
  then obtain ses' req where s: "send_group_message E st (Some ses) (od_session_id d) room msg = Inr (ses', req)"
    "o1 = [req]" and c1: "fst c1 = st\<lparr>g_storage := (g_storage st)\<lparr>outbound_group_sessions :=
      map_put room (Some ses') (outbound_group_sessions (g_storage st))\<rparr>\<rparr>"
    using room Cons.prems(2) g by (auto simp: mtx_turn_def matrix_message_def bindr_Inr_conv)
  obtain doc e where e: "req = Http (SendRoomMessage room e)" "nl_dump (me_json E) (- 1) (message_json room msg) = Some doc"
    "ol_encrypt_group (me_olm E) ses doc = Some (en_ciphertext e, ses')" "en_session_id e = od_session_id d"
    "en_sender_key e = curve25519 (own_keys E st)"
    using s(1) by (auto simp: send_group_message_def own_keys_def split: option.splits)
  obtain st1 p1 where p1: "c1 = (st1, p1)" by fastforce
  have "\<exists>es. o2 = map (\<lambda>e. Http (SendRoomMessage room e)) es \<and>
      encrypted E room (od_session_id d) (curve25519 (own_keys E st1)) ses' msgs es"
    by (rule Cons.IH [OF _ Cons.prems(2) _ _ 1(2) [unfolded p1]]) (use c1 p1 Cons.prems in simp_all)
  then obtain es where es: "o2 = map (\<lambda>e. Http (SendRoomMessage room e)) es"
    "encrypted E room (od_session_id d) (curve25519 (own_keys E st1)) ses' msgs es" by blast
  have "own_keys E st1 = own_keys E st" using c1 p1 by (simp add: own_keys_def)
  with es(2) encrypted.next_one [OF e(2-5)] have "encrypted E room (od_session_id d) (curve25519 (own_keys E st)) ses (msg # msgs) (e # es)"
    by simp
  moreover have "out = map (\<lambda>e. Http (SendRoomMessage room e)) (e # es)" using 1(3) s(2) e(1) es(1) by simp
  ultimately show ?case by blast
qed

lemma messages_received:
  assumes "nlohmann_laws (me_json E)" and "ratchet_law (me_olm E) pairs"
    and "encrypted E room i sk ses msgs es" and "pairs ses g"
    and "map_of (inbound_group_sessions (g_storage st)) (group_key room i sk) = Some (Some g)"
  shows "\<exists>st'. run_machine (timeline_event E room)
      (map (\<lambda>e. EncryptedEvent (en_session_id e) (en_sender_key e) (en_ciphertext e)) es) st
    = Inr (st', map (Decrypted room) msgs)"
  using assms(3-5)
proof (induction arbitrary: st g rule: encrypted.induct)
  case (none ses)
  then show ?case by simp
next
  case (next_one msg doc ses e ses' msgs es)
  obtain g' where g': "ol_decrypt_group (me_olm E) g (en_ciphertext e) = Some (doc, g')" "pairs ses' g'"
    using assms(2) next_one.hyps(2) next_one.prems(1) unfolding ratchet_law_def by blast
  have "nl_parse (me_json E) doc = Some (message_json room msg)"
    using nlohmann_lawsD [OF assms(1) message_json_ok(1) next_one.hyps(1)] by simp
  then obtain st1 where 1: "encrypted_event E room i sk (en_ciphertext e) st = Inr (st1, [Decrypted room msg])"
    and st1: "g_storage st1 = set_inbound_group_session room i sk g' (g_storage st)"
    using next_one.prems(2) g'(1) message_json_ok(2) [of room msg]
    by (simp add: encrypted_event_def inbound_group_exists_def get_inbound_group_session_def map_ref_def)
  have "map_of (inbound_group_sessions (g_storage st1)) (group_key room i sk) = Some (Some g')"
    using st1 by (simp add: set_inbound_group_session_def)
  from next_one.IH [OF g'(2) this] 1 next_one.hyps(3,4) show ?case by auto
qed

text \<open>
  C25. What a session sends is read. Take a client A that has a group session for a room it shares with the
  user, as a storage file can bring one (its own runs make none, C38), and a client B with a sync pending
  that was not asked to stop and has no session of that name. When the user of A sends any number of
  messages, one per turn, each is sent to the room; and when B's sync is answered with a to-device event
  that carries the key of A's session, with these events of the room in order, and with nothing else, then B decrypts
  exactly the texts that were sent, in order, tells the message thread, and syncs again from the token of
  the response. (The JSON library reads what it writes; the Olm library keeps the ratchet law.)
\<close>

theorem session_messages_read:
  assumes "nlohmann_laws (me_json E)" and "ratchet_law (me_olm E) pairs"
    and "in_room (g_matrix_user sa) usr (g_storage sa) = room" and "room \<noteq> []"
    and "map_of (outbound_group_sessions (g_storage sa)) room = Some (Some ses)"
    and "map_of (outbound_group_session_data (g_storage sa)) room = Some d"
    and "run_machine (mtx_turn E) (map (UserMessage usr ad) msgs) (sa, pa) = Inr (ca, out)"
    and "carries_key E sb ev (curve25519 (own_keys E sa)) \<lparr>rk_room_id = room, rk_session_id = od_session_id d,
      rk_session_key = ol_session_key (me_olm E) ses\<rparr>"
    and "\<not> inbound_group_exists room (od_session_id d) (curve25519 (own_keys E sa)) (g_storage sb)"
    and "SyncReq s n \<in> set pb" and "\<not> g_matrix_shutdown sb"
  shows "\<exists>es. out = map (\<lambda>e. Http (SendRoomMessage room e)) es \<and> length es = length msgs \<and>
    (\<exists>sb'. mtx_turn E (Answer (SyncReq s n) (Inr (AnsSync \<lparr>rs_invite = [], rs_to_device = [ev], rs_key_counts = [],
        rs_join = [(room, \<lparr>jr_state = [], jr_timeline =
          map (\<lambda>e. EncryptedEvent (en_session_id e) (en_sender_key e) (en_ciphertext e)) es\<rparr>)],
        rs_next_batch = tok\<rparr>))) (sb, pb)
      = Inr ((sb', remove1 (SyncReq s n) pb @ [SyncReq tok (me_timeout E)]),
         map (Decrypted room) msgs @ [ToMsg [''parsed_messages''], Http (SyncReq tok (me_timeout E))]))"
proof -
  let ?sk = "curve25519 (own_keys E sa)" and ?i = "od_session_id d"
  obtain es where es: "out = map (\<lambda>e. Http (SendRoomMessage room e)) es" "encrypted E room ?i ?sk ses msgs es"
    using messages_sent [OF assms(3) [unfolded in_room_def] assms(4-7)] by blast
  from es(2) have len: "length es = length msgs" by (induction rule: encrypted.induct) simp_all
  obtain g where g: "ol_init_inbound_group (me_olm E) (ol_session_key (me_olm E) ses) = Some g" "pairs ses g"
    using assms(2) unfolding ratchet_law_def by blast
  obtain st where st: "handle_to_device_msg E ev sb = Inr st"
    "map_of (inbound_group_sessions (g_storage st)) (group_key room ?i ?sk) = Some (Some g)"
    using key_received [OF assms(8,9) g(1)] by blast
  obtain sb' where sb': "run_machine (timeline_event E room)
      (map (\<lambda>e. EncryptedEvent (en_session_id e) (en_sender_key e) (en_ciphertext e)) es) st
    = Inr (sb', map (Decrypted room) msgs)"
    using messages_received [OF assms(1,2) es(2) g(2) st(2)] by blast
  let ?res = "\<lparr>rs_invite = [], rs_to_device = [ev], rs_key_counts = [], rs_join = [(room, \<lparr>jr_state = [], jr_timeline =
      map (\<lambda>e. EncryptedEvent (en_session_id e) (en_sender_key e) (en_ciphertext e)) es\<rparr>)], rs_next_batch = tok\<rparr>"
  have "parse_messages E ?res sb = Inr (sb', map (Decrypted room) msgs @ [ToMsg [''parsed_messages'']])"
    using st(1) sb' by (simp add: parse_messages_def join_event_def)
  moreover have "requests_of (map (Decrypted room) msgs) = []" by (induction msgs) simp_all
  ultimately have "mtx_turn E (Answer (SyncReq s n) (Inr (AnsSync ?res))) (sb, pb)
      = Inr ((sb'\<lparr>next_batch_token := tok\<rparr>, remove1 (SyncReq s n) pb @ [SyncReq tok (me_timeout E)]),
         map (Decrypted room) msgs @ [ToMsg [''parsed_messages''], Http (SyncReq tok (me_timeout E))])"
    using assms(10,11) by (simp add: mtx_turn_def mtx_answered_def sync_handler_def sync_again_def)
  with es(1) len show ?thesis by blast
qed

text \<open>Alice and Bob with the toy libraries.\<close>

definition demo_alice :: "(string, string, string, string) mtx_state" where
  "demo_alice = fresh_mtx\<lparr>g_olmclient := ''al'', g_matrix_user := ''@al'', g_storage := storage_new\<lparr>
     members := [(''!r'', [(''@al'', True), (''@bo'', True)])],
     outbound_group_session_data := [(''!r'', \<lparr>od_session_id = ''i'', od_session_key = ''k'', od_message_index = 0\<rparr>)],
     outbound_group_sessions := [(''!r'', Some ''k'')]\<rparr>\<rparr>"

definition demo_bob :: "(string, string, string, string) mtx_state" where
  "demo_bob = fresh_mtx\<lparr>g_olmclient := ''bo''\<rparr>"

lemma ref_group_law: "group_law ref_olm"
  by (simp add: group_law_def ref_olm_def)

lemma ref_olm_law: "olm_law ref_mtx (\<lambda>a k. k = ''otk'')"
proof -
  have "nl_parse ref_nlohmann (ref_nl_dump (ref_room_key_json rk)) = Some (ref_room_key_json rk)" for rk
  proof -
    have "nj_ok (ref_room_key_json rk)" by (simp add: ref_room_key_json_def ordered_def)
    from nlohmann_lawsD [OF ref_nlohmann_laws this, of 0 "ref_nl_dump (ref_room_key_json rk)"]
    show ?thesis by (simp add: ref_nlohmann_def)
  qed
  moreover have "json_room_key (ref_room_key_json rk) = Inr rk" for rk
    by (simp add: json_room_key_def ref_room_key_json_def)
  ultimately show ?thesis
    by (simp add: olm_law_def ref_mtx_def ref_olm_def ref_content_def)
qed

lemma ref_ratchet_law: "ratchet_law ref_olm (=)"
  by (simp add: ratchet_law_def ref_olm_def)

definition demo_key_event :: json where
  "demo_key_event = to_device_event ''@al''
     (ref_content ''al'' \<lparr>rk_room_id = ''!r'', rk_session_id = ''i'', rk_session_key = ''k''\<rparr> ''cbo'')"

lemma demo_carries_key:
  "carries_key ref_mtx demo_bob demo_key_event ''cal'' \<lparr>rk_room_id = ''!r'', rk_session_id = ''i'', rk_session_key = ''k''\<rparr>"
proof -
  let ?rk = "\<lparr>rk_room_id = ''!r'', rk_session_id = ''i'', rk_session_key = ''k''\<rparr>"
  have b: "ol_identity (me_olm ref_mtx) (g_olmclient demo_bob) = \<lparr>ed25519 = ''ebo'', curve25519 = ''cbo''\<rparr>"
    and a: "ol_identity (me_olm ref_mtx) ''al'' = \<lparr>ed25519 = ''eal'', curve25519 = ''cal''\<rparr>"
    by (simp_all add: demo_bob_def ref_mtx_def ref_olm_def)
  have k: "(\<lambda>a k. k = ''otk'') (g_olmclient demo_bob) ''otk''" by simp
  have "ol_create_outbound (me_olm ref_mtx) ''al'' (curve25519 (ol_identity (me_olm ref_mtx) (g_olmclient demo_bob))) ''otk''
      = Some (''cbo'', ''al'')"
    "ol_encrypted_content (me_olm ref_mtx) ''al'' ''cbo'' ?rk ''@bo'' (ed25519 (ol_identity (me_olm ref_mtx) (g_olmclient demo_bob)))
      (curve25519 (ol_identity (me_olm ref_mtx) (g_olmclient demo_bob))) = Some (ref_content ''al'' ?rk ''cbo'', ''cbo'')"
    unfolding b by (simp_all add: ref_mtx_def ref_olm_def)
  from content_carries_key [OF ref_olm_law k this, of "''@al''"] show ?thesis
    by (simp add: a demo_key_event_def)
qed

lemma session_messages_read_witness:
  "\<exists>(es :: encrypted_msg list) sb'. length es = 2 \<and>
    mtx_turn ref_mtx (Answer (SyncReq [] 0) (Inr (AnsSync \<lparr>rs_invite = [], rs_to_device = [demo_key_event], rs_key_counts = [],
      rs_join = [(''!r'', \<lparr>jr_state = [], jr_timeline =
        map (\<lambda>e. EncryptedEvent (en_session_id e) (en_sender_key e) (en_ciphertext e)) es\<rparr>)],
      rs_next_batch = ''t''\<rparr>))) (demo_bob, [SyncReq [] 0])
    = Inr ((sb', [SyncReq ''t'' 10000]),
       [Decrypted ''!r'' ''hello'', Decrypted ''!r'' ''again'', ToMsg [''parsed_messages''], Http (SyncReq ''t'' 10000)])"
proof -
  define r where "r = run_machine (mtx_turn ref_mtx) (map (UserMessage ''@bo'' ''ad'') [''hello'', ''again'']) (demo_alice, [])"
  have "case r of Inl e \<Rightarrow> False | Inr x \<Rightarrow> True" unfolding r_def by code_simp
  then obtain ca out where r: "r = Inr (ca, out)" by (cases r) auto
  have l: "nlohmann_laws (me_json ref_mtx)" "ratchet_law (me_olm ref_mtx) (=)"
    using ref_nlohmann_laws ref_ratchet_law by (simp_all add: ref_mtx_def)
  have room: "in_room (g_matrix_user demo_alice) ''@bo'' (g_storage demo_alice) = ''!r''" by code_simp
  have ses: "map_of (outbound_group_sessions (g_storage demo_alice)) ''!r'' = Some (Some ''k'')"
    "map_of (outbound_group_session_data (g_storage demo_alice)) ''!r''
      = Some \<lparr>od_session_id = ''i'', od_session_key = ''k'', od_message_index = 0\<rparr>"
    by (simp_all add: demo_alice_def)
  have own: "curve25519 (own_keys ref_mtx demo_alice) = ''cal''" "ol_session_key (me_olm ref_mtx) ''k'' = ''k''" "me_timeout ref_mtx = 10000"
    by (simp_all add: own_keys_def demo_alice_def ref_mtx_def ref_olm_def)
  have bob: "\<not> inbound_group_exists ''!r'' ''i'' ''cal'' (g_storage demo_bob)" "\<not> g_matrix_shutdown demo_bob"
    "SyncReq [] 0 \<in> set [SyncReq [] 0]"
    by (simp_all add: inbound_group_exists_def demo_bob_def fresh_mtx_def storage_new_def)
  let ?d = "\<lparr>od_session_id = ''i'', od_session_key = ''k'', od_message_index = 0\<rparr>"
  have key: "carries_key ref_mtx demo_bob demo_key_event (curve25519 (own_keys ref_mtx demo_alice))
      \<lparr>rk_room_id = ''!r'', rk_session_id = od_session_id ?d, rk_session_key = ol_session_key (me_olm ref_mtx) ''k''\<rparr>"
    "\<not> inbound_group_exists ''!r'' (od_session_id ?d) (curve25519 (own_keys ref_mtx demo_alice)) (g_storage demo_bob)"
    "''!r'' \<noteq> []"
    using demo_carries_key bob(1) by (simp_all add: own)
  from session_messages_read [OF l room key(3) ses r [unfolded r_def] key(1,2) bob(3,2), of "''t''"]
  obtain es :: "encrypted_msg list" and sb' where "length es = length [''hello'', ''again'']"
    "mtx_turn ref_mtx (Answer (SyncReq [] 0) (Inr (AnsSync \<lparr>rs_invite = [], rs_to_device = [demo_key_event], rs_key_counts = [],
      rs_join = [(''!r'', \<lparr>jr_state = [], jr_timeline =
        map (\<lambda>e. EncryptedEvent (en_session_id e) (en_sender_key e) (en_ciphertext e)) es\<rparr>)],
      rs_next_batch = ''t''\<rparr>))) (demo_bob, [SyncReq [] 0])
    = Inr ((sb', remove1 (SyncReq [] 0) [SyncReq [] 0] @ [SyncReq ''t'' (me_timeout ref_mtx)]),
       map (Decrypted ''!r'') [''hello'', ''again''] @ [ToMsg [''parsed_messages''], Http (SyncReq ''t'' (me_timeout ref_mtx))])"
    by blast
  then show ?thesis by (intro exI [of _ es] exI [of _ sb']) (simp add: own(3))
qed

end
