(* ===== verification/Matrix_Sending.thy ===== *)
theory Matrix_Sending
  imports Matrix_Conversation
begin

text \<open>
  What the Matrix client sends to others, src/src/cli_matrix_thread.cpp: a session of a room is only made
  in the callback of a new room, which reads the error of a request that has none. As long as the
  client has no session from an earlier run, no message and no key leaves it.
\<close>

section \<open>Steps that send nothing\<close>

text \<open>The calls that carry a message or a key to another user.\<close>

fun to_others :: "mtx_request \<Rightarrow> bool" where
  "to_others (SendRoomMessage r m) \<longleftrightarrow> True"
| "to_others (SendToDevice j) \<longleftrightarrow> True"
| "to_others (ClaimKeys u d k) \<longleftrightarrow> True"
| "to_others r \<longleftrightarrow> False"

definition mute :: "('a, 's, 'i, 'o) mtx_state \<Rightarrow> ('a, 's, 'i, 'o) mtx_state \<Rightarrow> mtx_out list \<Rightarrow> bool" where
  "mute st st' out \<longleftrightarrow>
     outbound_group_sessions (g_storage st') = outbound_group_sessions (g_storage st) \<and>
     (map_of (members (g_storage st)) [] = None \<longrightarrow> map_of (members (g_storage st')) [] = None) \<and>
     (\<forall>r\<in>set (requests_of out). \<not> to_others r)"

interpretation mute: run_relation mute
  by unfold_locales (auto simp: mute_def)

lemmas mute_trans = mute.rel_trans

lemma save_room_key_mute: "mute st (snd (save_room_key E k rk st)) []"
  by (auto simp: save_room_key_def mute_def set_inbound_group_session_def split: option.splits)

lemma open_olm_session_mute: "mute st (snd (open_olm_session E k b st)) []"
proof -
  let ?st = "\<lambda>a x. st\<lparr>g_olmclient := a, g_storage := (g_storage st)\<lparr>olm_inbound_sessions :=
    map_emplace k (Some x) (olm_inbound_sessions (g_storage st))\<rparr>\<rparr>"
  have 1: "mute st (?st a x) []" for a x by (simp add: mute_def)
  have 2: "mute st (snd (save_room_key E k rk (?st a x))) []" for a x rk
    using mute_trans [OF 1 save_room_key_mute] by simp
  have 3: "mute st (st\<lparr>g_olmclient := a\<rparr>) []" for a by (simp add: mute_def)
  show ?thesis
    unfolding open_olm_session_def Let_def
    by (simp split: option.split prod.split sum.split if_split add: 1 2 3 mute.rel_refl)
qed

lemma decrypt_loop_mute: "mute st (snd (decrypt_loop E my k cs st)) []"
proof (induction E my k cs st rule: decrypt_loop.induct)
  case (2 E my k d c cs st)
  show ?case
  proof (cases "open_olm_session E k (cc_body c) st")
    case (Pair e st1)
    then have "mute st st1 []" using open_olm_session_mute [of st E k "cc_body c"] by simp
    with 2 Pair show ?thesis
      using mute_trans [of st st1 "[]" _ "[]"] by (auto split: option.splits)
  qed
qed (simp add: mute.rel_refl)

lemma handle_to_device_mute: "handle_to_device_msg E m st = Inr st' \<Longrightarrow> mute st st' []"
  using decrypt_loop_mute [of st E]
  by (auto simp: handle_to_device_msg_def decrypt_olm_message_def mute.rel_refl
      split: sum.splits prod.splits option.splits if_splits) (metis snd_conv)+

lemma handle_to_devices_mute: "handle_to_device_msgs E ms st = Inr st' \<Longrightarrow> mute st st' []"
proof (induction E ms st rule: handle_to_device_msgs.induct)
  case (2 E m ms st)
  then obtain st1 where "handle_to_device_msg E m st = Inr st1" "mute st1 st' []"
    by (auto simp: bindr_Inr_conv)
  with handle_to_device_mute mute_trans [of st st1 "[]" st' "[]"] show ?case by fastforce
qed (simp add: mute.rel_refl)

lemma top_up_keys_mute: "top_up_keys E ns st = (st', out) \<Longrightarrow> mute st st' out"
  by (induction E ns st arbitrary: st' out rule: top_up_keys.induct)
    (auto simp: mute_def Let_def split: if_splits prod.splits)

lemma timeline_event_mute:
  assumes "timeline_event E r e st = Inr (st', out)" and "r \<noteq> []"
  shows "mute st st' out"
proof (cases e)
  case (EncryptedEvent i k c)
  with assms(1) show ?thesis
    by (auto simp: encrypted_event_def get_inbound_group_session_def set_inbound_group_session_def
        inbound_group_exists_def mute_def bindr_Inr_conv map_ref_def
        split: if_splits option.splits prod.splits)
qed (use assms in \<open>auto simp: mark_encrypted_room_def member_event_def add_member_def get_device_keys_def mute_def\<close>)

lemma state_event_mute: "state_event E r e st = Inr (st', out) \<Longrightarrow> r \<noteq> [] \<Longrightarrow> mute st st' out"
  using timeline_event_mute [of E r e st st' out]
  by (auto simp: state_event_def mute.rel_refl split: room_event.splits)

lemma join_event_mute:
  assumes "join_event E r st = Inr (st', out)" and "fst r \<noteq> []"
  shows "mute st st' out"
proof -
  obtain st1 o1 o2 where 1: "run_machine (state_event E (fst r)) (jr_state (snd r)) st = Inr (st1, o1)"
    and 2: "run_machine (timeline_event E (fst r)) (jr_timeline (snd r)) st1 = Inr (st', o2)" "out = o1 @ o2"
    using assms by (auto simp: join_event_def bindr_Inr_conv)
  have "mute st st1 o1" using state_event_mute assms(2) by (blast intro: mute.run [OF _ 1])
  moreover have "mute st1 st' o2" using timeline_event_mute assms(2) by (blast intro: mute.run [OF _ 2(1)])
  ultimately show ?thesis using 2(2) mute_trans by blast
qed

definition rooms_named :: "sync_response \<Rightarrow> bool" where
  "rooms_named res \<longleftrightarrow> (\<forall>r\<in>set (rs_join res). fst r \<noteq> [])"

lemma parse_messages_mute:
  assumes "parse_messages E res st = Inr (st', out)" and "rooms_named res"
  shows "mute st st' out"
proof -
  let ?o1 = "map (\<lambda>room_id. Http (JoinRoom room_id)) (rs_invite res)"
  obtain st1 where 1: "handle_to_device_msgs E (rs_to_device res) st = Inr st1"
    using assms by (auto simp: parse_messages_def bindr_Inr_conv)
  obtain st2 o2 where 2: "top_up_keys E (rs_key_counts res) st1 = (st2, o2)" by fastforce
  obtain o3 where 3: "run_machine (join_event E) (rs_join res) st2 = Inr (st', o3)"
    and out: "out = ?o1 @ o2 @ o3 @ [ToMsg [''parsed_messages'']]"
    using assms 1 2 by (auto simp: parse_messages_def bindr_Inr_conv)
  have "mute st2 st' o3"
    using join_event_mute assms(2) by (blast intro: mute.run_of [OF _ 3] dest: rooms_named_def [THEN iffD1])
  with handle_to_devices_mute [OF 1] top_up_keys_mute [OF 2] have "mute st st' (o2 @ o3)"
    using mute_trans [of st st1 "[]" st2 o2] mute_trans [of st st2 o2 st' o3] by simp
  then show ?thesis by (auto simp: out mute_def requests_of_def)
qed

lemma calm_token: "mute st st1 out \<Longrightarrow> mute st (st1\<lparr>next_batch_token := t\<rparr>) (out @ [Http (SyncReq t n)])"
  by (auto simp: mute_def)

lemma sync_handler_mute:
  assumes "sync_handler E res err st = Inr (st', out)" and "rooms_named res"
  shows "mute st st' out"
proof -
  have "mute st (st1\<lparr>next_batch_token := t\<rparr>) (out1 @ [Http (SyncReq t n)])"
    if "parse_messages E res st = Inr (st1, out1)" for st1 out1 t n
    using calm_token [OF parse_messages_mute [OF that assms(2)]] .
  with assms(1) show ?thesis
    by (auto simp: sync_handler_def sync_again_def bindr_Inr_conv split: if_splits) (simp_all add: mute_def)
qed

lemma initial_member_mute: "initial_member r e st = Inr (st', out) \<Longrightarrow> r \<noteq> [] \<Longrightarrow> mute st st' out"
  by (cases e) (auto simp: member_event_def add_member_def get_device_keys_def mute_def)

lemma initial_sync_mute:
  assumes "initial_sync_handler E res err st = Inr (st', out)" and "rooms_named res"
  shows "mute st st' out"
proof (cases "err = None \<and> \<not> g_matrix_shutdown st")
  case False
  then show ?thesis using assms(1) by (auto simp: initial_sync_handler_def mute_def split: option.splits if_splits)
next
  case True
  let ?f = "\<lambda>r. run_machine (initial_member (fst r)) (jr_state (snd r))"
  obtain st1 st2 out1 out2 where 1: "parse_messages E res st = Inr (st1, out1)"
    and 2: "run_machine ?f (rs_join res) st1 = Inr (st2, out2)"
    and 3: "st' = st2\<lparr>next_batch_token := rs_next_batch res\<rparr>"
      "out = (out1 @ out2) @ [Http (SyncReq (rs_next_batch res) (me_timeout E))]"
    using assms True by (auto simp: initial_sync_handler_def bindr_Inr_conv sync_again_def)
  have "mute s s' o'" if "r \<in> set (rs_join res)" "?f r s = Inr (s', o')" for r s s' o'
    by (rule mute.run [OF _ that(2)])
      (use that(1) assms(2) in \<open>auto simp: rooms_named_def intro: initial_member_mute\<close>)
  then have "mute st1 st2 out2" by (rule mute.run_of [OF _ 2])
  with parse_messages_mute [OF 1 assms(2)] show ?thesis unfolding 3 by (intro calm_token mute_trans)
qed

section \<open>Turns\<close>

text \<open>The rooms of every sync have a name.\<close>

fun named_answer :: "mtx_event \<Rightarrow> bool" where
  "named_answer (Answer r (Inr (AnsSync res))) \<longleftrightarrow> rooms_named res"
| "named_answer ev \<longleftrightarrow> True"

definition mute_inv :: "('a, 's, 'i, 'o) mtx_state \<times> mtx_request list \<Rightarrow> bool" where
  "mute_inv c \<longleftrightarrow>
     outbound_group_sessions (g_storage (fst c)) = [] \<and>
     map_of (members (g_storage (fst c))) [] = None \<and> (\<forall>r\<in>set (snd c). \<not> to_others r)"

lemma message_without_session:
  assumes "outbound_group_sessions (g_storage st) = []" and "in_room (g_matrix_user st) usr (g_storage st) \<noteq> []"
  shows "\<exists>e. matrix_message E usr ad msg st = Inl e"
  using assms
  by (auto simp: matrix_message_def get_outbound_group_session_def map_ref_def send_group_message_def Let_def
      split: option.splits)

lemma failed_room_mute:
  assumes "create_room_cb E usr msg [] (Some e) st = Inr (st', out)" and "map_of (members (g_storage st)) [] = None"
  shows "mute st st' out"
  using assms
  by (auto simp: create_room_cb_def print_errors_def create_outbound_megolm_session_def Let_def mute_def
      split: prod.splits)

lemma no_room: "create_room_cb E usr msg room None st = Inl Undefined"
  by (simp add: create_room_cb_def print_errors_def)

lemma answered_mute:
  assumes "mtx_answered E r a st = Inr (st', out)" and "named_answer (Answer r a)"
    and "map_of (members (g_storage st)) [] = None" and "\<not> to_others r"
  shows "mute st st' out"
proof (cases r)
  case (InitialSync s n)
  have "rooms_named no_response" by (simp add: rooms_named_def no_response_def)
  with assms InitialSync show ?thesis
    by (auto simp: mtx_answered_def mute.rel_refl split: sum.splits mtx_answer.splits dest: initial_sync_mute)
next
  case (SyncReq s n)
  have "rooms_named no_response" by (simp add: rooms_named_def no_response_def)
  with assms SyncReq show ?thesis
    by (auto simp: mtx_answered_def mute.rel_refl split: sum.splits mtx_answer.splits dest: sync_handler_mute)
next
  case (CreateRoom nm ad usr msg)
  with assms show ?thesis
    by (auto simp: mtx_answered_def mute.rel_refl no_room split: sum.splits mtx_answer.splits dest: failed_room_mute)
next
  case (QueryKeys u)
  have "save_device_keys res s = Inr s' \<Longrightarrow> outbound_group_sessions s' = outbound_group_sessions s \<and> members s' = members s"
    for res and s s' :: "('b, 'c, 'd) storage"
    by (induction res s rule: save_device_keys.induct) (auto simp: bindr_Inr_conv)
  moreover have "requests_of (unverified E res) = []" for res
    by (auto simp: requests_of_def unverified_def)
  ultimately show ?thesis using assms QueryKeys
    by (auto simp: mtx_answered_def device_keys_cb_def mute_def bindr_Inr_conv split: sum.splits mtx_answer.splits)
next
  case (Login u p)
  with assms show ?thesis
    by (auto simp: mtx_answered_def login_cb_def login_identity_def mute_def Let_def
        split: sum.splits mtx_answer.splits if_splits)
qed (use assms in \<open>auto simp: mtx_answered_def first_keys_uploaded_def keys_uploaded_cb_def mute_def
    split: sum.splits if_splits\<close>)

lemma mtx_turn_mute:
  assumes "mute_inv c" and "named_answer ev" and "mtx_turn E ev c = Inr (c', out)"
  shows "mute_inv c' \<and> (\<forall>r\<in>set (requests_of out). \<not> to_others r)"
proof -
  obtain st p where c: "c = (st, p)" by fastforce
  have keep: "mute_inv (st', q @ requests_of out) \<and> (\<forall>r\<in>set (requests_of out). \<not> to_others r)"
    if "mute st st' out" "set q \<subseteq> set p" for st' q
    using that assms(1) unfolding c mute_inv_def mute_def by auto
  show ?thesis
  proof (cases ev)
    case (Answer r a)
    show ?thesis
    proof (cases "r \<in> set p")
      case True
      then obtain st' where m: "mtx_answered E r a st = Inr (st', out)" "c' = (st', remove1 r p @ requests_of out)"
        using assms(3) c Answer by (auto simp: mtx_turn_def bindr_Inr_conv)
      have "mute st st' out"
        using answered_mute [OF m(1)] assms(1,2) True Answer c by (simp add: mute_inv_def)
      from keep [OF this set_remove1_subset [of r p]] m(2) show ?thesis by simp
    qed (use assms c Answer in \<open>simp add: mtx_turn_def\<close>)
  next
    case (UserMessage usr ad msg)
    then obtain st' where m: "matrix_message E usr ad msg st = Inr (st', out)" "c' = (st', p @ requests_of out)"
      using assms(3) c by (auto simp: mtx_turn_def bindr_Inr_conv)
    have "in_room (g_matrix_user st) usr (g_storage st) = []"
      using message_without_session [of st usr E ad msg] m(1) assms(1) c by (auto simp: mute_inv_def)
    with m(1) have "mute st st' out" by (auto simp: matrix_message_def invite_room_def mute_def)
    from keep [OF this, of p] m(2) show ?thesis by simp
  next
    case AskShutdown
    then have "c' = (st\<lparr>g_matrix_shutdown := True\<rparr>, p)" "out = []"
      using assms(3) c by (simp_all add: mtx_turn_def)
    with assms(1) c show ?thesis by (simp add: mute_inv_def)
  qed
qed

interpretation silent: machine "\<lambda>ev c. if named_answer ev then mtx_turn E ev c else Inl Blocked" mute_inv
    "\<lambda>x. \<forall>r. x = Http r \<longrightarrow> \<not> to_others r"
proof unfold_locales
  fix c ev c' out x
  assume c: "mute_inv c" "(if named_answer ev then mtx_turn E ev c else Inl Blocked) = Inr (c', out)"
  then have "named_answer ev" "mtx_turn E ev c = Inr (c', out)" by (simp_all split: if_splits)
  note m = mtx_turn_mute [OF c(1) this]
  then show "mute_inv c'" by blast
  assume "x \<in> set out"
  with m show "\<forall>r. x = Http r \<longrightarrow> \<not> to_others r" by (force simp: requests_of_def)
qed

text \<open>
  C38. No message leaves a client that has no session yet: over any run from the login on, in which the
  rooms of the syncs have names, no message is sent to a room, no key is sent to a device and none is
  claimed, and at any time a message of the user to someone who shares a room with it fails, while
  one to a new user asks for a room, and when the server has made it the callback reads the
  error of a request that has none, which is undefined.
\<close>

theorem no_message_leaves:
  assumes "outbound_group_sessions (g_storage st) = []" and "map_of (members (g_storage st)) [] = None"
    and "\<forall>ev\<in>set evs. named_answer ev" and "run_machine (mtx_turn E) evs (st, [Login u p]) = Inr (c, out)"
  shows "(\<forall>r. Http r \<in> set out \<longrightarrow> \<not> to_others r) \<and>
    (if in_room (g_matrix_user (fst c)) usr (g_storage (fst c)) \<noteq> []
     then \<exists>e. mtx_turn E (UserMessage usr ad msg) c = Inl e
     else \<exists>name c'. mtx_turn E (UserMessage usr ad msg) c = Inr (c', [Http (CreateRoom name ad usr msg)]) \<and>
       mtx_turn E (Answer (CreateRoom name ad usr msg) (Inr (AnsRoom room))) c' = Inl Undefined)"
proof -
  let ?step = "\<lambda>ev c. if named_answer ev then mtx_turn E ev c else Inl Blocked"
  have run: "run_machine ?step evs (st, [Login u p]) = Inr (c, out)"
    using assms(4) run_machine_cong [of evs ?step "mtx_turn E"] assms(3) by (simp add: fun_eq_iff)
  have "mute_inv (st, [Login u p])" using assms(1,2) by (simp add: mute_inv_def)
  from silent.run_inv [OF this run] silent.run_out [OF this run]
  have c: "mute_inv c" and out: "\<forall>r. Http r \<in> set out \<longrightarrow> \<not> to_others r" by blast+
  obtain st' pending where p: "c = (st', pending)" by fastforce
  show ?thesis
  proof (cases "in_room (g_matrix_user st') usr (g_storage st') = []")
    case False
    then show ?thesis using out message_without_session [of st' usr E ad msg] c
      by (auto simp: p mute_inv_def mtx_turn_def)
  next
    case True
    then show ?thesis using out
      by (auto simp: p mtx_turn_def matrix_message_def invite_room_def mtx_answered_def no_room)
  qed
qed

lemma no_message_leaves_witness:
  "\<exists>c out. run_machine (mtx_turn ref_mtx) demo_mtx_events (fresh_mtx, [Login ''me'' ''pw'']) = Inr (c, out) \<and>
    (\<forall>r. Http r \<in> set out \<longrightarrow> \<not> to_others r) \<and> Http (JoinRoom ''!r'') \<in> set out"
proof -
  define r where "r = run_machine (mtx_turn ref_mtx) demo_mtx_events (fresh_mtx, [Login ''me'' ''pw''])"
  have "case r of Inl x \<Rightarrow> False | Inr (c, out) \<Rightarrow> Http (JoinRoom ''!r'') \<in> set out" unfolding r_def by code_simp
  then obtain c out where r: "r = Inr (c, out)" "Http (JoinRoom ''!r'') \<in> set out" by (cases r) auto
  have "outbound_group_sessions (g_storage fresh_mtx) = []" "map_of (members (g_storage fresh_mtx)) [] = None"
    "\<forall>ev\<in>set demo_mtx_events. named_answer ev"
    by (simp_all add: fresh_mtx_def storage_new_def demo_mtx_events_def demo_sync_def rooms_named_def)
  from no_message_leaves [OF this r(1) [unfolded r_def]] r show ?thesis unfolding r_def by blast
qed

end
