(* ===== verification/Transport.thy ===== *)
theory Transport
  imports P2p_Protocol Db_Protocol
begin

text \<open>
  What carries messages: a socket between two daemons takes what the p2p thread of one sends to the
  address of the other, the inproc socket of a daemon what its two threads send each other, and the
  router puts the identity of the sender in front of a peer's message. The order is kept.
\<close>

fun to_peer :: "string \<Rightarrow> p2p_out list \<Rightarrow> message list" where
  "to_peer addr [] = []"
| "to_peer addr (SendPeer a m # os) = (if a = addr then m # to_peer addr os else to_peer addr os)"
| "to_peer addr (_ # os) = to_peer addr os"

fun to_db :: "p2p_out list \<Rightarrow> message list" where
  "to_db [] = []"
| "to_db (SendDb m # os) = m # to_db os"
| "to_db (_ # os) = to_db os"

fun to_p2p :: "db_out list \<Rightarrow> message list" where
  "to_p2p [] = []"
| "to_p2p (ToP2p m # os) = m # to_p2p os"
| "to_p2p (_ # os) = to_p2p os"

fun to_client :: "db_out list \<Rightarrow> message list" where
  "to_client [] = []"
| "to_client (ToClient m # os) = m # to_client os"
| "to_client (_ # os) = to_client os"

definition routed :: "string \<Rightarrow> message list \<Rightarrow> message list" where
  "routed ident ms = map (\<lambda>m. ident # m) ms"

lemma to_peer_map_distinct:
  "distinct as \<Longrightarrow> a \<in> set as \<Longrightarrow> to_peer a (map (\<lambda>b. SendPeer b (f b)) as) = [f a]"
proof (induction as)
  case (Cons b as)
  have "a \<notin> set as \<Longrightarrow> to_peer a (map (\<lambda>b. SendPeer b (f b)) as) = []"
    by (induction as) auto
  with Cons show ?case by auto
qed simp

lemma to_append:
  "to_peer a (xs @ ys) = to_peer a xs @ to_peer a ys" "to_db (xs @ ys) = to_db xs @ to_db ys"
  "to_p2p (us @ vs) = to_p2p us @ to_p2p vs" "to_client (us @ vs) = to_client us @ to_client vs"
proof -
  show "to_peer a (xs @ ys) = to_peer a xs @ to_peer a ys" by (induction a xs rule: to_peer.induct) auto
  show "to_db (xs @ ys) = to_db xs @ to_db ys" by (induction xs rule: to_db.induct) auto
  show "to_p2p (us @ vs) = to_p2p us @ to_p2p vs" by (induction us rule: to_p2p.induct) auto
  show "to_client (us @ vs) = to_client us @ to_client vs" by (induction us rule: to_client.induct) auto
qed

lemma to_peer_map:
  "to_peer a (map (\<lambda>x. SendPeer (f x) (g x)) xs) = map g (filter (\<lambda>x. f x = a) xs)"
  by (induction xs) auto

lemma to_db_map [simp]: "to_db (map (\<lambda>x. SendPeer (f x) (g x)) xs) = []"
  by (induction xs) auto

end
