(* ===== verification/Network.thy ===== *)
theory Network
  imports Ad_Text Transport
begin

text \<open>
  A network of daemons, all on one machine as the addresses of the code have it: each has its two
  threads, the queues of the inproc socket between them, and a first-in first-out wire from each port
  to each address. An event is a turn of one thread of one daemon, with or without a message taken
  from a wire or a queue, and with any request of a client; the order of the events is free.
\<close>

section \<open>Nodes and turns\<close>

record 'db node =
  n_p2p :: p2p_state
  n_db :: "'db db_state"
  n_to_db :: "message list"
  n_to_p2p :: "message list"

record 'db net =
  nt_nodes :: "int \<Rightarrow> 'db node option"
  nt_wire :: "int \<Rightarrow> string \<Rightarrow> message list"

datatype net_event =
    P2pTurn int "int option" bool
  | DbTurn int "message option" bool

definition hd_opt :: "'a list \<Rightarrow> 'a option" where
  "hd_opt xs = (case xs of [] \<Rightarrow> None | x # _ \<Rightarrow> Some x)"

text \<open>The message of a sender that waits for a port, with the sender's identity, and the wires without it.\<close>

definition waiting :: "'db net \<Rightarrow> int option \<Rightarrow> int \<Rightarrow> message option" where
  "waiting net src i =
     (case src of None \<Rightarrow> None
      | Some j \<Rightarrow> map_option (\<lambda>m. own_addr j # m) (hd_opt (nt_wire net j (own_addr i))))"

definition taken :: "'db net \<Rightarrow> int option \<Rightarrow> int \<Rightarrow> int \<Rightarrow> string \<Rightarrow> message list" where
  "taken net src i j a =
     (if src = Some j \<and> a = own_addr i then tl (nt_wire net j a) else nt_wire net j a)"

definition p2p_turn_at ::
  "'db env \<Rightarrow> (string \<Rightarrow> bool) \<Rightarrow> int \<Rightarrow> int option \<Rightarrow> bool \<Rightarrow> 'db net \<Rightarrow> 'db node \<Rightarrow> 'db net res" where
  "p2p_turn_at E reach i src takes net n =
     bindr (p2p_thread_turn E reach i
              (my_hashes (n_db n), waiting net src i, if takes then hd_opt (n_to_p2p n) else None)
              (n_p2p n)) (\<lambda>(p, out).
       Inr (net\<lparr>nt_nodes := (nt_nodes net)(i \<mapsto>
                   n\<lparr>n_p2p := p, n_to_db := n_to_db n @ to_db out,
                     n_to_p2p := (if takes then tl (n_to_p2p n) else n_to_p2p n)\<rparr>),
                nt_wire := (taken net src i)(i := (\<lambda>a. taken net src i i a @ to_peer a out))\<rparr>))"

definition db_turn_at ::
  "'db env \<Rightarrow> (int \<Rightarrow> string) \<Rightarrow> int \<Rightarrow> message option \<Rightarrow> bool \<Rightarrow> 'db net \<Rightarrow> 'db node
    \<Rightarrow> ('db net \<times> message list) res" where
  "db_turn_at E name i client takes net n =
     bindr (db_thread_turn E (name i)
              (my_peers (n_p2p n), client, if takes then hd_opt (n_to_db n) else None)
              (n_db n)) (\<lambda>(d, out).
       Inr (net\<lparr>nt_nodes := (nt_nodes net)(i \<mapsto>
                   n\<lparr>n_db := d, n_to_p2p := n_to_p2p n @ to_p2p out,
                     n_to_db := (if takes then tl (n_to_db n) else n_to_db n)\<rparr>)\<rparr>,
            to_client out))"

definition net_turn ::
  "'db env \<Rightarrow> (string \<Rightarrow> bool) \<Rightarrow> (int \<Rightarrow> string) \<Rightarrow> net_event \<Rightarrow> 'db net
    \<Rightarrow> ('db net \<times> message list) res" where
  "net_turn E reach name ev net =
     (case ev of
        P2pTurn i src takes \<Rightarrow>
          (case nt_nodes net i of
             None \<Rightarrow> Inr (net, [])
           | Some n \<Rightarrow> bindr (p2p_turn_at E reach i src takes net n) (\<lambda>net'. Inr (net', [])))
      | DbTurn i client takes \<Rightarrow>
          (case nt_nodes net i of
             None \<Rightarrow> Inr (net, [])
           | Some n \<Rightarrow> db_turn_at E name i client takes net n))"

section \<open>Messages on the wires and in the queues\<close>

definition wire_msg :: "'db env \<Rightarrow> int \<Rightarrow> message \<Rightarrow> bool" where
  "wire_msg E i m \<longleftrightarrow>
     (\<exists>ps. m = peer_msg i ps) \<or> (\<exists>hs. m = hash_msg i hs) \<or> (\<exists>hs. hs \<noteq> [] \<and> m = req_msg i hs) \<or>
     (\<exists>sz ds. m = ''DOC'' # sz # ds \<and> announces sz ds \<and> (\<forall>d\<in>set ds. ad_text E d))"

text \<open>
  A wire from port i whose receiver knows i (k) or not: digests and requests come only when the
  receiver knows the sender, at the latest from a list of peers before them on the wire.
\<close>

fun wire_ok :: "'db env \<Rightarrow> int \<Rightarrow> bool \<Rightarrow> message list \<Rightarrow> bool" where
  "wire_ok E i k [] \<longleftrightarrow> True"
| "wire_ok E i k (m # ms) \<longleftrightarrow>
     wire_msg E i m \<and> (hd m \<in> {''HASH'', ''REQ''} \<longrightarrow> k) \<and> wire_ok E i (k \<or> hd m = ''PEER'') ms"

definition ends_known :: "bool \<Rightarrow> message list \<Rightarrow> bool" where
  "ends_known k ms \<longleftrightarrow> k \<or> (\<exists>m\<in>set ms. hd m = ''PEER'')"

lemma wire_ok_append:
  "wire_ok E i k (xs @ ys) \<longleftrightarrow> wire_ok E i k xs \<and> wire_ok E i (ends_known k xs) ys"
  by (induction xs arbitrary: k) (auto simp: ends_known_def disj_assoc)

lemma wire_ok_mono: "wire_ok E i k ms \<Longrightarrow> (k \<Longrightarrow> k') \<Longrightarrow> wire_ok E i k' ms"
proof (induction ms arbitrary: k k')
  case (Cons m ms)
  have "wire_ok E i (k' \<or> hd m = ''PEER'') ms" by (rule Cons.IH [of "k \<or> hd m = ''PEER''"]) (use Cons.prems in auto)
  with Cons.prems show ?case by auto
qed simp

lemma ends_known_append: "ends_known k (xs @ ys) \<longleftrightarrow> ends_known (ends_known k xs) ys"
  by (auto simp: ends_known_def)

lemma ends_known_mono: "ends_known k ms \<Longrightarrow> (k \<Longrightarrow> k') \<Longrightarrow> ends_known k' ms"
  by (auto simp: ends_known_def)

definition db_queue_ok :: "'db env \<Rightarrow> string set \<Rightarrow> message \<Rightarrow> bool" where
  "db_queue_ok E peers m \<longleftrightarrow>
     wf_db m \<and> (hd m = ''GET'' \<longrightarrow> m ! 1 \<in> peers) \<and>
     (hd m = ''INS'' \<longrightarrow> (\<forall>t\<in>set (drop 2 m). ad_text E t))"

definition p2p_queue_ok :: "'db env \<Rightarrow> string set \<Rightarrow> message \<Rightarrow> bool" where
  "p2p_queue_ok E peers m \<longleftrightarrow>
     wf_from_db m \<and> (hd m = ''PUT'' \<longrightarrow> m ! 1 \<in> peers \<and> (\<forall>t\<in>set (drop 3 m). ad_text E t))"

lemma queue_ok_mono:
  "db_queue_ok E peers m \<Longrightarrow> peers \<subseteq> peers' \<Longrightarrow> db_queue_ok E peers' m"
  "p2p_queue_ok E peers m \<Longrightarrow> peers \<subseteq> peers' \<Longrightarrow> p2p_queue_ok E peers' m"
  by (auto simp: db_queue_ok_def p2p_queue_ok_def)

section \<open>What a turn of the p2p thread sends\<close>

text \<open>The sender's side of a wire: a peer that is not to be told again has been told.\<close>

definition told_ok :: "string \<Rightarrow> p2p_state \<Rightarrow> bool \<Rightarrow> bool" where
  "told_ok a s k \<longleftrightarrow> (a \<in> set (my_peers s) \<longrightarrow> \<not> to_bcast_peers s \<longrightarrow> k)"

lemma wire_msgs:
  "wire_msg E i (peer_msg i ps)" "wire_msg E i (hash_msg i hs)" "hs \<noteq> [] \<Longrightarrow> wire_msg E i (req_msg i hs)"
  by (auto simp: wire_msg_def)

lemma hd_msgs [simp]:
  "hd (peer_msg i ps) = ''PEER''" "hd (hash_msg i hs) = ''HASH''" "hd (req_msg i hs) = ''REQ''"
  by (simp_all add: peer_msg_def hash_msg_def req_msg_def)

lemma wire_ok_known: "\<forall>m\<in>set ms. wire_msg E i m \<Longrightarrow> wire_ok E i True ms"
  by (induction ms) auto

lemma wire_ok_peers: "\<forall>m\<in>set ms. \<exists>ps. m = peer_msg i ps \<Longrightarrow> wire_ok E i k ms"
  by (induction ms arbitrary: k) (auto simp: wire_msgs)

lemma p2p_sends_wire:
  assumes inv: "p2p_inv i s" and rk: "reqs_known s" and sends: "p2p_sends i hashes s = Inr (s', out)"
    and told: "told_ok a s k"
  shows "wire_ok E i k (to_peer a out)" and "told_ok a s' (ends_known k (to_peer a out))"
    and "a \<notin> set (my_peers s) \<Longrightarrow> to_peer a out = []" and "to_db out = []" and "reqs_known s'"
proof -
  note eq = p2p_sends_eq [OF sends]
  let ?ps = "to_peer a (peer_sends i s)" and ?hs = "to_peer a (hash_sends i hashes s)"
  let ?rs = "to_peer a (req_sends i s)"
  have out: "to_peer a out = ?ps @ ?hs @ ?rs" by (simp add: eq(1) to_append)
  have none: "?ps = []" "?hs = []" "?rs = []" if "a \<notin> set (my_peers s)"
    using that rk
    by (auto simp: sends_defs to_peer_map case_prod_unfold filter_empty_conv reqs_known_def)
  then show "a \<notin> set (my_peers s) \<Longrightarrow> to_peer a out = []" by (simp add: out)
  have ps: "\<forall>m\<in>set ?ps. \<exists>ps. m = peer_msg i ps" by (auto simp: peer_sends_def to_peer_map)
  have hs: "\<forall>m\<in>set (?hs @ ?rs). wire_msg E i m"
  proof -
    have "\<forall>(a, hs)\<in>set (db_requests s). hs \<noteq> []" using inv by (auto simp: p2p_inv_def reqs_ok_def)
    then show ?thesis
      by (auto simp: hash_sends_def req_sends_def to_peer_map case_prod_unfold intro!: wire_msgs)
  qed
  have known: "ends_known k ?ps" if "a \<in> set (my_peers s)"
    using that told by (auto simp: told_ok_def ends_known_def peer_sends_def to_peer_map peer_msg_def)
  have "wire_ok E i k ?ps"
    using ps by (rule wire_ok_peers)
  then show "wire_ok E i k (to_peer a out)"
    using known none(2,3) wire_ok_known [OF hs] by (cases "a \<in> set (my_peers s)") (auto simp: out wire_ok_append)
  show "told_ok a s' (ends_known k (to_peer a out))"
    using known by (auto simp: told_ok_def eq(2) out ends_known_append ends_known_def)
  show "to_db out = []" by (simp add: eq(1) to_append sends_defs case_prod_unfold)
  show "reqs_known s'" using rk eq(2,6) by (auto simp: reqs_known_def)
qed

section \<open>What an answer of the p2p thread does\<close>

lemma announces_count: "announces sz xs \<Longrightarrow> length xs < 2 ^ 64 \<Longrightarrow> stoul sz = Inr (length xs)"
  by (simp add: announces_def)

text \<open>
  A message of a daemon j leads to well-formed requests to the database thread only, for addresses of
  peers; after a list of peers its sender is a peer.
\<close>

lemma p2p_answer_p2p_wire:
  assumes rk: "reqs_known s" and msg: "wire_msg E j c"
    and known: "hd c \<in> {''HASH'', ''REQ''} \<longrightarrow> own_addr j \<in> set (my_peers s)"
    and op: "p2p_answer_p2p E reach i hashes (ident # c) s = Inr (s', out)"
  shows "reqs_known s'" and "set (my_peers s) \<subseteq> set (my_peers s')"
    and "\<forall>m\<in>set (to_db out). db_queue_ok E (set (my_peers s')) m" and "to_peer a out = []"
    and "hd c = ''PEER'' \<Longrightarrow> i \<noteq> j \<Longrightarrow> own_addr j \<in> set (my_peers s')"
proof -
  have learnt: "own_addr j \<in> set (my_peers s')" if h: "hd c = ''PEER''" and ij: "i \<noteq> j"
  proof -
    obtain ps where "c = peer_msg j ps"
      using msg h by (auto simp: wire_msg_def)
    then have "peer_loop reach i (Suc (length ps)) (own_addr j # ps) s = Inr (s', out)"
      using op by (auto simp: p2p_answer_p2p_def peer_msg_def msg_count_Inr bindr_Inr_conv stoul_to_string_conv)
    then have "set (my_peers s') = set (my_peers s) \<union> (set (own_addr j # ps) - {own_addr i})"
      using peer_loop_effect [of reach i "Suc (length ps)" "own_addr j # ps" s s' out] by (auto simp: set_learn)
    moreover have "own_addr j \<noteq> own_addr i" using inj_own_addr ij by blast
    ultimately show ?thesis by simp
  qed
  from op have "reqs_known s' \<and> set (my_peers s) \<subseteq> set (my_peers s') \<and>
      (\<forall>m\<in>set (to_db out). db_queue_ok E (set (my_peers s')) m) \<and> to_peer a out = [] \<and>
      (hd c = ''PEER'' \<longrightarrow> i \<noteq> j \<longrightarrow> own_addr j \<in> set (my_peers s'))"
  proof (cases rule: p2p_answer_p2p_cases)
    case (peer id' sz m num)
    note eff = peer_loop_effect [OF peer(3)]
    then have out: "\<forall>x\<in>set out. \<exists>b. x = Connect b" by blast
    then have "to_db out = []" "to_peer a out = []"
      by (induction out) auto
    moreover have sub: "set (my_peers s') = set (my_peers s) \<union> (set (take num m) - {own_addr i})"
      using eff by (simp add: set_learn)
    ultimately show ?thesis using rk eff learnt by (auto simp: reqs_known_def)
  next
    case (hash id' addr sz m num)
    obtain hs where "c = hash_msg j hs"
      using msg hash(1) by (auto simp: wire_msg_def peer_msg_def req_msg_def)
    then have "addr \<in> set (my_peers s)" using known hash(1) by (simp add: hash_msg_def)
    then have "reqs_known s'"
      using rk fold_want_hash_keys [of hashes addr "take num m" s]
      unfolding hash(4) reqs_known_def fold_want_hash_frame by blast
    then show ?thesis using hash by (simp add: fold_want_hash_frame)
  next
    case (req id' addr sz m num)
    obtain hs where "c = req_msg j hs"
      using msg req(1) by (auto simp: wire_msg_def peer_msg_def hash_msg_def)
    then have "addr \<in> set (my_peers s)" using known req(1) by (simp add: req_msg_def)
    with announces_take [OF req(2,3)] rk req show ?thesis by (simp add: db_queue_ok_def wf_db_def)
  next
    case (doc id' sz m num docs)
    then have "\<forall>d\<in>set m. ad_text E d"
      using msg by (auto simp: wire_msg_def peer_msg_def hash_msg_def req_msg_def)
    then have "\<forall>d\<in>set docs. ad_text E d"
      unfolding doc(5) fold_keep_new_doc by (auto dest: in_set_takeD)
    with announces_length [of docs] rk doc show ?thesis by (simp add: db_queue_ok_def wf_db_def)
  next
    case unknown
    with rk learnt show ?thesis by simp
  qed
  then show "reqs_known s'" and "set (my_peers s) \<subseteq> set (my_peers s')"
    and "\<forall>m\<in>set (to_db out). db_queue_ok E (set (my_peers s')) m" and "to_peer a out = []"
    and "hd c = ''PEER'' \<Longrightarrow> i \<noteq> j \<Longrightarrow> own_addr j \<in> set (my_peers s')" by blast+
qed

lemma p2p_answer_db_wire:
  assumes rk: "reqs_known s" and m: "p2p_queue_ok E (set (my_peers s)) m"
    and op: "p2p_answer_db dbg m s = Inr (s', out)"
  shows "reqs_known s'" and "my_peers s' = my_peers s" and "to_bcast_peers s' = to_bcast_peers s"
    and "to_db out = []" and "wire_ok E i k (to_peer a out)"
    and "a \<notin> set (my_peers s) \<Longrightarrow> to_peer a out = []"
proof -
  from op have "reqs_known s' \<and> my_peers s' = my_peers s \<and> to_bcast_peers s' = to_bcast_peers s \<and>
      to_db out = [] \<and> wire_ok E i k (to_peer a out) \<and> (a \<notin> set (my_peers s) \<longrightarrow> to_peer a out = [])"
  proof (cases rule: p2p_answer_db_cases)
    case (put addr sz m' num)
    then have "\<forall>d\<in>set (take num m'). ad_text E d"
      using m by (auto simp: p2p_queue_ok_def dest: in_set_takeD)
    with announces_take [OF put(2,3)] have "wire_msg E i (''DOC'' # sz # take num m')"
      by (auto simp: wire_msg_def)
    with put rk show ?thesis by auto
  qed (use rk in \<open>simp_all add: reqs_known_def\<close>)
  then show "reqs_known s'" and "my_peers s' = my_peers s" and "to_bcast_peers s' = to_bcast_peers s"
    and "to_db out = []" and "wire_ok E i k (to_peer a out)"
    and "a \<notin> set (my_peers s) \<Longrightarrow> to_peer a out = []" by blast+
qed

section \<open>A turn of the p2p thread\<close>

text \<open>
  What is known of the messages a turn takes: the one from the wire of j, and the one from the
  database thread.
\<close>

definition takes_ok :: "'db env \<Rightarrow> int \<Rightarrow> p2p_state \<Rightarrow> message option \<Rightarrow> message option \<Rightarrow> bool" where
  "takes_ok E j s pm dm \<longleftrightarrow>
     (\<forall>m. pm = Some m \<longrightarrow> (\<exists>ident c. m = ident # c \<and> wire_msg E j c \<and>
        (hd c \<in> {''HASH'', ''REQ''} \<longrightarrow> own_addr j \<in> set (my_peers s)))) \<and>
     (\<forall>m. dm = Some m \<longrightarrow> p2p_queue_ok E (set (my_peers s)) m)"

lemma p2p_turn_wire:
  assumes inv: "p2p_inv i s" and rk: "reqs_known s" and ok: "takes_ok E j s pm dm"
    and turn: "p2p_thread_turn E reach i (hashes, pm, dm) s = Inr (s', out)"
  shows "p2p_inv i s'" and "reqs_known s'" and "set (my_peers s) \<subseteq> set (my_peers s')"
    and "\<forall>m\<in>set (to_db out). db_queue_ok E (set (my_peers s')) m"
    and "\<And>k. told_ok a s k \<Longrightarrow> wire_ok E i k (to_peer a out) \<and> told_ok a s' (ends_known k (to_peer a out))"
    and "a \<notin> set (my_peers s') \<Longrightarrow> to_peer a out = []"
    and "\<And>ident c. pm = Some (ident # c) \<Longrightarrow> hd c = ''PEER'' \<Longrightarrow> i \<noteq> j \<Longrightarrow> own_addr j \<in> set (my_peers s')"
proof -
  show "p2p_inv i s'" using p2p.step_inv [OF inv turn] .
  from turn obtain s1 out1 s2 out2 out3 where t: "p2p_sends i hashes s = Inr (s1, out1)"
    "(case pm of None \<Rightarrow> Inr (s1, []) | Some m \<Rightarrow> p2p_answer_p2p E reach i hashes m s1) = Inr (s2, out2)"
    "(case dm of None \<Rightarrow> Inr (s2, []) | Some m \<Rightarrow> p2p_answer_db (e_dbg E) m s2) = Inr (s', out3)"
    "out = out1 @ out2 @ out3"
    by (cases rule: p2p_thread_turnE)
  note 1 = p2p_sends_wire [OF inv rk t(1)] and frame = p2p_sends_eq [OF t(1)]
  have rk1: "reqs_known s1" using 1(5) [of a True] by (simp add: told_ok_def)
  have db1: "to_db out1 = []" using 1(4) [of a True] by (simp add: told_ok_def)
  have 2: "reqs_known s2 \<and> set (my_peers s) \<subseteq> set (my_peers s2) \<and>
      (\<forall>m\<in>set (to_db out2). db_queue_ok E (set (my_peers s2)) m) \<and> (\<forall>a. to_peer a out2 = []) \<and>
      (to_bcast_peers s2 \<or> my_peers s2 = my_peers s) \<and>
      (\<forall>ident c. pm = Some (ident # c) \<longrightarrow> hd c = ''PEER'' \<longrightarrow> i \<noteq> j \<longrightarrow> own_addr j \<in> set (my_peers s2))"
  proof (cases pm)
    case None
    with t(2) rk1 frame(2) show ?thesis by simp
  next
    case (Some m)
    then obtain ident c where m: "m = ident # c" "wire_msg E j c"
      "hd c \<in> {''HASH'', ''REQ''} \<longrightarrow> own_addr j \<in> set (my_peers s1)"
      using ok frame(2) by (auto simp: takes_ok_def)
    have a: "p2p_answer_p2p E reach i hashes (ident # c) s1 = Inr (s2, out2)" using t(2) Some m by simp
    note w = p2p_answer_p2p_wire [OF rk1 m(2,3) a]
    show ?thesis using w(1-3) w(4) w(5) p2p_answer_p2p_told(2) [OF a] frame(2) Some m(1) by auto
  qed
  have 3: "reqs_known s' \<and> my_peers s' = my_peers s2 \<and> to_bcast_peers s' = to_bcast_peers s2 \<and>
      to_db out3 = [] \<and> wire_ok E i k (to_peer a out3) \<and> (a \<notin> set (my_peers s2) \<longrightarrow> to_peer a out3 = [])" for a k
  proof (cases dm)
    case None
    with t(3) 2 show ?thesis by simp
  next
    case (Some m)
    then have "p2p_queue_ok E (set (my_peers s2)) m" using ok 2 queue_ok_mono(2) by (auto simp: takes_ok_def)
    moreover have a: "p2p_answer_db (e_dbg E) m s2 = Inr (s', out3)" using t(3) Some by simp
    moreover have "reqs_known s2" using 2 by simp
    ultimately show ?thesis using p2p_answer_db_wire [of s2 E m "e_dbg E" s' out3] by blast
  qed
  show "reqs_known s'" "set (my_peers s) \<subseteq> set (my_peers s')" using 2 3 by auto
  show "\<forall>m\<in>set (to_db out). db_queue_ok E (set (my_peers s')) m"
    using 2 3 by (simp add: t(4) to_append db1)
  show "a \<notin> set (my_peers s') \<Longrightarrow> to_peer a out = []"
    using 1(3) [of a True] 2 3 by (auto simp: t(4) to_append told_ok_def)
  show "\<And>ident c. pm = Some (ident # c) \<Longrightarrow> hd c = ''PEER'' \<Longrightarrow> i \<noteq> j \<Longrightarrow> own_addr j \<in> set (my_peers s')"
    using 2 3 by simp
  fix k assume k: "told_ok a s k"
  have p: "to_peer a out = to_peer a out1 @ to_peer a out3" using 2 by (simp add: t(4) to_append)
  have "told_ok a s' (ends_known k (to_peer a out1))"
    using 1(2) [OF k] 2 3 frame(2,3) by (auto simp: told_ok_def)
  then show "wire_ok E i k (to_peer a out) \<and> told_ok a s' (ends_known k (to_peer a out))"
    using 1(1) [OF k] 3 by (auto simp: p wire_ok_append ends_known_append told_ok_def ends_known_def)
qed

section \<open>The invariant of the network\<close>

abbreviation knows :: "'db node \<Rightarrow> int \<Rightarrow> bool" where
  "knows n i \<equiv> own_addr i \<in> set (my_peers (n_p2p n))"

definition node_ok ::
  "'db env \<Rightarrow> (double \<Rightarrow> double) \<Rightarrow> ('db \<Rightarrow> xview) \<Rightarrow> string \<Rightarrow> int \<Rightarrow> 'db node \<Rightarrow> bool" where
  "node_ok E rr view db_name i n \<longleftrightarrow>
     p2p_inv i (n_p2p n) \<and> reqs_known (n_p2p n) \<and> db_written_inv E rr view db_name (n_db n) \<and>
     (\<forall>m\<in>set (n_to_db n). db_queue_ok E (set (my_peers (n_p2p n))) m) \<and>
     (\<forall>m\<in>set (n_to_p2p n). p2p_queue_ok E (set (my_peers (n_p2p n))) m)"

text \<open>Every wire is in order for its receiver, and told as its sender thinks it is.\<close>

definition net_inv ::
  "'db env \<Rightarrow> (double \<Rightarrow> double) \<Rightarrow> ('db \<Rightarrow> xview) \<Rightarrow> (int \<Rightarrow> string) \<Rightarrow> 'db net \<Rightarrow> bool" where
  "net_inv E rr view name net \<longleftrightarrow>
     (\<forall>i n. nt_nodes net i = Some n \<longrightarrow>
        node_ok E rr view (name i) i n \<and> nt_wire net i (own_addr i) = []) \<and>
     (\<forall>i j n. nt_nodes net j = Some n \<longrightarrow> wire_ok E i (knows n i) (nt_wire net i (own_addr j))) \<and>
     (\<forall>i j m n. nt_nodes net i = Some m \<longrightarrow> nt_nodes net j = Some n \<longrightarrow>
        told_ok (own_addr j) (n_p2p m) (ends_known (knows n i) (nt_wire net i (own_addr j))))"

lemma net_invD:
  assumes "net_inv E rr view name net"
  shows "nt_nodes net i = Some n \<Longrightarrow> node_ok E rr view (name i) i n"
    and "nt_nodes net i = Some n \<Longrightarrow> nt_wire net i (own_addr i) = []"
    and "nt_nodes net j = Some n \<Longrightarrow> wire_ok E i (knows n i) (nt_wire net i (own_addr j))"
    and "nt_nodes net i = Some m \<Longrightarrow> nt_nodes net j = Some n \<Longrightarrow>
      told_ok (own_addr j) (n_p2p m) (ends_known (knows n i) (nt_wire net i (own_addr j)))"
  using assms by (simp_all add: net_inv_def)

lemma own_addr_eq [simp]: "own_addr i = own_addr j \<longleftrightarrow> i = j"
  using inj_own_addr by blast

lemma hd_opt_Some: "hd_opt xs = Some x \<longleftrightarrow> (\<exists>ys. xs = x # ys)"
  by (cases xs) (auto simp: hd_opt_def)

text \<open>The messages a turn takes are in order.\<close>

lemma net_takes_ok:
  assumes inv: "net_inv E rr view name net" and n: "nt_nodes net i = Some n"
  shows "takes_ok E (case src of None \<Rightarrow> i | Some j \<Rightarrow> j) (n_p2p n) (waiting net src i)
    (if takes then hd_opt (n_to_p2p n) else None)"
proof -
  have "\<forall>m\<in>set (n_to_p2p n). p2p_queue_ok E (set (my_peers (n_p2p n))) m"
    using net_invD(1) [OF inv n] by (simp add: node_ok_def)
  moreover have "wire_msg E j c \<and> (hd c \<in> {''HASH'', ''REQ''} \<longrightarrow> knows n j)"
    if "src = Some j" "hd_opt (nt_wire net j (own_addr i)) = Some c" for j c
    using net_invD(3) [OF inv n, of j] that by (auto simp: hd_opt_Some)
  ultimately show ?thesis
    by (auto simp: takes_ok_def waiting_def hd_opt_Some split: option.splits)
qed

lemma net_p2p_turn:
  assumes inv: "net_inv E rr view name net" and n: "nt_nodes net i = Some n"
    and turn: "p2p_turn_at E reach i src takes net n = Inr net'"
  shows "net_inv E rr view name net'"
proof -
  let ?s = "n_p2p n"
  from turn obtain s' out where
    t: "p2p_thread_turn E reach i (my_hashes (n_db n), waiting net src i,
          if takes then hd_opt (n_to_p2p n) else None) ?s = Inr (s', out)"
    and net': "net' = net\<lparr>nt_nodes := (nt_nodes net)(i \<mapsto>
         n\<lparr>n_p2p := s', n_to_db := n_to_db n @ to_db out,
           n_to_p2p := (if takes then tl (n_to_p2p n) else n_to_p2p n)\<rparr>),
       nt_wire := (taken net src i)(i := (\<lambda>a. taken net src i i a @ to_peer a out))\<rparr>"
    by (auto simp: p2p_turn_at_def bindr_Inr_conv)
  note D = net_invD [OF inv] and ok = net_invD(1) [OF inv n]
  have p: "p2p_inv i ?s" "reqs_known ?s" using ok by (simp_all add: node_ok_def)
  note W = p2p_turn_wire [OF p net_takes_ok [OF inv n] t]
  have own: "own_addr i \<notin> set (my_peers s')" using W(1) by (simp add: p2p_inv_def)
  have mono: "knows n j \<Longrightarrow> own_addr j \<in> set (my_peers s')" for j using W(3) by blast
  have tk: "taken net src i j (own_addr b) = nt_wire net j (own_addr b)" if "b \<noteq> i" for j b
    using that by (simp add: taken_def)
  have rest: "wire_ok E j (own_addr j \<in> set (my_peers s')) (taken net src i j (own_addr i)) \<and>
      (ends_known (knows n j) (nt_wire net j (own_addr i)) \<longrightarrow>
       ends_known (own_addr j \<in> set (my_peers s')) (taken net src i j (own_addr i)))" for j
  proof (cases "src = Some j \<and> j \<noteq> i \<and> nt_wire net j (own_addr i) \<noteq> []")
    case True
    then obtain c ms where w: "nt_wire net j (own_addr i) = c # ms" by (cases "nt_wire net j (own_addr i)") auto
    then have "waiting net src i = Some (own_addr j # c)" using True by (simp add: waiting_def hd_opt_def)
    then have new: "knows n j \<or> hd c = ''PEER'' \<Longrightarrow> own_addr j \<in> set (my_peers s')"
      using W(7) [of "own_addr j" c] True mono by auto
    have "wire_ok E j (knows n j \<or> hd c = ''PEER'') ms" using D(3) [OF n, of j] w by simp
    then show ?thesis using wire_ok_mono [OF _ new] new True w
      by (auto simp: taken_def ends_known_def)
  next
    case False
    then have "taken net src i j (own_addr i) = nt_wire net j (own_addr i)"
      using D(2) [OF n] by (auto simp: taken_def)
    then show ?thesis
      using wire_ok_mono [OF D(3) [OF n] mono, of j] ends_known_mono mono by simp
  qed
  have out: "wire_ok E i (ends_known (knows m i) (nt_wire net i (own_addr j))) (to_peer (own_addr j) out) \<and>
      told_ok (own_addr j) s' (ends_known (knows m i) (nt_wire net i (own_addr j) @ to_peer (own_addr j) out))"
    if "nt_nodes net j = Some m" for j m
    using W(5) [OF D(4) [OF n that]] by (simp add: ends_known_append)
  have "\<forall>m\<in>set (n_to_db n @ to_db out). db_queue_ok E (set (my_peers s')) m"
    using ok W(4) queue_ok_mono(1) [OF _ W(3)] by (auto simp: node_ok_def)
  moreover have "\<forall>m\<in>set (n_to_p2p n). p2p_queue_ok E (set (my_peers s')) m"
    using ok queue_ok_mono(2) [OF _ W(3)] by (auto simp: node_ok_def)
  then have "\<forall>m\<in>set (if takes then tl (n_to_p2p n) else n_to_p2p n). p2p_queue_ok E (set (my_peers s')) m"
    by (auto dest: in_set_tlD)
  ultimately have node: "node_ok E rr view (name i) i
      (n\<lparr>n_p2p := s', n_to_db := n_to_db n @ to_db out,
         n_to_p2p := (if takes then tl (n_to_p2p n) else n_to_p2p n)\<rparr>)"
    using ok W(1,2) by (simp add: node_ok_def)
  have none: "taken net src i j (own_addr j) = []" if "nt_nodes net j = Some m" for j m
    using D(2) [OF that] by (auto simp: taken_def)
  show ?thesis
    unfolding net_inv_def net'
  proof (intro conjI allI impI, goal_cases)
    case (1 j m)
    then show ?case using node D(1) by (auto split: if_splits)
  next
    case (2 j m)
    then show ?case using none [of j] none [OF n] W(6) own by (auto split: if_splits)
  next
    case (3 j k m)
    then show ?case using rest [of j] D(3) [of k m j] out [of k m] W(6) own
      by (auto simp: tk wire_ok_append split: if_splits)
  next
    case (4 j k m m')
    then show ?case using rest [of j] D(4) [of j m k m'] D(4) [of j m i n] out [of k m'] own n
      by (auto simp: tk told_ok_def split: if_splits)
  qed
qed

section \<open>A turn of the database thread\<close>

lemma db_peer_op_queue:
  assumes "xapian_laws (e_xap E) view" and "ads_written E view (ds_db s)" and "db_queue_ok E peers m"
    and op: "db_peer_op E db_name m s = Inr (s', out)"
  shows "\<forall>x\<in>set (to_p2p out). p2p_queue_ok E peers x"
  using op
proof (cases rule: db_peer_op_cases)
  case (get addr size m' hs ds)
  have "\<forall>d\<in>set ds. ad_text E d"
    using db_get_docs_texts [OF assms(1) get(4)] assms(2) by (auto simp: ads_written_def)
  moreover have "addr \<in> peers" using assms(3) get(1) by (simp add: db_queue_ok_def)
  ultimately show ?thesis
    using get(6) announces_length [of ds] by (simp add: p2p_queue_ok_def wf_from_db_def)
qed (simp_all add: p2p_queue_ok_def wf_from_db_def)

lemma db_turn_queue:
  assumes inv: "db_written_inv E rr view db_name s"
    and q: "\<And>m. pr = Some m \<Longrightarrow> db_queue_ok E peers m"
    and turn: "db_thread_turn E db_name (ps, cl, pr) s = Inr (s', out)"
  shows "db_written_inv E rr view db_name s'" and "\<forall>x\<in>set (to_p2p out). p2p_queue_ok E peers x"
    and "\<forall>x\<in>set (to_client out). length x = 1"
proof -
  from turn obtain s1 out1 out2 where t:
    "(case cl of None \<Rightarrow> Inr (s, []) | Some m \<Rightarrow> db_client_op E db_name ps m s) = Inr (s1, out1)"
    "(case pr of None \<Rightarrow> Inr (s1, []) | Some m \<Rightarrow> db_peer_op E db_name m s1) = Inr (s', out2)"
    "out = out1 @ out2"
    by (cases rule: db_thread_turnE)
  have 1: "db_written_inv E rr view db_name s1 \<and> (\<forall>x\<in>set (to_p2p out1). p2p_queue_ok E peers x) \<and>
      (\<forall>x\<in>set (to_client out1). length x = 1)"
  proof (cases cl)
    case (Some m)
    then have op: "db_client_op E db_name ps m s = Inr (s1, out1)" using t(1) by simp
    show ?thesis using db_client_op_written [OF inv op] db_client_op_out [OF op]
      by (auto simp: p2p_queue_ok_def wf_from_db_def)
  qed (use t(1) inv in simp)
  then have 2: "db_written_inv E rr view db_name s' \<and> (\<forall>x\<in>set (to_p2p out2). p2p_queue_ok E peers x) \<and>
      to_client out2 = []"
  proof (cases pr)
    case (Some m)
    then have op: "db_peer_op E db_name m s1 = Inr (s', out2)" using t(2) by simp
    have "to_client out2 = []" using op by (cases rule: db_peer_op_cases) simp_all
    then show ?thesis
      using db_peer_op_written [OF _ op] db_peer_op_queue [OF _ _ q [OF Some] op] 1 db_written_invD(2,3) by blast
  qed (use t(2) in simp)
  from 1 2 show "db_written_inv E rr view db_name s'" and "\<forall>x\<in>set (to_p2p out). p2p_queue_ok E peers x"
    and "\<forall>x\<in>set (to_client out). length x = 1"
    by (auto simp: t(3) to_append)
qed

lemma net_db_turn:
  assumes inv: "net_inv E rr view name net" and n: "nt_nodes net i = Some n"
    and turn: "db_turn_at E name i client takes net n = Inr (net', out)"
  shows "net_inv E rr view name net'" and "\<forall>m\<in>set out. length m = 1"
proof -
  from turn obtain d o1 where
    t: "db_thread_turn E (name i) (my_peers (n_p2p n), client, if takes then hd_opt (n_to_db n) else None)
          (n_db n) = Inr (d, o1)"
    and net': "net' = net\<lparr>nt_nodes := (nt_nodes net)(i \<mapsto>
         n\<lparr>n_db := d, n_to_p2p := n_to_p2p n @ to_p2p o1,
           n_to_db := (if takes then tl (n_to_db n) else n_to_db n)\<rparr>)\<rparr>"
    and out: "out = to_client o1"
    by (auto simp: db_turn_at_def bindr_Inr_conv)
  note D = net_invD [OF inv] and ok = net_invD(1) [OF inv n]
  have q: "db_queue_ok E (set (my_peers (n_p2p n))) m"
    if "(if takes then hd_opt (n_to_db n) else None) = Some m" for m
    using that ok by (auto simp: node_ok_def hd_opt_Some split: if_splits)
  have "db_written_inv E rr view (name i) (n_db n)" using ok by (simp add: node_ok_def)
  note W = db_turn_queue [OF this q t]
  from W(3) out show "\<forall>m\<in>set out. length m = 1" by simp
  have "node_ok E rr view (name i) i (n\<lparr>n_db := d, n_to_p2p := n_to_p2p n @ to_p2p o1,
      n_to_db := (if takes then tl (n_to_db n) else n_to_db n)\<rparr>)"
    using ok W(1,2) by (auto simp: node_ok_def dest: in_set_tlD)
  moreover have "own_addr i \<notin> set (my_peers (n_p2p n))" using ok by (simp add: node_ok_def p2p_inv_def)
  ultimately show "net_inv E rr view name net'"
    using D n unfolding net_inv_def net' by (auto simp: told_ok_def split: if_splits)
qed

section \<open>The network does not stop\<close>

text \<open>
  What is asked of the outside: requests of clients are safe, and no message has 2^64 parts.
\<close>

definition net_accepts :: "'db env \<Rightarrow> net_event \<Rightarrow> 'db net \<Rightarrow> bool" where
  "net_accepts E ev net \<longleftrightarrow>
     (case ev of
        P2pTurn i src takes \<Rightarrow>
          (\<forall>m. waiting net src i = Some m \<longrightarrow> length m < 2 ^ 64) \<and>
          (\<forall>n m. nt_nodes net i = Some n \<longrightarrow> takes \<longrightarrow> hd_opt (n_to_p2p n) = Some m \<longrightarrow> length m < 2 ^ 64)
      | DbTurn i client takes \<Rightarrow>
          (\<forall>m. client = Some m \<longrightarrow> safe_client E m) \<and>
          (\<forall>n m. nt_nodes net i = Some n \<longrightarrow> takes \<longrightarrow> hd_opt (n_to_db n) = Some m \<longrightarrow> length m < 2 ^ 64))"

lemma safe_client_code [code]:
  "safe_client E msg \<longleftrightarrow>
     msg \<noteq> [] \<and>
     (case split_auth (hd msg) of
        Inl e \<Rightarrow> False
      | Inr (user, cmd) \<Rightarrow> chars_match ''db'' cmd \<longrightarrow>
          (let q = drop 3 cmd; f = drop 5 (trim (drop 4 q)) in
           (chars_match ''add'' q \<or> chars_match ''rm'' q \<longrightarrow> e_dbg E \<longrightarrow> user \<noteq> []) \<and>
           (chars_match ''add'' q \<longrightarrow> chars_match ''json'' (trim (drop 4 q)) \<longrightarrow>
              \<not> isl (deserializeFromFile (e_json E) (e_files E) f []))))"
proof -
  have "(\<exists>r. x = Inr r) \<longleftrightarrow> \<not> isl x" for x :: "(bool \<times> document list) res"
    by (cases x) auto
  then show ?thesis by (simp only: safe_client_def)
qed

lemma net_accepts_code [code]:
  "net_accepts E (P2pTurn i src takes) net \<longleftrightarrow>
     (case waiting net src i of None \<Rightarrow> True | Some m \<Rightarrow> length m < 2 ^ 64) \<and>
     (case nt_nodes net i of None \<Rightarrow> True | Some n \<Rightarrow> takes \<longrightarrow>
        (case hd_opt (n_to_p2p n) of None \<Rightarrow> True | Some m \<Rightarrow> length m < 2 ^ 64))"
  "net_accepts E (DbTurn i client takes) net \<longleftrightarrow>
     (case client of None \<Rightarrow> True | Some m \<Rightarrow> safe_client E m) \<and>
     (case nt_nodes net i of None \<Rightarrow> True | Some n \<Rightarrow> takes \<longrightarrow>
        (case hd_opt (n_to_db n) of None \<Rightarrow> True | Some m \<Rightarrow> length m < 2 ^ 64))"
  by (auto simp: net_accepts_def split: option.splits)

text \<open>A release build on a database that does not fail; every address can be connected to.\<close>

definition sound_setting :: "'db env \<Rightarrow> (string \<Rightarrow> bool) \<Rightarrow> bool" where
  "sound_setting E reach \<longleftrightarrow> \<not> e_dbg E \<and> no_faults E \<and> (\<forall>a. reach a)"

lemma wire_msg_accepted:
  assumes "wire_msg E j c" and "length c < 2 ^ 64" and "\<forall>a. reach a"
    and "hd c \<in> {''HASH'', ''REQ''} \<longrightarrow> own_addr j \<in> set peers"
  shows "accepts_p2p False reach peers c"
proof -
  have "wf_p2p c" if "\<exists>sz ds. c = ''DOC'' # sz # ds \<and> announces sz ds"
    using that by (simp add: wf_p2p_def)
  then have "wf_p2p c"
    using assms(1) wf_peer_msg [of j] wf_hash_msg [of j] wf_req_msg [of _ j]
    unfolding wire_msg_def by blast
  moreover have "c ! 1 = own_addr j" if "hd c = ''HASH''"
    using assms(1) that by (auto simp: wire_msg_def hash_msg_def)
  ultimately show ?thesis using assms(2-4) by (simp add: accepts_p2p_def)
qed

lemma net_live:
  assumes inv: "net_inv E rr view name net" and env: "sound_setting E reach" and acc: "net_accepts E ev net"
  shows "\<exists>net' out. net_turn E reach name ev net = Inr (net', out)"
proof (cases ev)
  case (P2pTurn i src takes)
  show ?thesis
  proof (cases "nt_nodes net i")
    case (Some n)
    let ?s = "n_p2p n" and ?pm = "waiting net src i"
      and ?dm = "if takes then hd_opt (n_to_p2p n) else None"
    have ok: "p2p_inv i ?s" "reqs_known ?s" using net_invD(1) [OF inv Some] by (simp_all add: node_ok_def)
    note tk = net_takes_ok [OF inv Some, of src takes]
    have len: "\<And>m. ?pm = Some m \<Longrightarrow> length m < 2 ^ 64" "\<And>m. ?dm = Some m \<Longrightarrow> length m < 2 ^ 64"
      using acc P2pTurn Some by (auto simp: net_accepts_def split: if_splits)
    have "m \<noteq> [] \<and> accepts_p2p (e_dbg E) reach (my_peers ?s) (tl m)" if m: "?pm = Some m" for m
    proof -
      obtain ident c where c: "m = ident # c" "wire_msg E (case src of None \<Rightarrow> i | Some j \<Rightarrow> j) c"
        "hd c \<in> {''HASH'', ''REQ''} \<longrightarrow> own_addr (case src of None \<Rightarrow> i | Some j \<Rightarrow> j) \<in> set (my_peers ?s)"
        using tk m by (auto simp: takes_ok_def)
      have "length c < 2 ^ 64" using len(1) [OF m] c(1) by simp
      with wire_msg_accepted [OF c(2) this _ c(3)] env c(1) show ?thesis
        by (simp add: sound_setting_def)
    qed
    moreover have "accepts_db (e_dbg E) (my_peers ?s) m" if m: "?dm = Some m" for m
      using tk len(2) [OF m] m env by (auto simp: takes_ok_def accepts_db_def p2p_queue_ok_def sound_setting_def)
    ultimately have "p2p_accepts E reach (my_hashes (n_db n), ?pm, ?dm) ?s"
      by (auto simp: p2p_accepts_def split: option.splits)
    from p2p_live.live [OF ok this] obtain s' out where
      "p2p_thread_turn E reach i (my_hashes (n_db n), ?pm, ?dm) ?s = Inr (s', out)" by blast
    then show ?thesis using P2pTurn Some by (simp add: net_turn_def p2p_turn_at_def)
  qed (simp add: net_turn_def P2pTurn)
next
  case (DbTurn i client takes)
  show ?thesis
  proof (cases "nt_nodes net i")
    case (Some n)
    let ?s = "n_db n" and ?pr = "if takes then hd_opt (n_to_db n) else None"
    have ok: "db_written_inv E rr view (name i) ?s" using net_invD(1) [OF inv Some] by (simp add: node_ok_def)
    note laws = db_written_invD [OF ok]
    have env': "\<not> e_dbg E" "no_faults E" using env by (simp_all add: sound_setting_def)
    obtain s1 out1 where 1:
      "(case client of None \<Rightarrow> Inr (?s, []) | Some m \<Rightarrow> db_client_op E (name i) (my_peers (n_p2p n)) m ?s)
        = Inr (s1, out1)"
    proof (cases client)
      case (Some m)
      then have "safe_client E m" using acc DbTurn by (simp add: net_accepts_def)
      from db_client_op_total [OF ok env'(2) this] Some that show thesis by fastforce
    qed (use that in simp)
    have "\<exists>r. (case ?pr of None \<Rightarrow> Inr (s1, []) | Some m \<Rightarrow> db_peer_op E (name i) m s1) = Inr r"
    proof (cases ?pr)
      case (Some m)
      then have "m \<in> set (n_to_db n)" "length m < 2 ^ 64"
        using acc DbTurn \<open>nt_nodes net i = Some n\<close>
        by (auto simp: net_accepts_def hd_opt_Some split: if_splits)
      moreover have "db_queue_ok E (set (my_peers (n_p2p n))) m"
        using calculation(1) net_invD(1) [OF inv \<open>nt_nodes net i = Some n\<close>] by (simp add: node_ok_def)
      ultimately have "accepts_store E m"
        using env' ad_text_readable [OF laws(4)] by (auto simp: accepts_store_def db_queue_ok_def)
      from db_peer_op_total [OF this] Some show ?thesis by simp
    qed simp
    then show ?thesis using 1 DbTurn Some
      by (auto simp: net_turn_def db_turn_at_def db_thread_turn_def split: prod.splits)
  qed (simp add: net_turn_def DbTurn)
qed

lemma net_turn_cases:
  assumes "net_turn E reach name ev net = Inr (net', out)"
  obtains (idle) "net' = net" "out = []"
  | (p2p) i src takes n where "nt_nodes net i = Some n" "p2p_turn_at E reach i src takes net n = Inr net'" "out = []"
  | (db) i client takes n where "nt_nodes net i = Some n"
      "db_turn_at E name i client takes net n = Inr (net', out)"
proof (cases ev)
  case (P2pTurn i src takes)
  show thesis
  proof (cases "nt_nodes net i")
    case None
    with assms P2pTurn have "net' = net" "out = []" by (simp_all add: net_turn_def)
    then show ?thesis by (rule idle)
  next
    case (Some n)
    with assms P2pTurn have "p2p_turn_at E reach i src takes net n = Inr net'" "out = []"
      by (auto simp: net_turn_def bindr_Inr_conv)
    with Some show ?thesis by (rule p2p)
  qed
next
  case (DbTurn i client takes)
  show thesis
  proof (cases "nt_nodes net i")
    case None
    with assms DbTurn have "net' = net" "out = []" by (simp_all add: net_turn_def)
    then show ?thesis by (rule idle)
  next
    case (Some n)
    with assms DbTurn have "db_turn_at E name i client takes net n = Inr (net', out)"
      by (simp add: net_turn_def)
    with Some show ?thesis by (rule db)
  qed
qed

interpretation netw: live_machine "net_turn E reach name" "net_inv E rr view name" "\<lambda>m. length m = 1"
    "\<lambda>_. sound_setting E reach" "net_accepts E"
  for E reach name rr view
proof (unfold_locales, goal_cases)
  case (1 net ev net' out)
  from 1(2) show ?case
  proof (cases rule: net_turn_cases)
    case (p2p i src takes n)
    then show ?thesis using net_p2p_turn [OF 1(1)] by blast
  next
    case (db i client takes n)
    then show ?thesis using net_db_turn(1) [OF 1(1)] by blast
  qed (use 1(1) in simp)
next
  case (2 net ev net' out m)
  from 2(2) show ?case
  proof (cases rule: net_turn_cases)
    case (db i client takes n)
    then show ?thesis using net_db_turn(2) [OF 2(1)] 2(3) by blast
  qed (use 2(3) in simp_all)
next
  case (3 net ev)
  then show ?case using net_live by blast
qed

end
