(* ===== verification/Convergence.thy ===== *)
theory Convergence
  imports Network
begin

text \<open>
  No ad is lost on its way through the network: an ad that a daemon holds is, for each of its peers,
  about to be announced, or in one of the messages of the exchange (HASH, REQ, GET, PUT, DOC, INS), or
  stored at the peer. Hence in a state where nothing is under way, daemons that are peers hold it both.
\<close>

section \<open>Ads that travel\<close>

text \<open>
  An ad that inserting its text at a peer stores as it is (its author is not empty, and its price
  reads back as it was written), and whose digest no other written text has.
\<close>

definition travels :: "'db env \<Rightarrow> string \<Rightarrow> bool" where
  "travels E e \<longleftrightarrow>
     peer_entry E e = Some e \<and> (\<forall>e'. ad_text E e' \<longrightarrow> e_sha E e' = e_sha E e \<longrightarrow> e' = e)"

text \<open>A request of a client that names the digest of an ad for removal.\<close>

definition names_hash :: "'db env \<Rightarrow> string \<Rightarrow> message \<Rightarrow> bool" where
  "names_hash E h msg \<longleftrightarrow>
     (case split_auth (hd msg) of
        Inl err \<Rightarrow> False
      | Inr (user, cmd) \<Rightarrow>
          chars_match ''rm'' (drop 3 cmd) \<and> hex E h \<in> set (tokenize (trim (drop 6 cmd))))"

fun spares :: "'db env \<Rightarrow> string \<Rightarrow> net_event \<Rightarrow> bool" where
  "spares E h (DbTurn i (Some msg) takes) \<longleftrightarrow> \<not> names_hash E h msg"
| "spares E h _ \<longleftrightarrow> True"

section \<open>Where an ad is\<close>

text \<open>The ad e of node m (at port i) for the node n (at port j).\<close>

definition offered ::
  "'db env \<Rightarrow> string \<Rightarrow> int \<Rightarrow> 'db node \<Rightarrow> int \<Rightarrow> 'db node \<Rightarrow> message list \<Rightarrow> message list \<Rightarrow> bool" where
  "offered E e i m j n ij ji \<longleftrightarrow>
     (\<exists>hs. hash_msg i hs \<in> set ij \<and> e_sha E e \<in> set hs) \<or>
     e_sha E e \<in> requested (db_requests (n_p2p n)) (own_addr i) \<or>
     (\<exists>hs. req_msg j hs \<in> set ji \<and> e_sha E e \<in> set hs) \<or>
     (\<exists>sz hs. ''GET'' # own_addr j # sz # hs \<in> set (n_to_db m) \<and> e_sha E e \<in> set hs) \<or>
     (\<exists>sz ds. ''PUT'' # own_addr j # sz # ds \<in> set (n_to_p2p m) \<and> e \<in> set ds) \<or>
     (\<exists>sz ds. ''DOC'' # sz # ds \<in> set ij \<and> e \<in> set ds) \<or>
     (\<exists>sz ds. ''INS'' # sz # ds \<in> set (n_to_db n) \<and> e \<in> set ds)"

definition announcing :: "'db node \<Rightarrow> bool" where
  "announcing m \<longleftrightarrow> to_bcast_hashes (n_p2p m) \<or> [''NEW''] \<in> set (n_to_p2p m)"

definition holds :: "'db env \<Rightarrow> ('db \<Rightarrow> xview) \<Rightarrow> string \<Rightarrow> 'db node \<Rightarrow> bool" where
  "holds E view e n \<longleftrightarrow> e_sha E e \<in> stored E view (ds_db (n_db n))"

definition on_its_way ::
  "'db env \<Rightarrow> ('db \<Rightarrow> xview) \<Rightarrow> string \<Rightarrow> int \<Rightarrow> 'db node \<Rightarrow> int \<Rightarrow> 'db node
    \<Rightarrow> message list \<Rightarrow> message list \<Rightarrow> bool" where
  "on_its_way E view e i m j n ij ji \<longleftrightarrow>
     (knows m j \<longrightarrow> holds E view e m \<longrightarrow>
        announcing m \<or> offered E e i m j n ij ji \<or> holds E view e n)"

definition none_lost :: "'db env \<Rightarrow> ('db \<Rightarrow> xview) \<Rightarrow> string \<Rightarrow> 'db net \<Rightarrow> bool" where
  "none_lost E view e net \<longleftrightarrow>
     (\<forall>i j m n. nt_nodes net i = Some m \<longrightarrow> nt_nodes net j = Some n \<longrightarrow>
        on_its_way E view e i m j n (nt_wire net i (own_addr j)) (nt_wire net j (own_addr i)))"

text \<open>The cases of \<open>offered\<close>, one per message.\<close>

lemma offered_cases:
  assumes "offered E e i m j n ij ji"
  obtains (HASH) hs where "hash_msg i hs \<in> set ij" "e_sha E e \<in> set hs"
  | (want) "e_sha E e \<in> requested (db_requests (n_p2p n)) (own_addr i)"
  | (REQ) hs where "req_msg j hs \<in> set ji" "e_sha E e \<in> set hs"
  | (GET) sz hs where "''GET'' # own_addr j # sz # hs \<in> set (n_to_db m)" "e_sha E e \<in> set hs"
  | (PUT) sz ds where "''PUT'' # own_addr j # sz # ds \<in> set (n_to_p2p m)" "e \<in> set ds"
  | (DOC) sz ds where "''DOC'' # sz # ds \<in> set ij" "e \<in> set ds"
  | (INS) sz ds where "''INS'' # sz # ds \<in> set (n_to_db n)" "e \<in> set ds"
  using assms unfolding offered_def by blast

lemma offeredI:
  "hash_msg i hs \<in> set ij \<Longrightarrow> e_sha E e \<in> set hs \<Longrightarrow> offered E e i m j n ij ji"
  "e_sha E e \<in> requested (db_requests (n_p2p n)) (own_addr i) \<Longrightarrow> offered E e i m j n ij ji"
  "req_msg j hs \<in> set ji \<Longrightarrow> e_sha E e \<in> set hs \<Longrightarrow> offered E e i m j n ij ji"
  "''GET'' # own_addr j # sz # hs \<in> set (n_to_db m) \<Longrightarrow> e_sha E e \<in> set hs \<Longrightarrow> offered E e i m j n ij ji"
  "''PUT'' # own_addr j # sz # ds \<in> set (n_to_p2p m) \<Longrightarrow> e \<in> set ds \<Longrightarrow> offered E e i m j n ij ji"
  "''DOC'' # sz # ds \<in> set ij \<Longrightarrow> e \<in> set ds \<Longrightarrow> offered E e i m j n ij ji"
  "''INS'' # sz # ds \<in> set (n_to_db n) \<Longrightarrow> e \<in> set ds \<Longrightarrow> offered E e i m j n ij ji"
  unfolding offered_def by blast+

section \<open>The p2p thread hands on\<close>

text \<open>What the sending phase does for a peer a.\<close>

lemma p2p_sends_offers:
  assumes "p2p_inv i s" and "reqs_known s" and "p2p_sends i hashes s = Inr (s1, out)"
  shows "to_bcast_hashes s \<Longrightarrow> a \<in> set (my_peers s) \<Longrightarrow> hash_msg i hashes \<in> set (to_peer a out)"
    and "h \<in> requested (db_requests s) a \<Longrightarrow> \<exists>hs. req_msg i hs \<in> set (to_peer a out) \<and> h \<in> set hs"
proof -
  note eq = p2p_sends_eq(1) [OF assms(3)]
  show "to_bcast_hashes s \<Longrightarrow> a \<in> set (my_peers s) \<Longrightarrow> hash_msg i hashes \<in> set (to_peer a out)"
    by (auto simp: eq to_append hash_sends_def to_peer_map)
  assume "h \<in> requested (db_requests s) a"
  then obtain hs where hs: "(a, hs) \<in> set (db_requests s)" "h \<in> set hs"
    by (auto simp: requested_def split: option.splits dest: map_of_SomeD)
  then have "to_send_db_requests s" using assms(1) by (auto simp: p2p_inv_def)
  with hs have "req_msg i hs \<in> set (to_peer a (req_sends i s))"
    by (force simp: req_sends_def to_peer_map case_prod_unfold)
  with hs(2) show "\<exists>hs. req_msg i hs \<in> set (to_peer a out) \<and> h \<in> set hs"
    by (auto simp: eq to_append)
qed

text \<open>What a message of a peer leads to.\<close>

lemma hash_msg_wanted:
  assumes "p2p_answer_p2p E reach i hashes (ident # hash_msg j hs) s = Inr (s', out)" and "h \<in> set hs"
  shows "h \<in> set hashes \<or> h \<in> requested (db_requests s') (own_addr j)"
proof -
  have "length hs < 2 ^ 64"
    using assms(1) by (auto simp: p2p_answer_p2p_def hash_msg_def msg_count_Inr bindr_Inr_conv stoul_to_string_conv)
  then have "s' = fold (want_hash hashes (own_addr j)) hs s"
    using assms(1) by (simp add: p2p_answer_p2p_def hash_msg_def msg_loop_eq)
  with assms(2) show ?thesis by (auto simp: fold_want_hash_requested)
qed

lemma req_msg_fetched:
  assumes "p2p_answer_p2p E reach i hashes (ident # req_msg j hs) s = Inr (s', out)"
  shows "\<exists>sz. ''GET'' # own_addr j # sz # hs \<in> set (to_db out)"
proof -
  have "length hs < 2 ^ 64"
    using assms(1) by (auto simp: p2p_answer_p2p_def req_msg_def bindr_Inr_conv stoul_to_string_conv)
  then have "out = [SendDb (''GET'' # own_addr j # nat_to_string (length hs) # hs)]"
    using assms(1) by (auto simp: p2p_answer_p2p_def req_msg_def msg_loop_eq bindr_Inr_conv stoul_to_string)
  then show ?thesis by simp
qed

lemma doc_msg_inserted:
  assumes "p2p_answer_p2p E reach i hashes (ident # ''DOC'' # sz # ds) s = Inr (s', out)"
    and "announces sz ds" and "length ds < 2 ^ 64" and "e \<in> set ds"
  shows "e_sha E e \<in> set hashes \<or> (\<exists>sz' ds'. ''INS'' # sz' # ds' \<in> set (to_db out) \<and> e \<in> set ds')"
proof -
  have "stoul sz = Inr (length ds)" using assms(2,3) by (simp add: announces_def)
  then have "out = [SendDb (''INS'' # nat_to_string (length (filter (\<lambda>d. e_sha E d \<notin> set hashes) ds)) #
      filter (\<lambda>d. e_sha E d \<notin> set hashes) ds)]"
    using assms(1)
    by (auto simp: p2p_answer_p2p_def msg_count_def msg_loop_eq fold_keep_new_doc sha256_def bindr_Inr_conv)
  with assms(4) show ?thesis by auto
qed

lemma put_msg_sent:
  assumes "p2p_answer_db dbg (''PUT'' # a # sz # ds) s = Inr (s', out)"
    and "announces sz ds" and "length ds < 2 ^ 64"
  shows "''DOC'' # sz # ds \<in> set (to_peer a out)"
proof -
  have "stoul sz = Inr (length ds)" using assms(2,3) by (simp add: announces_def)
  then show ?thesis using assms(1)
    by (auto simp: p2p_answer_db_def msg_loop_eq bindr_Inr_conv peers_at_def split: if_splits)
qed

lemma p2p_answer_p2p_flag:
  assumes "p2p_answer_p2p E reach i hashes msg s = Inr (s', out)" and "a \<in> set (my_peers s')"
  shows "a \<in> set (my_peers s) \<or> to_bcast_hashes s'"
  using assms(1)
proof (cases rule: p2p_answer_p2p_cases)
  case (peer id' sz m num)
  from peer_loop_effect [OF peer(3)] assms(2) show ?thesis by (cases out) auto
qed (use assms(2) in \<open>simp_all add: fold_want_hash_frame\<close>)

lemma p2p_answer_db_frame:
  assumes "p2p_answer_db dbg m s = Inr (s', out)"
  shows "db_requests s' = db_requests s" and "my_peers s' = my_peers s"
    and "to_bcast_hashes s' \<longleftrightarrow> to_bcast_hashes s \<or> hd m = ''NEW''"
proof -
  have "db_requests s' = db_requests s \<and> my_peers s' = my_peers s \<and>
      (to_bcast_hashes s' \<longleftrightarrow> to_bcast_hashes s \<or> hd m = ''NEW'')"
    using assms
  proof (cases rule: p2p_answer_db_cases)
    case unknown
    have "hd m = ''NEW'' \<Longrightarrow> m \<noteq> [] \<Longrightarrow> s' = s\<lparr>to_bcast_hashes := True\<rparr>"
      using assms by (cases m) (auto simp: p2p_answer_db_def)
    moreover have "m \<noteq> []" using assms by (auto simp: p2p_answer_db_def)
    ultimately show ?thesis using unknown by (metis p2p_state.select_convs(4) p2p_state.surjective p2p_state.update_convs(4))
  qed simp_all
  then show "db_requests s' = db_requests s" and "my_peers s' = my_peers s"
    and "to_bcast_hashes s' \<longleftrightarrow> to_bcast_hashes s \<or> hd m = ''NEW''" by blast+
qed

text \<open>
  A turn of the p2p thread, for the ads it offers (the first five) and for those it is offered.
\<close>

lemma p2p_turn_hands_on:
  assumes inv: "p2p_inv i s" and rk: "reqs_known s"
    and turn: "p2p_thread_turn E reach i (hashes, pm, dm) s = Inr (s', out)"
  shows "to_bcast_hashes s \<Longrightarrow> a \<in> set (my_peers s) \<Longrightarrow> hash_msg i hashes \<in> set (to_peer a out)"
    and "a \<in> set (my_peers s') \<Longrightarrow> a \<in> set (my_peers s) \<or> to_bcast_hashes s'"
    and "dm = Some [''NEW''] \<Longrightarrow> to_bcast_hashes s'"
    and "pm = Some (ident # req_msg j hs) \<Longrightarrow> \<exists>sz. ''GET'' # own_addr j # sz # hs \<in> set (to_db out)"
    and "dm = Some (''PUT'' # a # sz # ds) \<Longrightarrow> announces sz ds \<Longrightarrow> length ds < 2 ^ 64 \<Longrightarrow>
      ''DOC'' # sz # ds \<in> set (to_peer a out)"
    and "pm = Some (ident # hash_msg j hs) \<Longrightarrow> h \<in> set hs \<Longrightarrow>
      h \<in> set hashes \<or> h \<in> requested (db_requests s') (own_addr j)"
    and "h \<in> requested (db_requests s) a \<Longrightarrow> \<exists>hs. req_msg i hs \<in> set (to_peer a out) \<and> h \<in> set hs"
    and "pm = Some (ident # ''DOC'' # sz # ds) \<Longrightarrow> announces sz ds \<Longrightarrow> length ds < 2 ^ 64 \<Longrightarrow> e \<in> set ds \<Longrightarrow>
      e_sha E e \<in> set hashes \<or> (\<exists>sz' ds'. ''INS'' # sz' # ds' \<in> set (to_db out) \<and> e \<in> set ds')"
proof -
  from turn obtain s1 out1 s2 out2 out3 where t: "p2p_sends i hashes s = Inr (s1, out1)"
    "(case pm of None \<Rightarrow> Inr (s1, []) | Some m \<Rightarrow> p2p_answer_p2p E reach i hashes m s1) = Inr (s2, out2)"
    "(case dm of None \<Rightarrow> Inr (s2, []) | Some m \<Rightarrow> p2p_answer_db (e_dbg E) m s2) = Inr (s', out3)"
    "out = out1 @ out2 @ out3"
    by (cases rule: p2p_thread_turnE)
  note sends = p2p_sends_offers [OF inv rk t(1)] and frame = p2p_sends_eq(2) [OF t(1)]
  have pm: "p2p_answer_p2p E reach i hashes m s1 = Inr (s2, out2)" if "pm = Some m" for m
    using t(2) that by simp
  have dm: "p2p_answer_db (e_dbg E) m s2 = Inr (s', out3)" if "dm = Some m" for m
    using t(3) that by simp
  have fr3: "db_requests s' = db_requests s2 \<and> my_peers s' = my_peers s2 \<and>
      (to_bcast_hashes s2 \<longrightarrow> to_bcast_hashes s')"
    using t(3) p2p_answer_db_frame [OF dm] by (cases dm) auto
  show "to_bcast_hashes s \<Longrightarrow> a \<in> set (my_peers s) \<Longrightarrow> hash_msg i hashes \<in> set (to_peer a out)"
    using sends(1) by (simp add: t(4) to_append)
  show "a \<in> set (my_peers s) \<or> to_bcast_hashes s'" if "a \<in> set (my_peers s')"
    using that fr3 frame t(2) p2p_answer_p2p_flag [OF pm, of _ a] by (cases pm) auto
  show "dm = Some [''NEW''] \<Longrightarrow> to_bcast_hashes s'" using p2p_answer_db_frame(3) [OF dm] by simp
  show "pm = Some (ident # req_msg j hs) \<Longrightarrow> \<exists>sz. ''GET'' # own_addr j # sz # hs \<in> set (to_db out)"
    using req_msg_fetched [OF pm] by (auto simp: t(4) to_append)
  show "dm = Some (''PUT'' # a # sz # ds) \<Longrightarrow> announces sz ds \<Longrightarrow> length ds < 2 ^ 64 \<Longrightarrow>
      ''DOC'' # sz # ds \<in> set (to_peer a out)"
    using put_msg_sent [OF dm] by (simp add: t(4) to_append)
  show "pm = Some (ident # hash_msg j hs) \<Longrightarrow> h \<in> set hs \<Longrightarrow>
      h \<in> set hashes \<or> h \<in> requested (db_requests s') (own_addr j)"
    using hash_msg_wanted [OF pm] fr3 by auto
  show "h \<in> requested (db_requests s) a \<Longrightarrow> \<exists>hs. req_msg i hs \<in> set (to_peer a out) \<and> h \<in> set hs"
    using sends(2) by (auto simp: t(4) to_append)
  show "pm = Some (ident # ''DOC'' # sz # ds) \<Longrightarrow> announces sz ds \<Longrightarrow> length ds < 2 ^ 64 \<Longrightarrow> e \<in> set ds \<Longrightarrow>
      e_sha E e \<in> set hashes \<or> (\<exists>sz' ds'. ''INS'' # sz' # ds' \<in> set (to_db out) \<and> e \<in> set ds')"
    using doc_msg_inserted [OF pm] by (auto simp: t(4) to_append)
qed

text \<open>The node i takes a turn: its ads stay on their way to the node j.\<close>

lemma sender_turn:
  assumes inv: "p2p_inv i (n_p2p m)" and rk: "reqs_known (n_p2p m)"
    and cache: "set (my_hashes (n_db m)) = stored E view (ds_db (n_db m))"
    and turn: "p2p_thread_turn E reach i (my_hashes (n_db m), pm, dm) (n_p2p m) = Inr (s', out)"
    and pm: "\<And>x. x \<in> set ji \<Longrightarrow> x \<in> set ji' \<or> pm = Some (own_addr j # x)"
    and dm: "\<And>x. x \<in> set (n_to_p2p m) \<Longrightarrow> x \<in> set q' \<or> dm = Some x"
    and put: "\<And>x. x \<in> set (n_to_p2p m) \<Longrightarrow> wf_from_db x" "\<And>x. dm = Some x \<Longrightarrow> length x < 2 ^ 64"
    and way: "on_its_way E view e i m j n ij ji"
  shows "on_its_way E view e i (m\<lparr>n_p2p := s', n_to_db := n_to_db m @ to_db out, n_to_p2p := q'\<rparr>) j n
    (ij @ to_peer (own_addr j) out) ji'"
proof -
  let ?m = "m\<lparr>n_p2p := s', n_to_db := n_to_db m @ to_db out, n_to_p2p := q'\<rparr>"
    and ?ij = "ij @ to_peer (own_addr j) out"
  note H = p2p_turn_hands_on [OF inv rk turn]
  have "announcing ?m \<or> offered E e i ?m j n ?ij ji' \<or> holds E view e n"
    if k: "own_addr j \<in> set (my_peers s')" and h: "holds E view e m"
  proof (cases "to_bcast_hashes s'")
    case True
    then show ?thesis by (simp add: announcing_def)
  next
    case False
    then have known: "knows m j" using H(2) [OF k] by blast
    then consider (a) "announcing m" | (b) "offered E e i m j n ij ji" | (c) "holds E view e n"
      using way h by (auto simp: on_its_way_def)
    then show ?thesis
    proof cases
      case a
      show ?thesis
      proof (cases "to_bcast_hashes (n_p2p m)")
        case True
        have "e_sha E e \<in> set (my_hashes (n_db m))" using h cache by (simp add: holds_def)
        then show ?thesis using H(1) [OF True known] offeredI(1) by (metis Un_iff set_append)
      next
        case F: False
        then have "[''NEW''] \<in> set (n_to_p2p m)" using a by (simp add: announcing_def)
        then have "[''NEW''] \<in> set q'" using dm H(3) False by blast
        then show ?thesis by (simp add: announcing_def)
      qed
    next
      case b
      then show ?thesis
      proof (cases rule: offered_cases)
        case (REQ hs)
        show ?thesis
        proof (cases "req_msg j hs \<in> set ji'")
          case True
          then show ?thesis using REQ(2) offeredI(3) by metis
        next
          case False
          then obtain sz where "''GET'' # own_addr j # sz # hs \<in> set (to_db out)"
            using pm [OF REQ(1)] H(4) by blast
          then have "''GET'' # own_addr j # sz # hs \<in> set (n_to_db ?m)" by simp
          then show ?thesis using REQ(2) offeredI(4) by metis
        qed
      next
        case (PUT sz ds)
        show ?thesis
        proof (cases "''PUT'' # own_addr j # sz # ds \<in> set q'")
          case True
          then have "''PUT'' # own_addr j # sz # ds \<in> set (n_to_p2p ?m)" by simp
          then show ?thesis using PUT(2) offeredI(5) by metis
        next
          case False
          then have d: "dm = Some (''PUT'' # own_addr j # sz # ds)" using dm [OF PUT(1)] by blast
          have "announces sz ds" using put(1) [OF PUT(1)] by (simp add: wf_from_db_def)
          moreover have "length ds < 2 ^ 64" using put(2) [OF d] by simp
          ultimately have "''DOC'' # sz # ds \<in> set ?ij" using H(5) [OF d] by simp
          then show ?thesis using PUT(2) offeredI(6) by metis
        qed
      qed (auto simp: offered_def)
    next
      case c
      then show ?thesis by simp
    qed
  qed
  then show ?thesis by (simp add: on_its_way_def holds_def)
qed

text \<open>The node i takes a turn: the ads of the node j stay on their way to it.\<close>

lemma receiver_turn:
  assumes inv: "p2p_inv i (n_p2p n)" and rk: "reqs_known (n_p2p n)"
    and cache: "set (my_hashes (n_db n)) = stored E view (ds_db (n_db n))"
    and turn: "p2p_thread_turn E reach i (my_hashes (n_db n), pm, dm) (n_p2p n) = Inr (s', out)"
    and pm: "\<And>x. x \<in> set ji \<Longrightarrow> x \<in> set ji' \<or> pm = Some (own_addr j # x)"
    and doc: "\<And>x. x \<in> set ji \<Longrightarrow> wire_msg E j x" "\<And>x. pm = Some x \<Longrightarrow> length x < 2 ^ 64"
    and way: "on_its_way E view e j m i n ji ij"
  shows "on_its_way E view e j m i (n\<lparr>n_p2p := s', n_to_db := n_to_db n @ to_db out, n_to_p2p := q'\<rparr>)
    ji' (ij @ to_peer (own_addr j) out)"
proof -
  let ?n = "n\<lparr>n_p2p := s', n_to_db := n_to_db n @ to_db out, n_to_p2p := q'\<rparr>"
    and ?ij = "ij @ to_peer (own_addr j) out"
  note H = p2p_turn_hands_on [OF inv rk turn]
  have here: "e_sha E e \<in> set (my_hashes (n_db n)) \<Longrightarrow> holds E view e ?n"
    using cache by (simp add: holds_def)
  have "offered E e j m i ?n ji' ?ij \<or> holds E view e ?n" if "offered E e j m i n ji ij"
    using that
  proof (cases rule: offered_cases)
    case (HASH hs)
    show ?thesis
    proof (cases "hash_msg j hs \<in> set ji'")
      case True
      then show ?thesis using HASH(2) offeredI(1) by metis
    next
      case False
      then have "pm = Some (own_addr j # hash_msg j hs)" using pm [OF HASH(1)] by blast
      from H(6) [OF this HASH(2)] here show ?thesis by (auto simp: offered_def)
    qed
  next
    case want
    from H(7) [OF this] show ?thesis by (auto simp: offered_def)
  next
    case (DOC sz ds)
    show ?thesis
    proof (cases "''DOC'' # sz # ds \<in> set ji'")
      case True
      then show ?thesis using DOC(2) offeredI(6) by metis
    next
      case False
      then have p: "pm = Some (own_addr j # ''DOC'' # sz # ds)" using pm [OF DOC(1)] by blast
      have "announces sz ds"
        using doc(1) [OF DOC(1)] by (auto simp: wire_msg_def peer_msg_def hash_msg_def req_msg_def)
      moreover have "length ds < 2 ^ 64" using doc(2) [OF p] by simp
      ultimately show ?thesis using H(8) [OF p _ _ DOC(2)] here by (auto simp: offered_def)
    qed
  qed (auto simp: offered_def)
  then show ?thesis using way by (auto simp: on_its_way_def holds_def announcing_def)
qed

lemma wire_ok_msgs: "wire_ok E i k ms \<Longrightarrow> m \<in> set ms \<Longrightarrow> wire_msg E i m"
  by (induction ms arbitrary: k) auto

lemma p2p_turn_none_lost:
  assumes inv: "net_inv E rr view name net" and n: "nt_nodes net i = Some n"
    and turn: "p2p_turn_at E reach i src takes net n = Inr net'"
    and acc: "net_accepts E (P2pTurn i src takes) net" and nl: "none_lost E view e net"
  shows "none_lost E view e net'"
proof -
  let ?pm = "waiting net src i" and ?dm = "if takes then hd_opt (n_to_p2p n) else None"
    and ?q = "if takes then tl (n_to_p2p n) else n_to_p2p n"
  from turn obtain s' out where
    t: "p2p_thread_turn E reach i (my_hashes (n_db n), ?pm, ?dm) (n_p2p n) = Inr (s', out)"
    and net': "net' = net\<lparr>nt_nodes := (nt_nodes net)(i \<mapsto>
         n\<lparr>n_p2p := s', n_to_db := n_to_db n @ to_db out, n_to_p2p := ?q\<rparr>),
       nt_wire := (taken net src i)(i := (\<lambda>a. taken net src i i a @ to_peer a out))\<rparr>"
    by (auto simp: p2p_turn_at_def bindr_Inr_conv)
  note D = net_invD [OF inv] and ok = net_invD(1) [OF inv n]
  have p: "p2p_inv i (n_p2p n)" "reqs_known (n_p2p n)" using ok by (simp_all add: node_ok_def)
  have "db_written_inv E rr view (name i) (n_db n)" using ok by (simp add: node_ok_def)
  note cache = db_written_invD(7) [OF this]
  have own: "own_addr i \<notin> set (my_peers s')"
    using p2p.step_inv [OF p(1) t] by (simp add: p2p_inv_def)
  have pm: "x \<in> set (taken net src i j (own_addr i)) \<or> ?pm = Some (own_addr j # x)"
    if "x \<in> set (nt_wire net j (own_addr i))" for x j
    using that by (cases "nt_wire net j (own_addr i)") (auto simp: taken_def waiting_def hd_opt_def)
  have dm: "x \<in> set ?q \<or> ?dm = Some x" if "x \<in> set (n_to_p2p n)" for x
    using that by (cases "n_to_p2p n") (auto simp: hd_opt_def)
  have len: "\<And>x. ?pm = Some x \<Longrightarrow> length x < 2 ^ 64" "\<And>x. ?dm = Some x \<Longrightarrow> length x < 2 ^ 64"
    using acc n by (auto simp: net_accepts_def split: if_splits)
  have wf: "\<And>x. x \<in> set (n_to_p2p n) \<Longrightarrow> wf_from_db x" using ok by (simp add: node_ok_def p2p_queue_ok_def)
  have way: "on_its_way E view e j m k n' (nt_wire net j (own_addr k)) (nt_wire net k (own_addr j))"
    if "nt_nodes net j = Some m" "nt_nodes net k = Some n'" for j k m n'
    using nl that by (simp add: none_lost_def)
  have tk: "taken net src i j (own_addr k) = nt_wire net j (own_addr k)" if "k \<noteq> i" for j k
    using that by (simp add: taken_def)
  note S = sender_turn [OF p cache t pm dm wf len(2) way [OF n]]
    and R = receiver_turn [OF p cache t pm wire_ok_msgs [OF D(3) [OF n]] len(1) way [OF _ n]]
  show ?thesis
    unfolding none_lost_def net'
  proof (intro allI impI, goal_cases)
    case (1 j k m n')
    consider (both) "j = i" "k = i" | (send) "j = i" "k \<noteq> i" | (recv) "j \<noteq> i" "k = i" | (none) "j \<noteq> i" "k \<noteq> i"
      by blast
    then show ?case
    proof cases
      case both
      with 1 own show ?thesis by (auto simp: on_its_way_def)
    next
      case send
      with 1 S [of k n'] show ?thesis by (auto simp: tk)
    next
      case recv
      with 1 R [of j m] show ?thesis by (auto simp: tk)
    next
      case none
      with 1 way show ?thesis by (simp add: tk)
    qed
  qed
qed

section \<open>The database thread hands on\<close>

lemma get_loop_finds:
  assumes laws: "xapian_laws (e_xap E) view" and key: "keyed (e_sha E) (view db)"
    and h: "h \<in> stored E view db"
  shows "get_loop E hs db acc = Inr r \<Longrightarrow> h \<in> set hs \<Longrightarrow> \<exists>d\<in>set r. e_sha E d = h \<and> d \<in> entries (view db)"
    and "get_loop E hs db acc = Inr r \<Longrightarrow> set acc \<subseteq> set r"
proof -
  show mono: "get_loop E hs db acc = Inr r \<Longrightarrow> set acc \<subseteq> set r" for acc hs
    by (induction hs arbitrary: acc) (fastforce simp: bindr_Inr_conv split: list.splits)+
  show "get_loop E hs db acc = Inr r \<Longrightarrow> h \<in> set hs \<Longrightarrow> \<exists>d\<in>set r. e_sha E d = h \<and> d \<in> entries (view db)"
  proof (induction hs arbitrary: acc)
    case (Cons g hs)
    show ?case
    proof (cases "x_postlist (e_xap E) db (CHR ''Q'' # g)")
      case Nil
      then have "g \<noteq> h" using postlist_key_Nil [OF laws key] h by blast
      with Nil Cons show ?thesis by (auto simp: bindr_Inr_conv)
    next
      case (Cons p ps)
      let ?d = "x_get_data (e_xap E) db p"
      have l: "get_loop E hs db (acc @ [?d]) = Inr r"
        using Cons.prems(1) Cons by (auto simp: bindr_Inr_conv)
      show ?thesis
      proof (cases "g = h")
        case True
        have "?d \<in> set r" using mono [OF l] by simp
        then show ?thesis using postlist_key [OF laws key Cons] True by blast
      next
        case False
        then show ?thesis using Cons.IH [OF l] Cons.prems(2) by simp
      qed
    qed
  qed simp
qed

lemma db_get_docs_finds:
  assumes inv: "db_written_inv E rr view db_name s" and tr: "travels E e"
    and "db_get_docs E db_name hs (ds_db s) = Inr ds"
    and "e_sha E e \<in> set hs" and h: "e_sha E e \<in> stored E view (ds_db s)"
  shows "e \<in> set ds"
proof -
  note D = db_written_invD [OF inv]
  have "entries (view (ds_db s)) \<noteq> {}" using h by (auto simp: stored_def)
  then have "view (ds_db s) \<noteq> Map.empty" by (simp add: entries_empty)
  then have "x_open (e_xap E) (ds_db s) db_name = None" "x_doccount (e_xap E) (ds_db s) \<noteq> 0"
    using D(6) laws_doccount [OF D(3)] laws_finite [OF D(3)] by (auto simp: healthy_def)
  then have "get_loop E hs (ds_db s) [] = Inr ds" using assms(3) by (simp add: db_get_docs_def)
  then obtain d where d: "d \<in> set ds" "e_sha E d = e_sha E e" "d \<in> entries (view (ds_db s))"
    using get_loop_finds(1) [OF D(3,5) h] assms(4) by blast
  then have "ad_text E d" using D(2) by (simp add: ads_written_def)
  with d tr have "d = e" by (simp add: travels_def)
  with d(1) show ?thesis by simp
qed

lemma db_client_op_spares:
  assumes inv: "db_written_inv E rr view db_name s" and op: "db_client_op E db_name ps msg s = Inr (s', out)"
  shows "\<not> names_hash E h msg \<Longrightarrow> h \<in> stored E view (ds_db s) \<Longrightarrow> h \<in> stored E view (ds_db s')"
    and "ds_db s' = ds_db s \<or> [''NEW''] \<in> set (to_p2p out)"
proof -
  note D = db_written_invD [OF inv]
  show "ds_db s' = ds_db s \<or> [''NEW''] \<in> set (to_p2p out)"
    using op by (elim db_client_op_cases db_client_db_cases) auto
  show "h \<in> stored E view (ds_db s')" if sp: "\<not> names_hash E h msg" and st: "h \<in> stored E view (ds_db s)"
  proof (rule ccontr)
    assume no: "h \<notin> stored E view (ds_db s')"
    obtain e where e: "e \<in> entries (view (ds_db s))" "h = e_sha E e" using st by (auto simp: stored_def)
    with db_client_op_removes [OF D(1) op e(1)] no sp show False by (auto simp: names_hash_def)
  qed
qed

lemma db_peer_op_hands_on:
  assumes inv: "db_written_inv E rr view db_name s" and nf: "no_faults E" and tr: "travels E e"
    and len: "length m < 2 ^ 64" and wf: "wf_db m"
    and op: "db_peer_op E db_name m s = Inr (s', out)"
  shows "stored E view (ds_db s) \<subseteq> stored E view (ds_db s')"
    and "ds_db s' = ds_db s \<or> [''NEW''] \<in> set (to_p2p out)"
    and "m = ''GET'' # a # sz # hs \<Longrightarrow> e_sha E e \<in> set hs \<Longrightarrow> e_sha E e \<in> stored E view (ds_db s) \<Longrightarrow>
      \<exists>sz' ds. ''PUT'' # a # sz' # ds \<in> set (to_p2p out) \<and> e \<in> set ds"
    and "m = ''INS'' # sz # ds \<Longrightarrow> e \<in> set ds \<Longrightarrow> e_sha E e \<in> stored E view (ds_db s')"
proof -
  note D = db_written_invD [OF inv]
  have put: "stored E view db' = stored E view (ds_db s) \<union> peer_digests E ds"
    if "db_put_docs E db_name ds (ds_db s) = Inr (n, db')" for ds n db'
    using db_put_docs_stored [OF D(3,5) that] nf by simp
  show "stored E view (ds_db s) \<subseteq> stored E view (ds_db s')"
    using op by (cases rule: db_peer_op_cases) (use put in auto)
  show "ds_db s' = ds_db s \<or> [''NEW''] \<in> set (to_p2p out)"
    using op by (cases rule: db_peer_op_cases) auto
  show "\<exists>sz' ds. ''PUT'' # a # sz' # ds \<in> set (to_p2p out) \<and> e \<in> set ds"
    if m: "m = ''GET'' # a # sz # hs" and h: "e_sha E e \<in> set hs" "e_sha E e \<in> stored E view (ds_db s)"
  proof -
    have "stoul sz = Inr (length hs)" using wf len m by (simp add: wf_db_def announces_def)
    then obtain ds where "db_get_docs E db_name hs (ds_db s) = Inr ds"
      "out = [ToP2p (''PUT'' # a # nat_to_string (length ds) # ds)]"
      using op m by (auto simp: db_peer_op_def msg_count_def msg_loop_eq bindr_Inr_conv)
    with db_get_docs_finds [OF inv tr _ h] show ?thesis by auto
  qed
  show "e_sha E e \<in> stored E view (ds_db s')" if m: "m = ''INS'' # sz # ds" and e: "e \<in> set ds"
  proof -
    let ?ds = "filter (\<lambda>d. e_sha E d \<notin> set (my_hashes s)) ds"
    have c: "stoul sz = Inr (length ds)" using wf len m by (simp add: wf_db_def announces_def)
    show ?thesis
    proof (cases "e_sha E e \<in> set (my_hashes s)")
      case True
      then show ?thesis using \<open>stored E view (ds_db s) \<subseteq> stored E view (ds_db s')\<close> D(7) by auto
    next
      case False
      then have e': "e \<in> set ?ds" using e by simp
      then have "?ds \<noteq> []" by (cases ?ds) auto
      then obtain n db' where "db_put_docs E db_name ?ds (ds_db s) = Inr (n, db')" "ds_db s' = db'"
        using op m c
        by (auto simp: db_peer_op_def msg_count_def msg_loop_eq bindr_Inr_conv fold_keep_unknown simp del: filter_eq_Cons_iff)
      moreover have "e_sha E e \<in> peer_digests E ?ds"
        using e' tr by (auto simp: peer_digests_def travels_def)
      ultimately show ?thesis using put by simp
    qed
  qed
qed

lemma db_turn_hands_on:
  assumes inv: "db_written_inv E rr view db_name s" and nf: "no_faults E" and tr: "travels E e"
    and cl: "\<And>m. cl = Some m \<Longrightarrow> \<not> names_hash E (e_sha E e) m"
    and pr: "\<And>m. pr = Some m \<Longrightarrow> length m < 2 ^ 64 \<and> wf_db m"
    and turn: "db_thread_turn E db_name (ps, cl, pr) s = Inr (s', out)"
  shows "e_sha E e \<in> stored E view (ds_db s) \<Longrightarrow> e_sha E e \<in> stored E view (ds_db s')"
    and "e_sha E e \<in> stored E view (ds_db s') \<Longrightarrow>
      e_sha E e \<in> stored E view (ds_db s) \<or> [''NEW''] \<in> set (to_p2p out)"
    and "pr = Some (''GET'' # a # sz # hs) \<Longrightarrow> e_sha E e \<in> set hs \<Longrightarrow> e_sha E e \<in> stored E view (ds_db s) \<Longrightarrow>
      \<exists>sz' ds. ''PUT'' # a # sz' # ds \<in> set (to_p2p out) \<and> e \<in> set ds"
    and "pr = Some (''INS'' # sz # ds) \<Longrightarrow> e \<in> set ds \<Longrightarrow> e_sha E e \<in> stored E view (ds_db s')"
proof -
  from turn obtain s1 out1 out2 where t:
    "(case cl of None \<Rightarrow> Inr (s, []) | Some m \<Rightarrow> db_client_op E db_name ps m s) = Inr (s1, out1)"
    "(case pr of None \<Rightarrow> Inr (s1, []) | Some m \<Rightarrow> db_peer_op E db_name m s1) = Inr (s', out2)"
    "out = out1 @ out2"
    by (cases rule: db_thread_turnE)
  have 1: "db_written_inv E rr view db_name s1 \<and>
      (e_sha E e \<in> stored E view (ds_db s) \<longrightarrow> e_sha E e \<in> stored E view (ds_db s1)) \<and>
      (ds_db s1 = ds_db s \<or> [''NEW''] \<in> set (to_p2p out1))"
  proof (cases cl)
    case (Some m)
    then have op: "db_client_op E db_name ps m s = Inr (s1, out1)" using t(1) by simp
    show ?thesis using db_client_op_spares [OF inv op] cl [OF Some] db_client_op_written [OF inv op] by blast
  qed (use t(1) inv in simp)
  then have inv1: "db_written_inv E rr view db_name s1" by blast
  have pr2: "db_peer_op E db_name m s1 = Inr (s', out2) \<and> length m < 2 ^ 64 \<and> wf_db m" if "pr = Some m" for m
    using t(2) pr that by simp
  have P: "stored E view (ds_db s1) \<subseteq> stored E view (ds_db s') \<and>
      (ds_db s' = ds_db s1 \<or> [''NEW''] \<in> set (to_p2p out2))"
  proof (cases pr)
    case (Some m)
    from pr2 [OF this] db_peer_op_hands_on(1) [OF inv1 nf tr, of m s' out2]
      db_peer_op_hands_on(2) [OF inv1 nf tr, of m s' out2] show ?thesis by blast
  qed (use t(2) in simp)
  show "e_sha E e \<in> stored E view (ds_db s) \<Longrightarrow> e_sha E e \<in> stored E view (ds_db s')"
    using 1 P by blast
  show "e_sha E e \<in> stored E view (ds_db s') \<Longrightarrow>
      e_sha E e \<in> stored E view (ds_db s) \<or> [''NEW''] \<in> set (to_p2p out)"
    using 1 P by (auto simp: t(3) to_append)
  show "pr = Some (''GET'' # a # sz # hs) \<Longrightarrow> e_sha E e \<in> set hs \<Longrightarrow> e_sha E e \<in> stored E view (ds_db s) \<Longrightarrow>
      \<exists>sz' ds. ''PUT'' # a # sz' # ds \<in> set (to_p2p out) \<and> e \<in> set ds"
    using db_peer_op_hands_on(3) [OF inv1 nf tr] pr2 1 by (fastforce simp: t(3) to_append)
  show "pr = Some (''INS'' # sz # ds) \<Longrightarrow> e \<in> set ds \<Longrightarrow> e_sha E e \<in> stored E view (ds_db s')"
    using db_peer_op_hands_on(4) [OF inv1 nf tr] pr2 by blast
qed

lemma db_turn_none_lost:
  assumes inv: "net_inv E rr view name net" and n: "nt_nodes net i = Some n"
    and turn: "db_turn_at E name i client takes net n = Inr (net', out)"
    and nf: "no_faults E" and tr: "travels E e" and acc: "net_accepts E (DbTurn i client takes) net"
    and sp: "spares E (e_sha E e) (DbTurn i client takes)" and nl: "none_lost E view e net"
  shows "none_lost E view e net'"
proof -
  let ?pr = "if takes then hd_opt (n_to_db n) else None" and ?q = "if takes then tl (n_to_db n) else n_to_db n"
  from turn obtain d o1 where
    t: "db_thread_turn E (name i) (my_peers (n_p2p n), client, ?pr) (n_db n) = Inr (d, o1)"
    and net': "net' = net\<lparr>nt_nodes := (nt_nodes net)(i \<mapsto>
         n\<lparr>n_db := d, n_to_p2p := n_to_p2p n @ to_p2p o1, n_to_db := ?q\<rparr>)\<rparr>"
    by (auto simp: db_turn_at_def bindr_Inr_conv)
  let ?n = "n\<lparr>n_db := d, n_to_p2p := n_to_p2p n @ to_p2p o1, n_to_db := ?q\<rparr>"
  have ok: "node_ok E rr view (name i) i n" by (rule net_invD(1) [OF inv n])
  then have w: "db_written_inv E rr view (name i) (n_db n)"
    and wf: "\<And>x. x \<in> set (n_to_db n) \<Longrightarrow> wf_db x" by (simp_all add: node_ok_def db_queue_ok_def)
  have pr: "length x < 2 ^ 64 \<and> wf_db x" if "?pr = Some x" for x
    using that acc n wf by (auto simp: net_accepts_def hd_opt_Some split: if_splits)
  have cl: "\<not> names_hash E (e_sha E e) x" if "client = Some x" for x using sp that by simp
  note H = db_turn_hands_on [OF w nf tr cl pr t]
  have q: "x \<in> set ?q \<or> ?pr = Some x" if "x \<in> set (n_to_db n)" for x
    using that by (cases "n_to_db n") (auto simp: hd_opt_def)
  have own: "\<not> knows n i" using ok by (simp add: node_ok_def p2p_inv_def)
  have way: "on_its_way E view e j m k n' (nt_wire net j (own_addr k)) (nt_wire net k (own_addr j))"
    if "nt_nodes net j = Some m" "nt_nodes net k = Some n'" for j k m n'
    using nl that by (simp add: none_lost_def)
  have snd: "on_its_way E view e i ?n k n' ij ji" if way0: "on_its_way E view e i n k n' ij ji" for k n' ij ji
  proof -
    have "announcing ?n \<or> offered E e i ?n k n' ij ji \<or> holds E view e n'"
      if kn: "knows n k" and h: "holds E view e ?n"
    proof (cases "[''NEW''] \<in> set (to_p2p o1) \<or> announcing n")
      case True
      then show ?thesis by (auto simp: announcing_def)
    next
      case False
      then have h0: "holds E view e n" using H(2) h by (auto simp: holds_def)
      with False kn way0 have "offered E e i n k n' ij ji \<or> holds E view e n'"
        by (simp add: on_its_way_def)
      moreover have "offered E e i ?n k n' ij ji" if "offered E e i n k n' ij ji"
        using that
      proof (cases rule: offered_cases)
        case (GET sz hs)
        show ?thesis
        proof (cases "''GET'' # own_addr k # sz # hs \<in> set ?q")
          case True
          then have "''GET'' # own_addr k # sz # hs \<in> set (n_to_db ?n)" by simp
          then show ?thesis using GET(2) offeredI(4) by metis
        next
          case False
          then have "?pr = Some (''GET'' # own_addr k # sz # hs)" using q [OF GET(1)] by blast
          from H(3) [OF _ _ this GET(2)] h0 show ?thesis by (auto simp: holds_def offered_def)
        qed
      qed (auto simp: offered_def)
      ultimately show ?thesis by blast
    qed
    then show ?thesis by (simp add: on_its_way_def)
  qed
  have rcv: "on_its_way E view e j m i ?n ji ij" if way0: "on_its_way E view e j m i n ji ij" for j m ij ji
  proof -
    have "offered E e j m i ?n ji ij \<or> holds E view e ?n" if "offered E e j m i n ji ij"
      using that
    proof (cases rule: offered_cases)
      case (INS sz ds)
      show ?thesis
      proof (cases "''INS'' # sz # ds \<in> set ?q")
        case True
        then have "''INS'' # sz # ds \<in> set (n_to_db ?n)" by simp
        then show ?thesis using INS(2) offeredI(7) by metis
      next
        case False
        then have "?pr = Some (''INS'' # sz # ds)" using q [OF INS(1)] by blast
        from H(4) [OF _ _ this INS(2)] show ?thesis by (simp add: holds_def)
      qed
    qed (auto simp: offered_def)
    moreover have "holds E view e n \<Longrightarrow> holds E view e ?n" using H(1) by (simp add: holds_def)
    ultimately show ?thesis using way0 by (auto simp: on_its_way_def)
  qed
  show ?thesis
    unfolding none_lost_def net'
  proof (intro allI impI, goal_cases)
    case (1 j k m n')
    consider (both) "j = i" "k = i" | (send) "j = i" "k \<noteq> i" | (recv) "j \<noteq> i" "k = i" | (none) "j \<noteq> i" "k \<noteq> i"
      by blast
    then show ?case
    proof cases
      case both
      with 1 own show ?thesis by (auto simp: on_its_way_def)
    next
      case send
      with 1 show ?thesis using snd way [OF n] by auto
    next
      case recv
      with 1 show ?thesis using rcv way [OF _ n] by auto
    next
      case none
      with 1 way show ?thesis by simp
    qed
  qed
qed

section \<open>From the start of the network\<close>

text \<open>
  Every daemon has just started on a database of written ads, with any peers; nothing is under way.
\<close>

definition node_started ::
  "'db env \<Rightarrow> (double \<Rightarrow> double) \<Rightarrow> ('db \<Rightarrow> xview) \<Rightarrow> (string \<Rightarrow> bool) \<Rightarrow> string \<Rightarrow> int \<Rightarrow> 'db node \<Rightarrow> bool" where
  "node_started E rr view reach db_name i n \<longleftrightarrow>
     (\<exists>p0 peers db out. distinct peers \<and> p2p_thread_init reach p0 i peers = Inr (n_p2p n, out) \<and>
        db_ok E rr view db_name db \<and> ads_written E view db \<and>
        n_db n = db_thread_init E db_name db \<and> n_to_db n = [] \<and> n_to_p2p n = [])"

definition net_started ::
  "'db env \<Rightarrow> (double \<Rightarrow> double) \<Rightarrow> ('db \<Rightarrow> xview) \<Rightarrow> (string \<Rightarrow> bool) \<Rightarrow> (int \<Rightarrow> string) \<Rightarrow> 'db net \<Rightarrow> bool" where
  "net_started E rr view reach name net \<longleftrightarrow>
     (\<forall>i n. nt_nodes net i = Some n \<longrightarrow> node_started E rr view reach (name i) i n) \<and>
     (\<forall>i a. nt_wire net i a = [])"

lemma node_startedD:
  assumes "node_started E rr view reach db_name i n"
  shows "node_ok E rr view db_name i n" and "to_bcast_peers (n_p2p n)" and "to_bcast_hashes (n_p2p n)"
proof -
  from assms obtain p0 peers db out where s: "distinct peers" "p2p_thread_init reach p0 i peers = Inr (n_p2p n, out)"
    "db_ok E rr view db_name db" "ads_written E view db" "n_db n = db_thread_init E db_name db"
    "n_to_db n = []" "n_to_p2p n = []"
    by (auto simp: node_started_def)
  show "to_bcast_peers (n_p2p n)" "to_bcast_hashes (n_p2p n)"
    using s(2) by (auto simp: p2p_thread_init_def Let_def bindr_Inr_conv dest: sym)
  show "node_ok E rr view db_name i n"
    using p2p_thread_init_told(1,2) [OF s(1,2)] db_thread_init_written [OF s(3,4)] s(5-7)
    by (simp add: node_ok_def p2p_told_inv_def)
qed

lemma net_started_inv:
  assumes "net_started E rr view reach name net"
  shows "net_inv E rr view name net" and "none_lost E view e net"
  using assms node_startedD
  by (fastforce simp: net_started_def net_inv_def told_ok_def none_lost_def on_its_way_def announcing_def)+

interpretation conv: live_machine "net_turn E reach name" "net_inv E rr view name" "\<lambda>m. length m = 1"
    "\<lambda>net. sound_setting E reach \<and> travels E e \<and> none_lost E view e net"
    "\<lambda>ev net. net_accepts E ev net \<and> spares E (e_sha E e) ev"
  for E reach name rr view e
proof (unfold_locales, goal_cases)
  case (1 net ev)
  then obtain net' out where s: "net_turn E reach name ev net = Inr (net', out)"
    using net_live by blast
  have "none_lost E view e net'"
  proof (cases ev)
    case (P2pTurn i src takes)
    then show ?thesis using s 1 p2p_turn_none_lost [OF 1(1)]
      by (auto simp: net_turn_def bindr_Inr_conv split: option.splits)
  next
    case (DbTurn i client takes)
    have "no_faults E" using 1(2) by (simp add: sound_setting_def)
    then show ?thesis using DbTurn s 1 db_turn_none_lost [OF 1(1)]
      by (auto simp: net_turn_def split: option.splits)
  qed
  with s 1(2) show ?case by blast
qed

section \<open>At rest\<close>

definition node_quiet :: "'db node \<Rightarrow> bool" where
  "node_quiet n \<longleftrightarrow> \<not> to_bcast_peers (n_p2p n) \<and> \<not> to_bcast_hashes (n_p2p n) \<and>
     db_requests (n_p2p n) = [] \<and> n_to_db n = [] \<and> n_to_p2p n = []"

definition net_quiet :: "'db net \<Rightarrow> bool" where
  "net_quiet net \<longleftrightarrow>
     (\<forall>i n. nt_nodes net i = Some n \<longrightarrow> node_quiet n) \<and>
     (\<forall>i j m n. nt_nodes net i = Some m \<longrightarrow> nt_nodes net j = Some n \<longrightarrow> nt_wire net i (own_addr j) = [])"

lemma quiet_peers_agree:
  assumes inv: "net_inv E rr view name net" and nl: "none_lost E view e net" and "net_quiet net"
    and nodes: "nt_nodes net i = Some m" "nt_nodes net j = Some n" and k: "knows m j"
  shows "knows n i" and "holds E view e m \<longleftrightarrow> holds E view e n"
proof -
  have q: "node_quiet m" "node_quiet n" "nt_wire net i (own_addr j) = []" "nt_wire net j (own_addr i) = []"
    using assms(3) nodes by (auto simp: net_quiet_def)
  show k': "knows n i"
    using net_invD(4) [OF inv nodes] k q by (simp add: told_ok_def ends_known_def node_quiet_def)
  have way: "holds E view e m \<longrightarrow> holds E view e n" if "node_quiet m" "node_quiet n" "knows m j"
    "on_its_way E view e i m j n [] []" for i j m n
    using that by (simp add: on_its_way_def node_quiet_def announcing_def offered_def)
  have "on_its_way E view e i m j n [] []" "on_its_way E view e j n i m [] []"
    using nl nodes q(3,4) unfolding none_lost_def by metis+
  with way q(1,2) k k' show "holds E view e m \<longleftrightarrow> holds E view e n" by blast
qed

end
