(* ===== verification/Bounds.thy ===== *)
theory Bounds
  imports Convergence
begin

text \<open>
  How much a network can hold: when all ads are in a finite set of texts that peers store as they are,
  and all addresses in a finite set, then so is everything the daemons know and send, and the length of
  every message is bounded.
\<close>

section \<open>What a message carries\<close>

definition docs_of :: "message \<Rightarrow> string list" where
  "docs_of m =
     (if hd m = ''DOC'' \<or> hd m = ''INS'' then drop 2 m else if hd m = ''PUT'' then drop 3 m else [])"

definition hashes_of :: "message \<Rightarrow> string list" where
  "hashes_of m = (if hd m \<in> {''HASH'', ''REQ'', ''GET''} then drop 3 m else [])"

definition addrs_of :: "message \<Rightarrow> string list" where
  "addrs_of m = (if hd m = ''PEER'' then drop 2 m else [])"

definition fits :: "'db env \<Rightarrow> string set \<Rightarrow> string set \<Rightarrow> message \<Rightarrow> bool" where
  "fits E T A m \<longleftrightarrow>
     set (docs_of m) \<subseteq> T \<and> set (hashes_of m) \<subseteq> e_sha E ` T \<and> set (addrs_of m) \<subseteq> A \<and>
     length m \<le> card T + card A + 4"

lemma fits_simps [simp]:
  "fits E T A (''DOC'' # sz # ds) \<longleftrightarrow> set ds \<subseteq> T \<and> length ds \<le> card T + card A + 2"
  "fits E T A (''INS'' # sz # ds) \<longleftrightarrow> set ds \<subseteq> T \<and> length ds \<le> card T + card A + 2"
  "fits E T A (''PUT'' # a # sz # ds) \<longleftrightarrow> set ds \<subseteq> T \<and> length ds \<le> card T + card A + 1"
  "fits E T A (''GET'' # a # sz # hs) \<longleftrightarrow> set hs \<subseteq> e_sha E ` T \<and> length hs \<le> card T + card A + 1"
  "fits E T A (''REQ'' # a # sz # hs) \<longleftrightarrow> set hs \<subseteq> e_sha E ` T \<and> length hs \<le> card T + card A + 1"
  "fits E T A (''HASH'' # a # sz # hs) \<longleftrightarrow> set hs \<subseteq> e_sha E ` T \<and> length hs \<le> card T + card A + 1"
  "fits E T A (''PEER'' # sz # as) \<longleftrightarrow> set as \<subseteq> A \<and> length as \<le> card T + card A + 2"
  "fits E T A [''NEW'']"
  by (auto simp: fits_def docs_of_def hashes_of_def addrs_of_def)

lemma distinct_length_le: "distinct xs \<Longrightarrow> set xs \<subseteq> S \<Longrightarrow> finite S \<Longrightarrow> length xs \<le> card S"
  by (metis card_mono distinct_card)

section \<open>The p2p thread\<close>

definition p2p_fits :: "'db env \<Rightarrow> string set \<Rightarrow> string set \<Rightarrow> int \<Rightarrow> p2p_state \<Rightarrow> bool" where
  "p2p_fits E T A i s \<longleftrightarrow>
     own_addr i \<in> A \<and> set (my_peers s) \<subseteq> A \<and> (\<forall>a. requested (db_requests s) a \<subseteq> e_sha E ` T)"

lemma own_msgs_fit:
  assumes "finite T" and "finite A"
  shows "distinct ps \<Longrightarrow> set ps \<subseteq> A \<Longrightarrow> own_addr i \<in> A \<Longrightarrow> fits E T A (peer_msg i ps)"
    and "distinct hs \<Longrightarrow> set hs \<subseteq> e_sha E ` T \<Longrightarrow> fits E T A (hash_msg i hs)"
    and "distinct hs \<Longrightarrow> set hs \<subseteq> e_sha E ` T \<Longrightarrow> fits E T A (req_msg i hs)"
proof -
  show "distinct ps \<Longrightarrow> set ps \<subseteq> A \<Longrightarrow> own_addr i \<in> A \<Longrightarrow> fits E T A (peer_msg i ps)"
    using distinct_length_le [of ps A] assms(2) by (simp add: peer_msg_def)
  have "distinct hs \<Longrightarrow> set hs \<subseteq> e_sha E ` T \<Longrightarrow> length hs \<le> card T"
    using distinct_length_le [of hs "e_sha E ` T"] card_image_le [OF assms(1), of "e_sha E"] assms(1) by fastforce
  then show "distinct hs \<Longrightarrow> set hs \<subseteq> e_sha E ` T \<Longrightarrow> fits E T A (hash_msg i hs)"
    "distinct hs \<Longrightarrow> set hs \<subseteq> e_sha E ` T \<Longrightarrow> fits E T A (req_msg i hs)"
    by (simp_all add: hash_msg_def req_msg_def)
qed

lemma p2p_sends_fits:
  assumes fin: "finite T" "finite A" and inv: "p2p_inv i s" and st: "p2p_fits E T A i s"
    and hashes: "distinct hashes" "set hashes \<subseteq> e_sha E ` T"
    and sends: "p2p_sends i hashes s = Inr (s', out)"
  shows "p2p_fits E T A i s'" and "\<forall>m\<in>set (to_peer a out). fits E T A m" and "to_db out = []"
proof -
  note eq = p2p_sends_eq [OF sends]
  have rq: "distinct hs \<and> set hs \<subseteq> e_sha E ` T" if "(b, hs) \<in> set (db_requests s)" for b hs
  proof -
    have "distinct (map fst (db_requests s))" "distinct hs"
      using inv that by (auto simp: p2p_inv_def reqs_ok_def)
    then have "requested (db_requests s) b = set hs" using that by (simp add: requested_def)
    then show ?thesis using st \<open>distinct hs\<close> unfolding p2p_fits_def by metis
  qed
  have "distinct (my_peers s)" "own_addr i \<in> A" "set (my_peers s) \<subseteq> A"
    using inv st by (simp_all add: p2p_inv_def p2p_fits_def)
  then have "fits E T A (peer_msg i (my_peers s))" "fits E T A (hash_msg i hashes)"
    by (simp_all add: own_msgs_fit(1,2) [OF fin] hashes)
  moreover have "fits E T A (req_msg i hs)" if "(b, hs) \<in> set (db_requests s)" for b hs
    by (simp add: own_msgs_fit(3) [OF fin] rq [OF that])
  ultimately show "\<forall>m\<in>set (to_peer a out). fits E T A m"
    by (auto simp: eq(1) to_append sends_defs to_peer_map case_prod_unfold)
  show "p2p_fits E T A i s'" using st eq(2,6) by (auto simp: p2p_fits_def)
  show "to_db out = []" by (simp add: eq(1) to_append sends_defs case_prod_unfold)
qed

lemma p2p_answer_p2p_fits:
  assumes st: "p2p_fits E T A i s" and msg: "fits E T A (tl msg)"
    and op: "p2p_answer_p2p E reach i hashes msg s = Inr (s', out)"
  shows "p2p_fits E T A i s' \<and> (\<forall>m\<in>set (to_db out). fits E T A m) \<and> to_peer a out = []"
  using op
proof (cases rule: p2p_answer_p2p_cases)
  case (peer ident sz m num)
  note eff = peer_loop_effect [OF peer(3)]
  then have "\<forall>x\<in>set out. \<exists>b. x = Connect b" by blast
  then have out: "to_db out = []" "to_peer a out = []" by (induction out) auto
  have "set (take num m) \<subseteq> A" using msg peer(1) by (auto dest: in_set_takeD)
  then have "set (my_peers s') \<subseteq> A" using eff st by (auto simp: set_learn p2p_fits_def)
  with out st eff show ?thesis by (simp add: p2p_fits_def)
next
  case (hash ident addr sz m num)
  have "set (take num m) \<subseteq> e_sha E ` T" using msg hash(1) by (auto dest: in_set_takeD)
  then have "requested (db_requests s') b \<subseteq> e_sha E ` T" for b
    using st unfolding hash(4) fold_want_hash_requested p2p_fits_def by (cases "b = addr") auto
  with st hash(4,5) show ?thesis by (simp add: p2p_fits_def fold_want_hash_frame)
next
  case (req ident addr sz m num)
  have "set (take num m) \<subseteq> e_sha E ` T" using msg req(1) by (auto dest: in_set_takeD)
  with req st msg show ?thesis by simp
next
  case (doc ident sz m num docs)
  have d: "docs = filter (\<lambda>d. sha256 E d \<notin> set hashes) (take num m)"
    unfolding doc(5) fold_keep_new_doc by simp
  have "length docs \<le> length m" unfolding d using length_filter_le [of _ "take num m"] doc(3) by (metis length_take le_trans min.cobounded1)
  moreover have "set docs \<subseteq> T" unfolding d using msg doc(1) by (auto dest: in_set_takeD)
  ultimately show ?thesis using st msg doc by simp
next
  case unknown
  with st show ?thesis by simp
qed

lemma p2p_answer_db_fits:
  assumes st: "p2p_fits E T A i s" and msg: "fits E T A msg" and op: "p2p_answer_db dbg msg s = Inr (s', out)"
  shows "p2p_fits E T A i s' \<and> (\<forall>m\<in>set (to_peer a out). fits E T A m) \<and> to_db out = []"
  using op
proof (cases rule: p2p_answer_db_cases)
  case (put addr sz m num)
  have "set (take num m) \<subseteq> T" using msg put(1) by (auto dest: in_set_takeD)
  with put st msg show ?thesis by simp
qed (use st in \<open>simp_all add: p2p_fits_def\<close>)

lemma p2p_turn_fits:
  assumes fin: "finite T" "finite A" and inv: "p2p_inv i s" and st: "p2p_fits E T A i s"
    and hashes: "distinct hashes" "set hashes \<subseteq> e_sha E ` T"
    and pm: "\<And>m. pm = Some m \<Longrightarrow> fits E T A (tl m)" and dm: "\<And>m. dm = Some m \<Longrightarrow> fits E T A m"
    and turn: "p2p_thread_turn E reach i (hashes, pm, dm) s = Inr (s', out)"
  shows "p2p_fits E T A i s'" and "\<forall>m\<in>set (to_db out). fits E T A m"
    and "\<forall>m\<in>set (to_peer a out). fits E T A m"
proof -
  from turn obtain s1 out1 s2 out2 out3 where t: "p2p_sends i hashes s = Inr (s1, out1)"
    "(case pm of None \<Rightarrow> Inr (s1, []) | Some m \<Rightarrow> p2p_answer_p2p E reach i hashes m s1) = Inr (s2, out2)"
    "(case dm of None \<Rightarrow> Inr (s2, []) | Some m \<Rightarrow> p2p_answer_db (e_dbg E) m s2) = Inr (s', out3)"
    "out = out1 @ out2 @ out3"
    by (cases rule: p2p_thread_turnE)
  note 1 = p2p_sends_fits [OF fin inv st hashes t(1)]
  have 2: "p2p_fits E T A i s2 \<and> (\<forall>m\<in>set (to_db out2). fits E T A m) \<and> to_peer a out2 = []"
  proof (cases pm)
    case (Some m)
    then have "p2p_answer_p2p E reach i hashes m s1 = Inr (s2, out2)" using t(2) by simp
    from p2p_answer_p2p_fits [OF 1(1) pm [OF Some] this] show ?thesis .
  qed (use t(2) 1(1) in simp)
  then have 3: "p2p_fits E T A i s' \<and> (\<forall>m\<in>set (to_peer a out3). fits E T A m) \<and> to_db out3 = []"
  proof (cases dm)
    case (Some m)
    then have "p2p_answer_db (e_dbg E) m s2 = Inr (s', out3)" using t(3) by simp
    from p2p_answer_db_fits [OF _ dm [OF Some] this] 2 show ?thesis by blast
  qed (use t(3) in simp)
  from 1 2 3 show "p2p_fits E T A i s'" and "\<forall>m\<in>set (to_db out). fits E T A m"
    and "\<forall>m\<in>set (to_peer a out). fits E T A m"
    by (auto simp: t(4) to_append)
qed

section \<open>The database thread\<close>

lemma put_loop_entries:
  assumes "xapian_laws (e_xap E) view" and "keyed (e_sha E) (view db)"
    and "put_loop E ds db = Inr (err, db')"
  shows "entries (view db') \<subseteq> entries (view db) \<union> {e. \<exists>t\<in>set ds. peer_entry E t = Some e}"
  using assms(2,3)
proof (induction ds arbitrary: db)
  case (Cons t ts)
  from Cons.prems(2) obtain ok d where d: "JSONBase_deserialize (e_json E) t Document_new = Inr (ok, d)"
    by (auto simp: bindr_Inr_conv)
  show ?case
  proof (cases "m_author d = []")
    case True
    with Cons d show ?thesis by fastforce
  next
    case False
    then have pe: "peer_entry E t = Some (Document_serialize (e_json E) d)"
      using d by (simp add: peer_entry_def)
    from Cons.prems(2) d False obtain r where r: "add_document E (m_author d) d db = Inr r"
      by (auto simp: bindr_Inr_conv Let_def)
    show ?thesis
    proof (cases r)
      case (Inl x)
      with Cons.prems d False r show ?thesis by auto
    next
      case (Inr q)
      then obtain sha d' db1 where q: "r = Inr (sha, d', db1)" by (cases q) auto
      note v = add_document_view [OF assms(1) Cons.prems(1) r [unfolded q]]
      have "put_loop E ts db1 = Inr (err, db')"
        using Cons.prems(2) d False r q by (simp add: Let_def)
      from Cons.IH [OF v(1) this] v(2) pe show ?thesis by fastforce
    qed
  qed
qed simp

lemma commit_entries:
  assumes "xapian_laws (e_xap E) view" and "x_commit (e_xap E) db0 db = (err, db')"
    and "entries (view db0) \<subseteq> X" and "entries (view db) \<subseteq> X"
  shows "entries (view db') \<subseteq> X"
  using laws_commit [OF assms(1,2)] assms(3,4) by auto

lemma db_put_docs_entries:
  assumes laws: "xapian_laws (e_xap E) view" and key: "keyed (e_sha E) (view db)"
    and op: "db_put_docs E db_name ds db = Inr (n, db')"
  shows "entries (view db') \<subseteq> entries (view db) \<union> {e. \<exists>t\<in>set ds. peer_entry E t = Some e}"
proof (cases "x_open_rw (e_xap E) db db_name")
  case (Inl x)
  with op show ?thesis by (auto simp: db_put_docs_def)
next
  case (Inr db1)
  from op Inr obtain err db2 where p: "put_loop E ds db1 = Inr (err, db2)"
    by (auto simp: db_put_docs_def bindr_Inr_conv)
  obtain cerr where c: "x_commit (e_xap E) db1 db2 = (cerr, db')"
    using op Inr p by (cases "x_commit (e_xap E) db1 db2") (auto simp: db_put_docs_def split: if_splits)
  have v: "view db1 = view db" by (rule laws_open_rw [OF laws Inr])
  show ?thesis
    by (rule commit_entries [OF laws c]) (use v put_loop_entries [OF laws _ p] key in auto)
qed

lemma index_loop_entries:
  assumes "xapian_laws (e_xap E) view" and "keyed (e_sha E) (view db)"
    and "index_loop E author hs ds db n0 = Inr (err, n, db')"
  shows "entries (view db') \<subseteq> entries (view db) \<union> client_entry E author ` set ds"
  using assms(2,3)
proof (induction ds arbitrary: db n0)
  case (Cons d ds)
  let ?e = "client_entry E author d"
  show ?case
  proof (cases "e_sha E ?e \<in> set hs")
    case True
    with Cons.prems(2) have "index_loop E author hs ds db n0 = Inr (err, n, db')"
      by (simp add: Let_def sha256_def client_entry_def)
    with Cons.IH [OF Cons.prems(1)] show ?thesis by auto
  next
    case False
    then obtain r where r: "add_document E author (d\<lparr>m_author := author\<rparr>) db = Inr r"
      using Cons.prems(2) by (auto simp: Let_def sha256_def client_entry_def bindr_Inr_conv)
    show ?thesis
    proof (cases r)
      case (Inl x)
      with Cons.prems(2) False r show ?thesis by (auto simp: Let_def sha256_def client_entry_def)
    next
      case (Inr q)
      then obtain sha d' db1 where q: "r = Inr (sha, d', db1)" by (cases q) auto
      note v = add_document_view [OF assms(1) Cons.prems(1) r [unfolded q]]
      have "index_loop E author hs ds db1 (n0 + 1) = Inr (err, n, db')"
        using Cons.prems(2) False r q by (simp add: Let_def sha256_def client_entry_def)
      from Cons.IH [OF v(1) this] v(2) show ?thesis by (auto simp: client_entry_def)
    qed
  qed
qed simp

text \<open>The ads that a request of a client may add.\<close>

definition client_adds :: "'db env \<Rightarrow> message \<Rightarrow> string set" where
  "client_adds E msg =
     (case split_auth (hd msg) of
        Inl e \<Rightarrow> {}
      | Inr (user, cmd) \<Rightarrow>
          if chars_match ''db'' cmd \<and> chars_match ''add'' (drop 3 cmd) then
            (case deserializeFromFile (e_json E) (e_files E) (drop 5 (trim (drop 4 (drop 3 cmd)))) [] of
               Inl e \<Rightarrow> {}
             | Inr (ok, ds) \<Rightarrow> client_entry E user ` set ds)
          else {})"

lemma db_add_entries:
  assumes laws: "xapian_laws (e_xap E) view" and key: "keyed (e_sha E) (view db)"
    and op: "db_add E user db_name q hs db = Inr (r, db')"
  shows "entries (view db') \<subseteq> entries (view db) \<union>
    (case deserializeFromFile (e_json E) (e_files E) (drop 5 (trim q)) [] of
       Inl e \<Rightarrow> {} | Inr (ok, ds) \<Rightarrow> client_entry E user ` set ds)"
proof -
  let ?f = "drop 5 (trim q)"
  consider (same) "db' = db"
    | (index) body where "e_files E ?f = Some body" "index_db E user db_name ?f hs db = Inr (r, db')"
    using op by (cases "e_files E ?f")
      (auto simp: db_add_def index_db_def Let_def bindr_Inr_conv split: if_splits)
  then show ?thesis
  proof cases
    case index
    from index obtain db1 where o: "x_open_rw (e_xap E) db db_name = Inr db1"
      by (auto simp: index_db_def bindr_Inr_conv split: sum.splits)
    from index o obtain ok ds err n db2 where
      f: "deserializeFromFile (e_json E) (e_files E) ?f [] = Inr (ok, ds)"
      and l: "index_loop E user hs ds db1 0 = Inr (err, n, db2)"
      and d: "db' = snd (x_commit (e_xap E) db1 db2)"
      by (auto simp: index_db_def bindr_Inr_conv)
    have v: "view db1 = view db" by (rule laws_open_rw [OF laws o])
    obtain cerr where c: "x_commit (e_xap E) db1 db2 = (cerr, db')"
      using d by (cases "x_commit (e_xap E) db1 db2") simp
    show ?thesis
      by (rule commit_entries [OF laws c]) (use f v index_loop_entries [OF laws _ l] key in auto)
  qed auto
qed

lemma db_client_op_entries:
  assumes inv: "db_written_inv E rr view db_name s" and op: "db_client_op E db_name ps msg s = Inr (s', out)"
  shows "entries (view (ds_db s')) \<subseteq> entries (view (ds_db s)) \<union> client_adds E msg"
proof -
  note D = db_written_invD [OF inv]
  from op show ?thesis
  proof (cases rule: db_client_op_cases)
    case (db cmd0 user cmd)
    from db(4) show ?thesis
    proof (cases rule: db_client_db_cases)
      case (add r db')
      from db_add_entries [OF D(3,5) add(1)] show ?thesis
        using add(2,4) db by (auto simp: client_adds_def split: sum.splits)
    next
      case (rm r db')
      then have "db' = ds_db s \<or> (\<exists>del info. db_rm_docs E user db_name del (my_hashes s) (ds_db s) = Inr (info, db'))"
        by (auto simp: db_rm_def Let_def bindr_Inr_conv split: if_splits)
      then have "entries (view db') \<subseteq> entries (view (ds_db s))"
        by (fastforce dest: db_rm_docs_removes [OF D(3,5)] simp: removes_def)
      with rm(2) show ?thesis by auto
    qed simp
  qed simp
qed

text \<open>The state of the thread, and a turn.\<close>

definition db_fits :: "('db \<Rightarrow> xview) \<Rightarrow> string set \<Rightarrow> 'db db_state \<Rightarrow> bool" where
  "db_fits view T s \<longleftrightarrow> entries (view (ds_db s)) \<subseteq> T \<and> distinct (my_hashes s)"

lemma distinct_updated: "distinct (my_hashes (db_update_hashes E db_name s))"
  by (simp add: db_update_hashes_def)

lemma get_loop_length: "get_loop E hs db acc = Inr r \<Longrightarrow> length r \<le> length acc + length hs"
  by (induction hs arbitrary: acc) (fastforce simp: bindr_Inr_conv split: list.splits)+

lemma db_turn_fits:
  assumes tr: "\<forall>t\<in>T. travels E t" and inv: "db_written_inv E rr view db_name s" and st: "db_fits view T s"
    and cl: "\<And>m. client = Some m \<Longrightarrow> client_adds E m \<subseteq> T" and pr: "\<And>m. pr = Some m \<Longrightarrow> fits E T A m"
    and turn: "db_thread_turn E db_name (ps, client, pr) s = Inr (s', out)"
  shows "db_fits view T s'" and "\<forall>m\<in>set (to_p2p out). fits E T A m"
proof -
  from turn obtain s1 out1 out2 where t:
    "(case client of None \<Rightarrow> Inr (s, []) | Some m \<Rightarrow> db_client_op E db_name ps m s) = Inr (s1, out1)"
    "(case pr of None \<Rightarrow> Inr (s1, []) | Some m \<Rightarrow> db_peer_op E db_name m s1) = Inr (s', out2)"
    "out = out1 @ out2"
    by (cases rule: db_thread_turnE)
  have 1: "db_written_inv E rr view db_name s1 \<and> db_fits view T s1 \<and> (\<forall>m\<in>set (to_p2p out1). fits E T A m)"
  proof (cases client)
    case (Some m)
    then have op: "db_client_op E db_name ps m s = Inr (s1, out1)" using t(1) by simp
    have "distinct (my_hashes s1)"
      using op by (elim db_client_op_cases db_client_db_cases)
        (use st in \<open>auto simp: db_fits_def distinct_updated\<close>)
    then show ?thesis
      using db_client_op_entries [OF inv op] db_client_op_written [OF inv op] cl [OF Some] st
        db_client_op_out [OF op] by (auto simp: db_fits_def)
  qed (use t(1) inv st in simp)
  note D = db_written_invD [of E rr view db_name s1]
  have 2: "db_fits view T s' \<and> (\<forall>m\<in>set (to_p2p out2). fits E T A m)"
  proof (cases pr)
    case (Some m)
    then have "db_peer_op E db_name m s1 = Inr (s', out2)" using t(2) by simp
    then show ?thesis
    proof (cases rule: db_peer_op_cases)
      case (get addr sz m' hs ds)
      have "length ds \<le> length hs"
        using get(4) get_loop_length [of E hs "ds_db s1" "[]" ds]
        by (auto simp: db_get_docs_def split: option.splits if_splits)
      moreover have "length hs \<le> length m'" using get(3) by (metis length_take min.cobounded1)
      moreover have "set ds \<subseteq> T"
        using db_get_docs_texts [OF D(3) get(4)] 1 by (auto simp: db_fits_def)
      ultimately show ?thesis using get 1 pr [OF Some] by simp
    next
      case (ins sz m' k ds n db')
      have "set ds \<subseteq> T"
        using pr [OF Some] ins(1) unfolding ins(3) by (auto simp: fold_keep_unknown dest: in_set_takeD)
      then have "{e. \<exists>t\<in>set ds. peer_entry E t = Some e} \<subseteq> T" using tr by (auto simp: travels_def)
      then have "entries (view db') \<subseteq> T"
        using db_put_docs_entries [OF D(3,5) ins(5)] 1 unfolding db_fits_def by blast
      then show ?thesis using ins by (simp add: db_fits_def distinct_updated)
    qed (use 1 in simp)
  qed (use t(2) 1 in simp)
  show "db_fits view T s'" using 2 by blast
  show "\<forall>m\<in>set (to_p2p out). fits E T A m" using 1 2 by (auto simp: t(3) to_append)
qed

section \<open>The network\<close>

definition node_fits ::
  "'db env \<Rightarrow> ('db \<Rightarrow> xview) \<Rightarrow> string set \<Rightarrow> string set \<Rightarrow> int \<Rightarrow> 'db node \<Rightarrow> bool" where
  "node_fits E view T A i n \<longleftrightarrow>
     p2p_fits E T A i (n_p2p n) \<and> db_fits view T (n_db n) \<and>
     (\<forall>m\<in>set (n_to_db n) \<union> set (n_to_p2p n). fits E T A m)"

text \<open>Nodes send on the wires only, so the wires of ports without a node are empty.\<close>

definition net_fits ::
  "'db env \<Rightarrow> ('db \<Rightarrow> xview) \<Rightarrow> string set \<Rightarrow> string set \<Rightarrow> 'db net \<Rightarrow> bool" where
  "net_fits E view T A net \<longleftrightarrow>
     (\<forall>i n. nt_nodes net i = Some n \<longrightarrow> node_fits E view T A i n) \<and>
     (\<forall>j a. \<forall>m\<in>set (nt_wire net j a). fits E T A m) \<and>
     (\<forall>j a. nt_nodes net j = None \<longrightarrow> nt_wire net j a = [])"

text \<open>What is asked of the clients: no addition from outside the set of ads, and no removal from it.\<close>

definition client_ok :: "'db env \<Rightarrow> string set \<Rightarrow> net_event \<Rightarrow> bool" where
  "client_ok E T ev \<longleftrightarrow>
     (\<forall>i m takes. ev = DbTurn i (Some m) takes \<longrightarrow>
        safe_client E m \<and> client_adds E m \<subseteq> T \<and> (\<forall>e\<in>T. \<not> names_hash E (e_sha E e) m))"

text \<open>The setting of the theorems on the network: everything is finite, and fits into messages.\<close>

definition finite_setting :: "'db env \<Rightarrow> string set \<Rightarrow> string set \<Rightarrow> bool" where
  "finite_setting E T A \<longleftrightarrow>
     finite T \<and> finite A \<and> card T + card A + 5 < 2 ^ 64 \<and> (\<forall>t\<in>T. travels E t)"

lemma hd_opt_fits: "\<forall>m\<in>set ms. fits E T A m \<Longrightarrow> hd_opt ms = Some m \<Longrightarrow> fits E T A m"
  by (auto simp: hd_opt_Some)

lemma waiting_fits:
  "net_fits E view T A net \<Longrightarrow> waiting net src i = Some m \<Longrightarrow> fits E T A (tl m)"
  by (auto simp: net_fits_def waiting_def hd_opt_Some split: option.splits) (metis list.set_intros(1))

lemma net_p2p_turn_fits:
  assumes inv: "net_inv E rr view name net" and st: "net_fits E view T A net" and fin: "finite_setting E T A"
    and n: "nt_nodes net i = Some n" and turn: "p2p_turn_at E reach i src takes net n = Inr net'"
  shows "net_fits E view T A net'"
proof -
  let ?dm = "if takes then hd_opt (n_to_p2p n) else None" and ?q = "if takes then tl (n_to_p2p n) else n_to_p2p n"
  from turn obtain s' out where
    t: "p2p_thread_turn E reach i (my_hashes (n_db n), waiting net src i, ?dm) (n_p2p n) = Inr (s', out)"
    and net': "net' = net\<lparr>nt_nodes := (nt_nodes net)(i \<mapsto>
         n\<lparr>n_p2p := s', n_to_db := n_to_db n @ to_db out, n_to_p2p := ?q\<rparr>),
       nt_wire := (taken net src i)(i := (\<lambda>a. taken net src i i a @ to_peer a out))\<rparr>"
    by (auto simp: p2p_turn_at_def bindr_Inr_conv)
  have ok: "node_ok E rr view (name i) i n" by (rule net_invD(1) [OF inv n])
  have nf: "node_fits E view T A i n" using st n by (simp add: net_fits_def)
  have f: "finite T" "finite A" using fin by (simp_all add: finite_setting_def)
  have p: "p2p_inv i (n_p2p n)" using ok by (simp add: node_ok_def)
  have "db_written_inv E rr view (name i) (n_db n)" using ok by (simp add: node_ok_def)
  from db_written_invD(7) [OF this] have h: "set (my_hashes (n_db n)) \<subseteq> e_sha E ` T" "distinct (my_hashes (n_db n))"
    using nf by (auto simp: stored_def node_fits_def db_fits_def)
  have dm: "fits E T A m" if "?dm = Some m" for m
    using nf that by (auto simp: node_fits_def hd_opt_Some split: if_splits)
  have "p2p_fits E T A i (n_p2p n)" using nf by (simp add: node_fits_def)
  note F = p2p_turn_fits [OF f p this h(2,1) waiting_fits [OF st] dm t]
  have "\<forall>m\<in>set ?q. fits E T A m" using nf by (auto simp: node_fits_def dest: in_set_tlD)
  then have "node_fits E view T A i (n\<lparr>n_p2p := s', n_to_db := n_to_db n @ to_db out, n_to_p2p := ?q\<rparr>)"
    using F(1,2) nf by (auto simp: node_fits_def)
  moreover have "\<forall>m\<in>set (taken net src i j a). fits E T A m" for j a
    using st by (auto simp: net_fits_def taken_def dest: in_set_tlD)
  moreover have "taken net src i j a = []" if "nt_nodes net j = None" for j a
    using st that by (auto simp: net_fits_def taken_def)
  ultimately show ?thesis using st F(3) n unfolding net_fits_def net' by auto
qed

lemma net_db_turn_fits:
  assumes inv: "net_inv E rr view name net" and st: "net_fits E view T A net" and fin: "finite_setting E T A"
    and cl: "client_ok E T (DbTurn i client takes)"
    and n: "nt_nodes net i = Some n" and turn: "db_turn_at E name i client takes net n = Inr (net', out)"
  shows "net_fits E view T A net'"
proof -
  let ?pr = "if takes then hd_opt (n_to_db n) else None" and ?q = "if takes then tl (n_to_db n) else n_to_db n"
  from turn obtain d o1 where
    t: "db_thread_turn E (name i) (my_peers (n_p2p n), client, ?pr) (n_db n) = Inr (d, o1)"
    and net': "net' = net\<lparr>nt_nodes := (nt_nodes net)(i \<mapsto>
         n\<lparr>n_db := d, n_to_p2p := n_to_p2p n @ to_p2p o1, n_to_db := ?q\<rparr>)\<rparr>"
    by (auto simp: db_turn_at_def bindr_Inr_conv)
  have nf: "node_fits E view T A i n" using st n by (simp add: net_fits_def)
  have w: "db_written_inv E rr view (name i) (n_db n)" using net_invD(1) [OF inv n] by (simp add: node_ok_def)
  have tr: "\<forall>t\<in>T. travels E t" using fin by (simp add: finite_setting_def)
  have pr: "fits E T A m" if "?pr = Some m" for m
    using nf that by (auto simp: node_fits_def hd_opt_Some split: if_splits)
  have cl': "client_adds E m \<subseteq> T" if "client = Some m" for m using cl that by (simp add: client_ok_def)
  have "db_fits view T (n_db n)" using nf by (simp add: node_fits_def)
  note F = db_turn_fits [OF tr w this cl' pr t]
  have "\<forall>m\<in>set ?q. fits E T A m" using nf by (auto simp: node_fits_def dest: in_set_tlD)
  then have "node_fits E view T A i (n\<lparr>n_db := d, n_to_p2p := n_to_p2p n @ to_p2p o1, n_to_db := ?q\<rparr>)"
    using F nf by (auto simp: node_fits_def)
  then show ?thesis using st n unfolding net_fits_def net' by auto
qed

text \<open>In such a setting no message is too long, so the network only depends on its clients.\<close>

lemma fits_accepted:
  assumes st: "net_fits E view T A net" and fin: "finite_setting E T A" and cl: "client_ok E T ev"
  shows "net_accepts E ev net" and "e \<in> T \<Longrightarrow> spares E (e_sha E e) ev"
proof -
  have len: "length m < 2 ^ 64 \<and> Suc (length m) < 2 ^ 64" if "fits E T A m" for m
    using that fin by (simp add: fits_def finite_setting_def)
  have q: "length m < 2 ^ 64" if "nt_nodes net i = Some n" "hd_opt (n_to_db n) = Some m \<or> hd_opt (n_to_p2p n) = Some m"
    for i n m
    using st that len by (auto simp: net_fits_def node_fits_def hd_opt_Some)
  have w: "length m < 2 ^ 64" if "waiting net src i = Some m" for src i m
    using len [OF waiting_fits [OF st that]] by (cases m) simp_all
  show "net_accepts E ev net"
    using q w cl by (cases ev) (auto simp: net_accepts_def client_ok_def)
  show "spares E (e_sha E e) ev" if "e \<in> T"
    using cl that by (cases "(E, e_sha E e, ev)" rule: spares.cases) (auto simp: client_ok_def)
qed

end
