(* ===== verification/Discovery.thy ===== *)
theory Discovery
  imports Convergence
begin

text \<open>
  No address is lost either: what a daemon knows it is about to tell its peers, or the list of peers that
  tells them is on its way, or they know it. Hence where nothing is under way, the peers of a daemon
  know each other.
\<close>

section \<open>A turn of the p2p thread\<close>

lemma peer_msg_learnt:
  assumes "p2p_answer_p2p E reach i hashes (ident # peer_msg j ps) s = Inr (s', out)"
  shows "set (my_peers s') = set (my_peers s) \<union> (insert (own_addr j) (set ps) - {own_addr i})"
proof -
  have "peer_loop reach i (Suc (length ps)) (own_addr j # ps) s = Inr (s', out)"
    using assms by (auto simp: p2p_answer_p2p_def peer_msg_def msg_count_Inr bindr_Inr_conv stoul_to_string_conv)
  then show ?thesis
    using peer_loop_effect [of reach i "Suc (length ps)" "own_addr j # ps" s s' out] by (auto simp: set_learn)
qed

lemma p2p_turn_tells:
  assumes turn: "p2p_thread_turn E reach i (hashes, pm, dm) s = Inr (s', out)"
  shows "to_bcast_peers s \<Longrightarrow> a \<in> set (my_peers s) \<Longrightarrow> peer_msg i (my_peers s) \<in> set (to_peer a out)"
    and "to_bcast_peers s' \<or> my_peers s' = my_peers s"
    and "pm = Some (ident # peer_msg j ps) \<Longrightarrow> set ps - {own_addr i} \<subseteq> set (my_peers s')"
proof -
  from turn obtain s1 out1 s2 out2 out3 where t: "p2p_sends i hashes s = Inr (s1, out1)"
    "(case pm of None \<Rightarrow> Inr (s1, []) | Some m \<Rightarrow> p2p_answer_p2p E reach i hashes m s1) = Inr (s2, out2)"
    "(case dm of None \<Rightarrow> Inr (s2, []) | Some m \<Rightarrow> p2p_answer_db (e_dbg E) m s2) = Inr (s', out3)"
    "out = out1 @ out2 @ out3"
    by (cases rule: p2p_thread_turnE)
  note eq = p2p_sends_eq [OF t(1)]
  show "to_bcast_peers s \<Longrightarrow> a \<in> set (my_peers s) \<Longrightarrow> peer_msg i (my_peers s) \<in> set (to_peer a out)"
    by (auto simp: t(4) eq(1) to_append peer_sends_def to_peer_map)
  have 3: "my_peers s' = my_peers s2 \<and> to_bcast_peers s' = to_bcast_peers s2"
  proof (cases dm)
    case (Some m)
    then have "p2p_answer_db (e_dbg E) m s2 = Inr (s', out3)" using t(3) by simp
    then show ?thesis by (cases rule: p2p_answer_db_cases) simp_all
  qed (use t(3) in simp)
  have "to_bcast_peers s2 \<or> my_peers s2 = my_peers s1"
  proof (cases pm)
    case (Some m)
    then have "p2p_answer_p2p E reach i hashes m s1 = Inr (s2, out2)" using t(2) by simp
    from p2p_answer_p2p_told(2) [OF this] show ?thesis by blast
  qed (use t(2) in simp)
  with 3 eq(2) show "to_bcast_peers s' \<or> my_peers s' = my_peers s" by simp
  show "set ps - {own_addr i} \<subseteq> set (my_peers s')" if "pm = Some (ident # peer_msg j ps)"
    using t(2) that peer_msg_learnt [of E reach i hashes ident j ps s1 s2 out2] 3 by auto
qed

section \<open>The network\<close>

text \<open>The node m at port i, its peer n at port j, and the wire between them.\<close>

definition spread :: "int \<Rightarrow> 'db node \<Rightarrow> int \<Rightarrow> 'db node \<Rightarrow> message list \<Rightarrow> bool" where
  "spread i m j n ij \<longleftrightarrow>
     (knows m j \<longrightarrow> to_bcast_peers (n_p2p m) \<or>
        (\<forall>a\<in>set (my_peers (n_p2p m)) - {own_addr j}.
           a \<in> set (my_peers (n_p2p n)) \<or> (\<exists>ps. peer_msg i ps \<in> set ij \<and> a \<in> set ps)))"

definition all_spread :: "'db net \<Rightarrow> bool" where
  "all_spread net \<longleftrightarrow>
     (\<forall>i j m n. nt_nodes net i = Some m \<longrightarrow> nt_nodes net j = Some n \<longrightarrow>
        spread i m j n (nt_wire net i (own_addr j)))"

lemma sender_spreads:
  assumes turn: "p2p_thread_turn E reach i (hashes, pm, dm) (n_p2p m) = Inr (s', out)"
    and sp: "spread i m j n ij" and m': "n_p2p m' = s'"
  shows "spread i m' j n (ij @ to_peer (own_addr j) out)"
proof (cases "to_bcast_peers s'")
  case True
  then show ?thesis by (simp add: spread_def m')
next
  case False
  then have same: "my_peers s' = my_peers (n_p2p m)" using p2p_turn_tells(2) [OF turn] by blast
  show ?thesis
  proof (cases "to_bcast_peers (n_p2p m)")
    case True
    then have "knows m j \<Longrightarrow> peer_msg i (my_peers (n_p2p m)) \<in> set (to_peer (own_addr j) out)"
      using p2p_turn_tells(1) [OF turn] by blast
    then show ?thesis by (auto simp: spread_def m' same)
  next
    case False
    then show ?thesis using sp by (auto simp: spread_def m' same)
  qed
qed

lemma receiver_spreads:
  assumes turn: "p2p_thread_turn E reach j (hashes, pm, dm) (n_p2p n) = Inr (s', out)"
    and mono: "set (my_peers (n_p2p n)) \<subseteq> set (my_peers s')"
    and pm: "\<And>x. x \<in> set ij \<Longrightarrow> x \<in> set ij' \<or> pm = Some (own_addr i # x)"
    and sp: "spread i m j n ij" and n': "n_p2p n' = s'"
  shows "spread i m j n' ij'"
proof -
  have "a \<in> set (my_peers s') \<or> (\<exists>ps. peer_msg i ps \<in> set ij' \<and> a \<in> set ps)"
    if "a \<noteq> own_addr j" "peer_msg i ps \<in> set ij" "a \<in> set ps" for a ps
    using pm [OF that(2)] that p2p_turn_tells(3) [OF turn] by blast
  then show ?thesis using sp mono unfolding spread_def n' by blast
qed

lemma p2p_turn_spreads:
  assumes inv: "net_inv E rr view name net" and n: "nt_nodes net i = Some n"
    and turn: "p2p_turn_at E reach i src takes net n = Inr net'" and sp: "all_spread net"
  shows "all_spread net'"
proof -
  let ?pm = "waiting net src i" and ?dm = "if takes then hd_opt (n_to_p2p n) else None"
    and ?q = "if takes then tl (n_to_p2p n) else n_to_p2p n"
  from turn obtain s' out where
    t: "p2p_thread_turn E reach i (my_hashes (n_db n), ?pm, ?dm) (n_p2p n) = Inr (s', out)"
    and net': "net' = net\<lparr>nt_nodes := (nt_nodes net)(i \<mapsto>
         n\<lparr>n_p2p := s', n_to_db := n_to_db n @ to_db out, n_to_p2p := ?q\<rparr>),
       nt_wire := (taken net src i)(i := (\<lambda>a. taken net src i i a @ to_peer a out))\<rparr>"
    by (auto simp: p2p_turn_at_def bindr_Inr_conv)
  let ?n = "n\<lparr>n_p2p := s', n_to_db := n_to_db n @ to_db out, n_to_p2p := ?q\<rparr>"
  have ok: "p2p_inv i (n_p2p n)" "reqs_known (n_p2p n)"
    using net_invD(1) [OF inv n] by (simp_all add: node_ok_def)
  note mono = p2p_turn_wire(3) [OF ok net_takes_ok [OF inv n] t]
  have own: "own_addr i \<notin> set (my_peers s')"
    using p2p.step_inv [OF ok(1) t] by (simp add: p2p_inv_def)
  have pm: "x \<in> set (taken net src i j (own_addr i)) \<or> ?pm = Some (own_addr j # x)"
    if "x \<in> set (nt_wire net j (own_addr i))" for x j
    using that by (cases "nt_wire net j (own_addr i)") (auto simp: taken_def waiting_def hd_opt_def)
  have tk: "taken net src i j (own_addr k) = nt_wire net j (own_addr k)" if "k \<noteq> i" for j k
    using that by (simp add: taken_def)
  have old: "spread j m k n' (nt_wire net j (own_addr k))" if "nt_nodes net j = Some m" "nt_nodes net k = Some n'"
    for j k m n'
    using sp that by (simp add: all_spread_def)
  have n': "n_p2p ?n = s'" by simp
  show ?thesis
    unfolding all_spread_def net'
  proof (intro allI impI, goal_cases)
    case (1 j k m n')
    consider (both) "j = i" "k = i" | (send) "j = i" "k \<noteq> i" | (recv) "j \<noteq> i" "k = i" | (none) "j \<noteq> i" "k \<noteq> i"
      by blast
    then show ?case
    proof cases
      case both
      with 1 own show ?thesis by (auto simp: spread_def)
    next
      case send
      with 1 have "nt_nodes net k = Some n'" "m = ?n" by simp_all
      with sender_spreads [OF t old [OF n this(1)] n'] send show ?thesis by (simp add: tk)
    next
      case recv
      with 1 have "nt_nodes net j = Some m" "n' = ?n" by simp_all
      with receiver_spreads [OF t mono pm old [OF this(1) n] n'] recv show ?thesis by simp
    next
      case none
      with 1 old show ?thesis by (simp add: tk)
    qed
  qed
qed

lemma db_turn_spreads:
  assumes n: "nt_nodes net i = Some n" and turn: "db_turn_at E name i client takes net n = Inr (net', out)"
    and sp: "all_spread net"
  shows "all_spread net'"
proof -
  from turn obtain d q r where "net' = net\<lparr>nt_nodes := (nt_nodes net)(i \<mapsto> n\<lparr>n_db := d, n_to_p2p := q, n_to_db := r\<rparr>)\<rparr>"
    by (auto simp: db_turn_at_def bindr_Inr_conv)
  then show ?thesis using sp n by (auto simp: all_spread_def spread_def split: if_splits)
qed

lemma started_spread: "net_started E rr view reach name net \<Longrightarrow> all_spread net"
  using node_startedD(2) by (fastforce simp: net_started_def all_spread_def spread_def)

text \<open>Where nothing is under way, the peers of a daemon know each other.\<close>

lemma quiet_peers_known:
  assumes "all_spread net" and "net_quiet net"
    and "nt_nodes net i = Some m" and "nt_nodes net j = Some n" and "knows m j" and "knows m k" and "k \<noteq> j"
  shows "knows n k"
proof -
  have "node_quiet m" "nt_wire net i (own_addr j) = []" using assms(2-4) by (auto simp: net_quiet_def)
  moreover have "spread i m j n (nt_wire net i (own_addr j))" using assms(1,3,4) by (simp add: all_spread_def)
  ultimately show ?thesis using assms(5-7) by (auto simp: spread_def node_quiet_def)
qed

end
