(* ===== verification/Settling.thy ===== *)
theory Settling
  imports Bounds Discovery
begin

text \<open>
  The network comes to rest. Every turn makes the work that is left fall, or has nothing to do: the work
  counts the ads and the addresses that daemons do not know yet, and below these what is pending in
  flags, queues and on wires, where each message weighs more than the one that answers it.
\<close>

section \<open>Weights\<close>

definition msg_weight :: "nat \<Rightarrow> message \<Rightarrow> nat" where
  "msg_weight N m =
     (if hd m = ''NEW'' then 7 * N + 2 else if hd m = ''HASH'' then 7 else if hd m = ''REQ'' then 5
      else if hd m = ''GET'' then 4 else if hd m = ''PUT'' then 3 else if hd m = ''DOC'' then 2
      else if hd m = ''INS'' \<or> hd m = ''PEER'' then 1 else 0)"

definition msgs_weight :: "nat \<Rightarrow> message list \<Rightarrow> nat" where
  "msgs_weight N ms = (\<Sum>m\<leftarrow>ms. msg_weight N m)"

fun out_weight :: "nat \<Rightarrow> p2p_out list \<Rightarrow> nat" where
  "out_weight N [] = 0"
| "out_weight N (SendPeer a m # os) = msg_weight N m + out_weight N os"
| "out_weight N (_ # os) = out_weight N os"

definition state_weight :: "nat \<Rightarrow> p2p_state \<Rightarrow> nat" where
  "state_weight N s =
     (if to_bcast_peers s then N + 1 else 0) + (if to_bcast_hashes s then 7 * N + 1 else 0) +
     6 * length (db_requests s)"

text \<open>What is missing weighs more than the announcement of what arrives.\<close>

definition missing :: "nat \<Rightarrow> string set \<Rightarrow> string set \<Rightarrow> nat" where
  "missing N X Y = (8 * N + 3) * card (X - Y)"

definition calm :: "p2p_state \<Rightarrow> bool" where
  "calm s \<longleftrightarrow> \<not> to_bcast_peers s \<and> \<not> to_bcast_hashes s \<and> db_requests s = []"

lemma msg_weights [simp]:
  "msg_weight N (peer_msg i ps) = 1" "msg_weight N (hash_msg i hs) = 7" "msg_weight N (req_msg i hs) = 5"
  "msg_weight N (''PEER'' # m) = 1" "msg_weight N (''HASH'' # m) = 7" "msg_weight N (''REQ'' # m) = 5"
  "msg_weight N (''GET'' # m) = 4" "msg_weight N (''PUT'' # m) = 3" "msg_weight N (''DOC'' # m) = 2"
  "msg_weight N (''INS'' # m) = 1" "msg_weight N (''NEW'' # m) = 7 * N + 2"
  by (simp_all add: msg_weight_def)

lemma msgs_weight_simps [simp]:
  "msgs_weight N [] = 0" "msgs_weight N (m # ms) = msg_weight N m + msgs_weight N ms"
  "msgs_weight N (xs @ ys) = msgs_weight N xs + msgs_weight N ys"
  by (simp_all add: msgs_weight_def)

lemma out_weight_append [simp]: "out_weight N (xs @ ys) = out_weight N xs + out_weight N ys"
  by (induction N xs rule: out_weight.induct) auto

lemma out_weight_map: "out_weight N (map (\<lambda>x. SendPeer (f x) (g x)) xs) = (\<Sum>x\<leftarrow>xs. msg_weight N (g x))"
  by (induction xs) auto

lemma missing_mono: "Y \<subseteq> Y' \<Longrightarrow> finite X \<Longrightarrow> missing N X Y' \<le> missing N X Y"
  by (auto simp: missing_def intro: card_mono)

lemma missing_less:
  assumes "Y \<subseteq> Y'" and "x \<in> X" and "x \<in> Y'" and "x \<notin> Y" and "finite X"
  shows "missing N X Y' + (8 * N + 3) \<le> missing N X Y"
proof -
  have "card (X - Y') < card (X - Y)"
    by (rule psubset_card_mono) (use assms in auto)
  then have "(8 * N + 3) * (card (X - Y') + 1) \<le> (8 * N + 3) * card (X - Y)" by (intro mult_le_mono2) simp
  then show ?thesis by (simp only: missing_def distrib_left mult_1_right)
qed

section \<open>The p2p thread\<close>

lemma sum_list_const: "(\<Sum>x\<leftarrow>xs. c) = length xs * (c::nat)"
  by (induction xs) auto

lemma p2p_sends_weight:
  assumes inv: "p2p_inv i s" and "length (my_peers s) \<le> N" and sends: "p2p_sends i hashes s = Inr (s', out)"
  shows "state_weight N s' = 0" and "out_weight N out \<le> state_weight N s"
    and "calm s \<Longrightarrow> s' = s \<and> out = []" and "\<not> calm s \<Longrightarrow> out_weight N out < state_weight N s"
proof -
  note eq = p2p_sends_eq [OF sends]
  have rq: "to_send_db_requests s \<longleftrightarrow> db_requests s \<noteq> []" using inv by (simp add: p2p_inv_def)
  show "state_weight N s' = 0" using eq(3,4,6) rq by (simp add: state_weight_def)
  have w: "out_weight N out = (if to_bcast_peers s then length (my_peers s) else 0) +
      (if to_bcast_hashes s then 7 * length (my_peers s) else 0) + 5 * length (db_requests s)"
    using rq by (simp add: eq(1) sends_defs out_weight_map case_prod_unfold sum_list_const)
  then show "out_weight N out \<le> state_weight N s" using assms(2) by (auto simp: state_weight_def)
  show "out_weight N out < state_weight N s" if "\<not> calm s"
    using that assms(2) w by (cases "db_requests s") (auto simp: state_weight_def calm_def)
  show "s' = s \<and> out = []" if "calm s"
    using that sends rq
    by (simp add: calm_def p2p_sends_def p2p_bcast_peers_def p2p_bcast_hashes_def p2p_send_db_requests_def)
qed

lemma length_req_insert: "length (req_insert a h rs) = (if a \<in> fst ` set rs then length rs else Suc (length rs))"
  by (induction a h rs rule: req_insert.induct) auto

lemma fold_want_hash_length:
  "length (db_requests (fold (want_hash hashes a) hs s)) + (if a \<in> fst ` set (db_requests s) then 1 else 0)
     \<le> length (db_requests s) + 1"
proof (induction hs arbitrary: s)
  case (Cons h hs)
  have "a \<in> fst ` set (db_requests (want_hash hashes a h s))" if "h \<notin> set hashes"
    using that by (simp add: want_hash_def fst_req_insert)
  then show ?case using Cons [of "want_hash hashes a h s"]
    by (cases "h \<in> set hashes") (auto simp: want_hash_def length_req_insert split: if_splits)
qed simp

lemma p2p_answer_p2p_weight:
  assumes inv: "p2p_inv i s" and fin: "finite A" and A: "set (my_peers s') \<subseteq> A" and c: "wire_msg E j c"
    and op: "p2p_answer_p2p E reach i hashes (ident # c) s = Inr (s', out)"
  shows "missing N A (set (my_peers s')) + state_weight N s' + out_weight N out + msgs_weight N (to_db out)
    < missing N A (set (my_peers s)) + state_weight N s + msg_weight N c"
  using op
proof (cases rule: p2p_answer_p2p_cases)
  case (peer id' sz m num)
  note eff = peer_loop_effect [OF peer(3)]
  then have "\<forall>x\<in>set out. \<exists>b. x = Connect b" by blast
  then have out: "to_db out = []" "out_weight N out = 0" by (induction out) auto
  have my: "my_peers s' = my_peers s @ map (\<lambda>c. case c of Connect a \<Rightarrow> a) out" using eff by blast
  show ?thesis
  proof (cases out)
    case Nil
    then have "my_peers s' = my_peers s" using my by simp
    moreover have "state_weight N s' = state_weight N s" using eff Nil by (simp add: state_weight_def)
    ultimately show ?thesis using Nil peer(1) by simp
  next
    case (Cons x xs)
    then obtain b where b: "x = Connect b" using eff by auto
    then have "set (my_peers s) \<subseteq> set (my_peers s')" "b \<in> set (my_peers s')" using my Cons by auto
    moreover have "b \<notin> set (my_peers s)"
      using p2p_answer_p2p_inv [OF inv op] my Cons b by (auto simp: p2p_inv_def)
    ultimately have "missing N A (set (my_peers s')) + (8 * N + 3) \<le> missing N A (set (my_peers s))"
      using A fin by (intro missing_less [where x = b]) auto
    moreover have "state_weight N s' \<le> state_weight N s + 8 * N + 2" using eff by (simp add: state_weight_def)
    ultimately show ?thesis using out by simp
  qed
next
  case (hash id' addr sz m num)
  have "length (db_requests s') \<le> length (db_requests s) + 1"
    using fold_want_hash_length [of hashes addr "take num m" s] hash(4) by simp
  then show ?thesis using hash by (simp add: state_weight_def fold_want_hash_frame)
next
  case unknown
  have "msg_weight N c > 0" using c by (auto simp: wire_msg_def)
  with unknown show ?thesis by simp
qed simp_all

lemma p2p_answer_db_weight:
  assumes wf: "wf_from_db m" and op: "p2p_answer_db dbg m s = Inr (s', out)"
  shows "my_peers s' = my_peers s" and "to_db out = []"
    and "state_weight N s' + out_weight N out < state_weight N s + msg_weight N m"
proof -
  have "my_peers s' = my_peers s \<and> to_db out = [] \<and>
      state_weight N s' + out_weight N out < state_weight N s + msg_weight N m"
    using op
  proof (cases rule: p2p_answer_db_cases)
    case unknown
    have "msg_weight N m > 0" using wf by (auto simp: wf_from_db_def)
    with unknown show ?thesis by simp
  qed (simp_all add: state_weight_def)
  then show "my_peers s' = my_peers s" and "to_db out = []"
    and "state_weight N s' + out_weight N out < state_weight N s + msg_weight N m" by blast+
qed

text \<open>A turn of the thread: the work falls, or there was none.\<close>

lemma p2p_turn_weight:
  assumes inv: "p2p_inv i s" and fin: "finite A" and A: "set (my_peers s) \<subseteq> A" "set (my_peers s') \<subseteq> A"
    and pm: "\<And>m. pm = Some m \<Longrightarrow> \<exists>ident c. m = ident # c \<and> wire_msg E j c"
    and dm: "\<And>m. dm = Some m \<Longrightarrow> wf_from_db m"
    and turn: "p2p_thread_turn E reach i (hashes, pm, dm) s = Inr (s', out)"
  defines "N \<equiv> card A"
  defines "left \<equiv> missing N A (set (my_peers s)) + state_weight N s +
    (case pm of None \<Rightarrow> 0 | Some m \<Rightarrow> msg_weight N (tl m)) + (case dm of None \<Rightarrow> 0 | Some m \<Rightarrow> msg_weight N m)"
  shows "missing N A (set (my_peers s')) + state_weight N s' + out_weight N out + msgs_weight N (to_db out) < left \<or>
    calm s \<and> pm = None \<and> dm = None \<and> s' = s \<and> out = []"
proof -
  from turn obtain s1 out1 s2 out2 out3 where t: "p2p_sends i hashes s = Inr (s1, out1)"
    "(case pm of None \<Rightarrow> Inr (s1, []) | Some m \<Rightarrow> p2p_answer_p2p E reach i hashes m s1) = Inr (s2, out2)"
    "(case dm of None \<Rightarrow> Inr (s2, []) | Some m \<Rightarrow> p2p_answer_db (e_dbg E) m s2) = Inr (s', out3)"
    "out = out1 @ out2 @ out3"
    by (cases rule: p2p_thread_turnE)
  have len: "length (my_peers s) \<le> N"
    using distinct_length_le [OF _ A(1) fin] inv by (simp add: p2p_inv_def N_def)
  note 1 = p2p_sends_weight [OF inv len t(1)] and eq = p2p_sends_eq [OF t(1)]
  have inv1: "p2p_inv i s1" by (rule p2p_sends_inv [OF inv t(1)])
  have db1: "to_db out1 = []" by (simp add: eq(1) to_append sends_defs case_prod_unfold)
  define w2 where "w2 = missing N A (set (my_peers s2)) + state_weight N s2 + out_weight N out2 + msgs_weight N (to_db out2)"
  have 3: "my_peers s' = my_peers s2 \<and> to_db out3 = [] \<and>
      (if dm = None then s' = s2 \<and> out3 = []
       else state_weight N s' + out_weight N out3 < state_weight N s2 + msg_weight N (the dm))"
  proof (cases dm)
    case (Some m)
    then have "p2p_answer_db (e_dbg E) m s2 = Inr (s', out3)" using t(3) by simp
    from p2p_answer_db_weight [OF dm [OF Some] this] Some show ?thesis by simp
  qed (use t(3) in simp)
  have 2: "if pm = None then s2 = s1 \<and> out2 = []
      else w2 < missing N A (set (my_peers s)) + msg_weight N (tl (the pm))"
  proof (cases pm)
    case (Some m)
    then obtain ident c where c: "m = ident # c" "wire_msg E j c" using pm by blast
    have "set (my_peers s2) \<subseteq> A" using A(2) 3 by simp
    moreover have "p2p_answer_p2p E reach i hashes (ident # c) s1 = Inr (s2, out2)" using t(2) Some c(1) by simp
    ultimately show ?thesis
      using p2p_answer_p2p_weight [OF inv1 fin _ c(2), of s2 reach hashes ident out2 N] Some c(1) eq(2) 1(1)
      by (simp add: w2_def)
  qed (use t(2) in simp)
  show ?thesis
  proof (cases "calm s \<and> pm = None \<and> dm = None")
    case True
    with 1(3) 2 3 t(4) show ?thesis by simp
  next
    case False
    then show ?thesis
      using 1(1,2,4) 2 3 db1 eq(2) unfolding left_def w2_def t(4) to_append
      by (cases "calm s"; cases pm; cases dm) auto
  qed
qed

section \<open>The database thread\<close>

lemma db_turn_weight:
  assumes tr: "\<forall>t\<in>T. travels E t" and fin: "finite T" and nf: "no_faults E"
    and inv: "db_written_inv E rr view db_name s" and st: "db_fits view T s'"
    and pr: "\<And>m. pr = Some m \<Longrightarrow> fits E T A m \<and> wf_db m"
    and turn: "db_thread_turn E db_name (ps, None, pr) s = Inr (s', out)"
  defines "H \<equiv> e_sha E ` T"
  shows "missing N H (stored E view (ds_db s')) + msgs_weight N (to_p2p out)
      < missing N H (stored E view (ds_db s)) + (case pr of None \<Rightarrow> 0 | Some m \<Rightarrow> msg_weight N m) \<and> to_client out = [] \<or>
    pr = None \<and> s' = s \<and> out = []"
proof (cases pr)
  case None
  with turn show ?thesis by (simp add: db_thread_turn_def)
next
  case (Some m)
  then have op: "db_peer_op E db_name m s = Inr (s', out)"
    using turn by (auto simp: db_thread_turn_def bindr_Inr_conv)
  note D = db_written_invD [OF inv]
  from op show ?thesis
  proof (cases rule: db_peer_op_cases)
    case unknown
    have "msg_weight N m > 0" using pr [OF Some] by (auto simp: wf_db_def)
    with unknown Some show ?thesis by simp
  next
    case (get addr sz m' hs ds)
    with Some show ?thesis by simp
  next
    case (ins sz m' k ds n db')
    have ds: "set ds \<subseteq> T \<and> (\<forall>t\<in>set ds. e_sha E t \<notin> set (my_hashes s))"
      using pr [OF Some] ins(1) unfolding ins(3) by (auto simp: fold_keep_unknown dest: in_set_takeD)
    have put: "stored E view db' = stored E view (ds_db s) \<union> peer_digests E ds"
      using db_put_docs_stored [OF D(3,5) ins(5)] nf by simp
    obtain t where t: "t \<in> set ds" using ins(4) by (cases ds) auto
    then have "peer_entry E t = Some t" using ds tr by (auto simp: travels_def)
    then have "e_sha E t \<in> peer_digests E ds" using t by (auto simp: peer_digests_def)
    moreover have "e_sha E t \<notin> stored E view (ds_db s)" "e_sha E t \<in> H" using ds t D(7) by (auto simp: H_def)
    moreover have "finite H" using fin by (simp add: H_def)
    ultimately have "missing N H (stored E view db') + (8 * N + 3) \<le> missing N H (stored E view (ds_db s))"
      using put by (intro missing_less [where x = "e_sha E t"]) auto
    then show ?thesis using ins Some by simp
  qed
qed

section \<open>The network\<close>

definition node_weight ::
  "'db env \<Rightarrow> ('db \<Rightarrow> xview) \<Rightarrow> string set \<Rightarrow> string set \<Rightarrow> 'db node \<Rightarrow> nat" where
  "node_weight E view T A n =
     (let N = card A in
      missing N (e_sha E ` T) (stored E view (ds_db (n_db n))) + missing N A (set (my_peers (n_p2p n))) +
      state_weight N (n_p2p n) + msgs_weight N (n_to_db n) + msgs_weight N (n_to_p2p n))"

definition wires_weight :: "nat \<Rightarrow> int set \<Rightarrow> (int \<Rightarrow> string \<Rightarrow> message list) \<Rightarrow> nat" where
  "wires_weight N P w = (\<Sum>i\<in>P. \<Sum>j\<in>P. msgs_weight N (w i (own_addr j)))"

definition net_weight :: "'db env \<Rightarrow> ('db \<Rightarrow> xview) \<Rightarrow> string set \<Rightarrow> string set \<Rightarrow> 'db net \<Rightarrow> nat" where
  "net_weight E view T A net =
     (\<Sum>i\<in>dom (nt_nodes net). node_weight E view T A (the (nt_nodes net i))) +
     wires_weight (card A) (dom (nt_nodes net)) (nt_wire net)"

lemma sum_upd:
  assumes "finite P" and "i \<in> P"
  shows "(\<Sum>j\<in>P. f j) + g i = (\<Sum>j\<in>P. if j = i then g i else f j) + (f i :: nat)"
proof -
  have "(\<Sum>j\<in>P. f j) = f i + (\<Sum>j\<in>P - {i}. f j)" by (rule sum.remove [OF assms])
  moreover have "(\<Sum>j\<in>P. if j = i then g i else f j) = g i + (\<Sum>j\<in>P - {i}. if j = i then g i else f j)"
    by (simp add: sum.remove [OF assms])
  moreover have "(\<Sum>j\<in>P - {i}. if j = i then g i else f j) = (\<Sum>j\<in>P - {i}. f j)" by (rule sum.cong) auto
  ultimately show ?thesis by simp
qed

lemma to_peer_weight:
  assumes "finite P"
  shows "(\<Sum>j\<in>P. msgs_weight N (to_peer (own_addr j) out)) \<le> out_weight N out"
proof (induction N out rule: out_weight.induct)
  case (2 N a m os)
  have "(\<Sum>j\<in>P. if a = own_addr j then msg_weight N m else 0) \<le> msg_weight N m"
  proof (cases "\<exists>k\<in>P. a = own_addr k")
    case True
    then obtain k where k: "k \<in> P" "a = own_addr k" by blast
    then show ?thesis using assms by (simp add: sum.delta)
  next
    case False
    then have "(\<Sum>j\<in>P. if a = own_addr j then msg_weight N m else 0) = 0" by (intro sum.neutral) auto
    then show ?thesis by simp
  qed
  moreover have "(\<Sum>j\<in>P. msgs_weight N (to_peer (own_addr j) (SendPeer a m # os))) =
      (\<Sum>j\<in>P. (if a = own_addr j then msg_weight N m else 0) + msgs_weight N (to_peer (own_addr j) os))"
    by (rule sum.cong) auto
  ultimately show ?case using 2 by (simp add: sum.distrib)
qed simp_all

lemma wires_append:
  assumes "finite P" and "i \<in> P"
  shows "wires_weight N P (w(i := (\<lambda>a. w i a @ f a))) =
    wires_weight N P w + (\<Sum>j\<in>P. msgs_weight N (f (own_addr j)))"
proof -
  let ?row = "\<lambda>k. \<Sum>j\<in>P. msgs_weight N (w k (own_addr j))" and ?f = "\<Sum>j\<in>P. msgs_weight N (f (own_addr j))"
  have "wires_weight N P (w(i := (\<lambda>a. w i a @ f a))) = (\<Sum>k\<in>P. if k = i then ?row i + ?f else ?row k)"
    unfolding wires_weight_def by (rule sum.cong) (simp_all add: sum.distrib)
  moreover have "wires_weight N P w = (\<Sum>k\<in>P. ?row k)" by (simp add: wires_weight_def)
  ultimately show ?thesis using sum_upd [OF assms, of ?row "\<lambda>k. ?row i + ?f"] by simp
qed

lemma wires_taken:
  assumes "finite P" and i: "i \<in> P" and closed: "\<And>j a. j \<notin> P \<Longrightarrow> nt_wire net j a = []"
  shows "wires_weight N P (taken net src i) +
    (case waiting net src i of None \<Rightarrow> 0 | Some m \<Rightarrow> msg_weight N (tl m)) = wires_weight N P (nt_wire net)"
proof (cases "\<exists>j m ms. src = Some j \<and> nt_wire net j (own_addr i) = m # ms")
  case True
  then obtain j m ms where j: "src = Some j" "nt_wire net j (own_addr i) = m # ms" by blast
  then have jP: "j \<in> P" using closed by fastforce
  let ?w = "\<lambda>k l. msgs_weight N (nt_wire net k (own_addr l))"
  have "wires_weight N P (taken net src i) = (\<Sum>k\<in>P. if k = j then (\<Sum>l\<in>P. if l = i then msgs_weight N ms else ?w j l)
      else (\<Sum>l\<in>P. ?w k l))"
    unfolding wires_weight_def using j by (intro sum.cong refl) (auto simp: taken_def intro!: sum.cong)
  moreover have "wires_weight N P (nt_wire net) = (\<Sum>k\<in>P. \<Sum>l\<in>P. ?w k l)" by (simp add: wires_weight_def)
  moreover have "?w j i = msg_weight N m + msgs_weight N ms" using j by simp
  moreover have "waiting net src i = Some (own_addr j # m)" using j by (simp add: waiting_def hd_opt_def)
  moreover note sum_upd [OF assms(1) jP, of "\<lambda>k. \<Sum>l\<in>P. ?w k l" "\<lambda>k. \<Sum>l\<in>P. if l = i then msgs_weight N ms else ?w j l"]
    and sum_upd [OF assms(1) i, of "?w j" "\<lambda>l. msgs_weight N ms"]
  ultimately show ?thesis by simp
next
  case False
  then have "waiting net src i = None"
    by (auto simp: waiting_def hd_opt_def split: option.split list.split)
  moreover have "taken net src i = nt_wire net"
  proof (intro ext)
    fix k a
    show "taken net src i k a = nt_wire net k a"
      using False by (cases "nt_wire net k a") (auto simp: taken_def)
  qed
  ultimately show ?thesis by simp
qed

lemma nodes_finite:
  assumes "net_fits E view T A net" and "finite A"
  shows "finite (dom (nt_nodes net))"
proof -
  have "own_addr ` dom (nt_nodes net) \<subseteq> A"
    using assms(1) by (auto simp: net_fits_def node_fits_def p2p_fits_def)
  then have "finite (own_addr ` dom (nt_nodes net))" using assms(2) by (rule finite_subset)
  then show ?thesis by (rule finite_imageD) (simp add: inj_on_def)
qed

lemma net_p2p_turn_weight:
  assumes inv: "net_inv E rr view name net" and st: "net_fits E view T A net" and fin: "finite_setting E T A"
    and n: "nt_nodes net i = Some n" and turn: "p2p_turn_at E reach i src takes net n = Inr net'"
  shows "net_weight E view T A net' < net_weight E view T A net \<or>
    net' = net \<and> calm (n_p2p n) \<and> waiting net src i = None \<and> (takes \<longrightarrow> n_to_p2p n = [])"
proof -
  let ?dm = "if takes then hd_opt (n_to_p2p n) else None" and ?q = "if takes then tl (n_to_p2p n) else n_to_p2p n"
    and ?P = "dom (nt_nodes net)" and ?N = "card A"
  from turn obtain s' out where
    t: "p2p_thread_turn E reach i (my_hashes (n_db n), waiting net src i, ?dm) (n_p2p n) = Inr (s', out)"
    and net': "net' = net\<lparr>nt_nodes := (nt_nodes net)(i \<mapsto>
         n\<lparr>n_p2p := s', n_to_db := n_to_db n @ to_db out, n_to_p2p := ?q\<rparr>),
       nt_wire := (taken net src i)(i := (\<lambda>a. taken net src i i a @ to_peer a out))\<rparr>"
    by (auto simp: p2p_turn_at_def bindr_Inr_conv)
  let ?n = "n\<lparr>n_p2p := s', n_to_db := n_to_db n @ to_db out, n_to_p2p := ?q\<rparr>"
  have f: "finite A" using fin by (simp add: finite_setting_def)
  have P: "finite ?P" "i \<in> ?P" using nodes_finite [OF st f] n by auto
  have ok: "node_ok E rr view (name i) i n" by (rule net_invD(1) [OF inv n])
  have p: "p2p_inv i (n_p2p n)" using ok by (simp add: node_ok_def)
  have "node_fits E view T A i n" using st n by (simp add: net_fits_def)
  moreover have "nt_nodes net' i = Some ?n" by (simp add: net')
  then have "node_fits E view T A i ?n"
    using net_p2p_turn_fits [OF inv st fin n turn] by (simp only: net_fits_def)
  ultimately have A: "set (my_peers (n_p2p n)) \<subseteq> A" "set (my_peers s') \<subseteq> A"
    by (simp_all add: node_fits_def p2p_fits_def)
  let ?j = "case src of None \<Rightarrow> i | Some j \<Rightarrow> j"
  note tk = net_takes_ok [OF inv n, of src takes]
  have pm: "\<exists>ident c. m = ident # c \<and> wire_msg E ?j c" if "waiting net src i = Some m" for m
    using tk that by (auto simp: takes_ok_def)
  have dm: "wf_from_db m" if "?dm = Some m" for m using tk that by (auto simp: takes_ok_def p2p_queue_ok_def)
  have q: "msgs_weight ?N ?q + (case ?dm of None \<Rightarrow> 0 | Some m \<Rightarrow> msg_weight ?N m) = msgs_weight ?N (n_to_p2p n)"
    by (cases "n_to_p2p n") (auto simp: hd_opt_def)
  have w: "wires_weight ?N ?P (nt_wire net') +
      (case waiting net src i of None \<Rightarrow> 0 | Some m \<Rightarrow> msg_weight ?N (tl m)) \<le>
      wires_weight ?N ?P (nt_wire net) + out_weight ?N out"
  proof -
    have "wires_weight ?N ?P (taken net src i) +
        (case waiting net src i of None \<Rightarrow> 0 | Some m \<Rightarrow> msg_weight ?N (tl m)) = wires_weight ?N ?P (nt_wire net)"
      by (rule wires_taken [OF P]) (use st in \<open>auto simp: net_fits_def\<close>)
    then show ?thesis using to_peer_weight [OF P(1), of ?N out] wires_append [OF P, of ?N "taken net src i" "\<lambda>a. to_peer a out"]
      by (simp add: net')
  qed
  have nodes: "(\<Sum>k\<in>?P. node_weight E view T A (the (nt_nodes net' k))) + node_weight E view T A n =
      (\<Sum>k\<in>?P. node_weight E view T A (the (nt_nodes net k))) + node_weight E view T A ?n"
  proof -
    have "(\<Sum>k\<in>?P. node_weight E view T A (the (nt_nodes net' k))) =
        (\<Sum>k\<in>?P. if k = i then node_weight E view T A ?n else node_weight E view T A (the (nt_nodes net k)))"
      by (rule sum.cong) (simp_all add: net')
    then show ?thesis
      using sum_upd [OF P, of "\<lambda>k. node_weight E view T A (the (nt_nodes net k))" "\<lambda>_. node_weight E view T A ?n"] n
      by simp
  qed
  have dom: "dom (nt_nodes net') = ?P" using n by (auto simp: net')
  from p2p_turn_weight [OF p f A pm dm t] show ?thesis
  proof
    assume "missing ?N A (set (my_peers s')) + state_weight ?N s' + out_weight ?N out + msgs_weight ?N (to_db out)
      < missing ?N A (set (my_peers (n_p2p n))) + state_weight ?N (n_p2p n) +
        (case waiting net src i of None \<Rightarrow> 0 | Some m \<Rightarrow> msg_weight ?N (tl m)) +
        (case ?dm of None \<Rightarrow> 0 | Some m \<Rightarrow> msg_weight ?N m)"
    then have "net_weight E view T A net' < net_weight E view T A net"
      using q w nodes by (simp add: net_weight_def dom) (simp add: node_weight_def Let_def)
    then show ?thesis ..
  next
    assume r: "calm (n_p2p n) \<and> waiting net src i = None \<and> ?dm = None \<and> s' = n_p2p n \<and> out = []"
    then have "?q = n_to_p2p n" "takes \<longrightarrow> n_to_p2p n = []" by (cases "n_to_p2p n"; simp add: hd_opt_def split: if_splits)+
    moreover have "taken net src i = nt_wire net"
      using r by (intro ext) (auto simp: taken_def waiting_def hd_opt_def split: option.splits list.splits)
    ultimately have "net' = net" using r n by (simp add: net' fun_upd_idem)
    then show ?thesis using r \<open>takes \<longrightarrow> n_to_p2p n = []\<close> by blast
  qed
qed

lemma net_db_turn_weight:
  assumes inv: "net_inv E rr view name net" and st: "net_fits E view T A net" and fin: "finite_setting E T A"
    and nf: "no_faults E" and n: "nt_nodes net i = Some n"
    and turn: "db_turn_at E name i None takes net n = Inr (net', out)"
  shows "net_weight E view T A net' < net_weight E view T A net \<or> net' = net \<and> (takes \<longrightarrow> n_to_db n = [])"
    and "out = []"
proof -
  let ?pr = "if takes then hd_opt (n_to_db n) else None" and ?q = "if takes then tl (n_to_db n) else n_to_db n"
    and ?P = "dom (nt_nodes net)" and ?N = "card A"
  from turn obtain d o1 where
    t: "db_thread_turn E (name i) (my_peers (n_p2p n), None, ?pr) (n_db n) = Inr (d, o1)"
    and net': "net' = net\<lparr>nt_nodes := (nt_nodes net)(i \<mapsto>
         n\<lparr>n_db := d, n_to_p2p := n_to_p2p n @ to_p2p o1, n_to_db := ?q\<rparr>)\<rparr>"
    and out: "out = to_client o1"
    by (auto simp: db_turn_at_def bindr_Inr_conv)
  let ?n = "n\<lparr>n_db := d, n_to_p2p := n_to_p2p n @ to_p2p o1, n_to_db := ?q\<rparr>"
  have f: "finite A" "finite T" "\<forall>t\<in>T. travels E t" using fin by (simp_all add: finite_setting_def)
  have P: "finite ?P" "i \<in> ?P" using nodes_finite [OF st f(1)] n by auto
  have ok: "node_ok E rr view (name i) i n" by (rule net_invD(1) [OF inv n])
  then have w: "db_written_inv E rr view (name i) (n_db n)" by (simp add: node_ok_def)
  have "client_ok E T (DbTurn i None takes)" by (simp add: client_ok_def)
  note st' = net_db_turn_fits [OF inv st fin this n turn]
  have "nt_nodes net' i = Some ?n" by (simp add: net')
  then have "node_fits E view T A i ?n" using st' by (simp only: net_fits_def)
  then have d: "db_fits view T d" by (simp add: node_fits_def)
  have "node_fits E view T A i n" using st n by (simp add: net_fits_def)
  then have pr: "fits E T A m \<and> wf_db m" if "?pr = Some m" for m
    using ok that by (auto simp: node_fits_def node_ok_def db_queue_ok_def hd_opt_Some split: if_splits)
  have q: "msgs_weight ?N ?q + (case ?pr of None \<Rightarrow> 0 | Some m \<Rightarrow> msg_weight ?N m) = msgs_weight ?N (n_to_db n)"
    by (cases "n_to_db n") (auto simp: hd_opt_def)
  have nodes: "(\<Sum>k\<in>?P. node_weight E view T A (the (nt_nodes net' k))) + node_weight E view T A n =
      (\<Sum>k\<in>?P. node_weight E view T A (the (nt_nodes net k))) + node_weight E view T A ?n"
  proof -
    have "(\<Sum>k\<in>?P. node_weight E view T A (the (nt_nodes net' k))) =
        (\<Sum>k\<in>?P. if k = i then node_weight E view T A ?n else node_weight E view T A (the (nt_nodes net k)))"
      by (rule sum.cong) (simp_all add: net')
    then show ?thesis
      using sum_upd [OF P, of "\<lambda>k. node_weight E view T A (the (nt_nodes net k))" "\<lambda>_. node_weight E view T A ?n"] n
      by simp
  qed
  have dom: "dom (nt_nodes net') = ?P" using n by (auto simp: net')
  have wire: "nt_wire net' = nt_wire net" by (simp add: net')
  note turn_weight = db_turn_weight [OF f(3,2) nf w d pr t, of ?N]
  then show "out = []" by (auto simp: out)
  from turn_weight show "net_weight E view T A net' < net_weight E view T A net \<or>
      net' = net \<and> (takes \<longrightarrow> n_to_db n = [])"
  proof
    assume "missing ?N (e_sha E ` T) (stored E view (ds_db d)) + msgs_weight ?N (to_p2p o1)
      < missing ?N (e_sha E ` T) (stored E view (ds_db (n_db n))) +
        (case ?pr of None \<Rightarrow> 0 | Some m \<Rightarrow> msg_weight ?N m) \<and> to_client o1 = []"
    then have "net_weight E view T A net' < net_weight E view T A net"
      using q nodes by (simp add: net_weight_def dom wire) (simp add: node_weight_def Let_def)
    then show ?thesis ..
  next
    assume r: "?pr = None \<and> d = n_db n \<and> o1 = []"
    then have "?q = n_to_db n" "takes \<longrightarrow> n_to_db n = []" by (cases "n_to_db n"; simp add: hd_opt_def split: if_splits)+
    then show ?thesis using r n by (simp add: net' fun_upd_idem)
  qed
qed

section \<open>Without clients the network comes to rest\<close>

text \<open>Turns without a request of a client, and when such a turn has nothing to do.\<close>

fun clientless :: "net_event \<Rightarrow> bool" where
  "clientless (P2pTurn i src takes) \<longleftrightarrow> True"
| "clientless (DbTurn i client takes) \<longleftrightarrow> client = None"

fun at_rest :: "net_event \<Rightarrow> 'db net \<Rightarrow> bool" where
  "at_rest (P2pTurn i src takes) net \<longleftrightarrow>
     (\<forall>n. nt_nodes net i = Some n \<longrightarrow>
        calm (n_p2p n) \<and> waiting net src i = None \<and> (takes \<longrightarrow> n_to_p2p n = []))"
| "at_rest (DbTurn i client takes) net \<longleftrightarrow>
     (\<forall>n. nt_nodes net i = Some n \<longrightarrow> takes \<longrightarrow> n_to_db n = [])"

definition good_net ::
  "'db env \<Rightarrow> ('db \<Rightarrow> xview) \<Rightarrow> (string \<Rightarrow> bool) \<Rightarrow> string set \<Rightarrow> string set \<Rightarrow> 'db net \<Rightarrow> bool" where
  "good_net E view reach T A net \<longleftrightarrow>
     sound_setting E reach \<and> finite_setting E T A \<and> net_fits E view T A net \<and>
     all_spread net \<and> (\<forall>e\<in>T. none_lost E view e net)"

text \<open>Daemons keep their peers and, unless a client removes ads, their ads.\<close>

definition grown :: "'db env \<Rightarrow> ('db \<Rightarrow> xview) \<Rightarrow> 'db net \<Rightarrow> 'db net \<Rightarrow> bool" where
  "grown E view net net' \<longleftrightarrow>
     dom (nt_nodes net') = dom (nt_nodes net) \<and>
     (\<forall>i m n. nt_nodes net i = Some m \<longrightarrow> nt_nodes net' i = Some n \<longrightarrow>
        set (my_peers (n_p2p m)) \<subseteq> set (my_peers (n_p2p n)) \<and>
        stored E view (ds_db (n_db m)) \<subseteq> stored E view (ds_db (n_db n)))"

lemma grown_refl: "grown E view net net"
  by (auto simp: grown_def)

lemma grown_trans:
  assumes "grown E view net net1" and "grown E view net1 net2"
  shows "grown E view net net2"
  unfolding grown_def
proof (intro conjI allI impI, goal_cases)
  case 1
  with assms show ?case by (simp add: grown_def)
next
  case (2 i m n)
  then obtain n1 where n1: "nt_nodes net1 i = Some n1" using assms(1) unfolding grown_def by blast
  with 2 have "set (my_peers (n_p2p m)) \<subseteq> set (my_peers (n_p2p n1))" "set (my_peers (n_p2p n1)) \<subseteq> set (my_peers (n_p2p n))"
    using assms by (simp_all add: grown_def)
  then show ?case by (rule subset_trans)
next
  case (3 i m n)
  then obtain n1 where n1: "nt_nodes net1 i = Some n1" using assms(1) unfolding grown_def by blast
  with 3 have "stored E view (ds_db (n_db m)) \<subseteq> stored E view (ds_db (n_db n1))"
    "stored E view (ds_db (n_db n1)) \<subseteq> stored E view (ds_db (n_db n))"
    using assms by (simp_all add: grown_def)
  then show ?case by (rule subset_trans)
qed

lemma good_net_turn:
  assumes inv: "net_inv E rr view name net" and good: "good_net E view reach T A net" and cl: "client_ok E T ev"
  shows "\<exists>net' out. net_turn E reach name ev net = Inr (net', out) \<and> good_net E view reach T A net' \<and>
    grown E view net net'"
proof -
  have st: "net_fits E view T A net" "finite_setting E T A" "sound_setting E reach"
    using good by (simp_all add: good_net_def)
  note acc = fits_accepted [OF st(1,2) cl]
  obtain net' out where s: "net_turn E reach name ev net = Inr (net', out)"
    using net_live [OF inv st(3) acc(1)] by blast
  have nl: "none_lost E view e net'" if e: "e \<in> T" for e
    using conv.live [OF inv, of reach e ev] st(2,3) good acc(1) acc(2) [OF e] e s
    by (auto simp: good_net_def finite_setting_def)
  have spread: "all_spread net'"
    using s p2p_turn_spreads [OF inv] db_turn_spreads good unfolding good_net_def
    by (cases rule: net_turn_cases) blast+
  have fits: "net_fits E view T A net'"
    using s net_p2p_turn_fits [OF inv st(1,2)] net_db_turn_fits [OF inv st(1,2)] cl st(1)
    by (cases ev) (fastforce simp: net_turn_def bindr_Inr_conv split: option.splits)+
  have "grown E view net net'"
  proof (cases ev)
    case (P2pTurn i src takes)
    show ?thesis
    proof (cases "nt_nodes net i")
      case None
      with s P2pTurn show ?thesis by (simp add: net_turn_def grown_refl)
    next
      case (Some n)
      with s P2pTurn have "p2p_turn_at E reach i src takes net n = Inr net'" by (auto simp: net_turn_def)
      then obtain s' o1 q where
        t: "p2p_thread_turn E reach i (my_hashes (n_db n), waiting net src i, if takes then hd_opt (n_to_p2p n) else None)
              (n_p2p n) = Inr (s', o1)"
        and net': "nt_nodes net' = (nt_nodes net)(i \<mapsto> n\<lparr>n_p2p := s', n_to_db := n_to_db n @ to_db o1, n_to_p2p := q\<rparr>)"
        by (auto simp: p2p_turn_at_def bindr_Inr_conv)
      have "p2p_inv i (n_p2p n)" "reqs_known (n_p2p n)"
        using net_invD(1) [OF inv Some] by (simp_all add: node_ok_def)
      from p2p_turn_wire(3) [OF this net_takes_ok [OF inv Some] t] Some show ?thesis
        by (auto simp: grown_def net')
    qed
  next
    case (DbTurn i client takes)
    show ?thesis
    proof (cases "nt_nodes net i")
      case None
      with s DbTurn show ?thesis by (simp add: net_turn_def grown_refl)
    next
      case (Some n)
      with s DbTurn have "db_turn_at E name i client takes net n = Inr (net', out)" by (simp add: net_turn_def)
      then obtain d o1 q where
        t: "db_thread_turn E (name i) (my_peers (n_p2p n), client, if takes then hd_opt (n_to_db n) else None)
              (n_db n) = Inr (d, o1)"
        and net': "nt_nodes net' = (nt_nodes net)(i \<mapsto> n\<lparr>n_db := d, n_to_p2p := n_to_p2p n @ to_p2p o1, n_to_db := q\<rparr>)"
        by (auto simp: db_turn_at_def bindr_Inr_conv)
      have ok: "node_ok E rr view (name i) i n" by (rule net_invD(1) [OF inv Some])
      then have w: "db_written_inv E rr view (name i) (n_db n)" by (simp add: node_ok_def)
      have pr: "length x < 2 ^ 64 \<and> wf_db x" if "(if takes then hd_opt (n_to_db n) else None) = Some x" for x
        using that acc(1) Some ok DbTurn
        by (auto simp: net_accepts_def node_ok_def db_queue_ok_def hd_opt_Some split: if_splits)
      have "h \<in> stored E view (ds_db d)" if h: "h \<in> stored E view (ds_db (n_db n))" for h
      proof -
        have "entries (view (ds_db (n_db n))) \<subseteq> T" using st(1) Some by (auto simp: net_fits_def node_fits_def db_fits_def)
        then obtain e where e: "h = e_sha E e" "e \<in> T" using h by (auto simp: stored_def)
        have "travels E e" using st(2) e(2) by (simp add: finite_setting_def)
        moreover have "\<not> names_hash E (e_sha E e) x" if "client = Some x" for x
          using acc(2) [OF e(2)] that DbTurn by simp
        ultimately show ?thesis
          using db_turn_hands_on(1) [OF w _ _ _ pr t] st(3) h e(1) by (simp add: sound_setting_def)
      qed
      then show ?thesis using Some by (auto simp: grown_def net')
    qed
  qed
  with s st fits spread nl show ?thesis by (auto simp: good_net_def)
qed

interpretation bounded: live_machine "net_turn E reach name" "net_inv E rr view name" "\<lambda>m. length m = 1"
    "\<lambda>net. good_net E view reach T A net \<and> grown E view net0 net" "\<lambda>ev _. client_ok E T ev"
  for E reach name rr view T A net0
proof (unfold_locales, goal_cases)
  case (1 net ev)
  then show ?case using good_net_turn [OF 1(1)] grown_trans by blast
qed

interpretation settling: settling_machine "net_turn E reach name" "net_inv E rr view name" "\<lambda>m. length m = 1"
    "\<lambda>net. good_net E view reach T A net \<and> grown E view net0 net" "\<lambda>ev _. clientless ev"
    "net_weight E view T A" at_rest
  for E reach name rr view T A net0
proof (unfold_locales, goal_cases)
  case (1 net ev)
  have "client_ok E T ev" using 1(3) by (cases ev) (auto simp: client_ok_def)
  with 1 show ?case using good_net_turn [OF 1(1)] grown_trans by blast
next
  case (2 net ev net' out)
  have st: "net_fits E view T A net" "finite_setting E T A" "no_faults E"
    using 2(2) by (simp_all add: good_net_def sound_setting_def)
  show ?case
  proof (cases ev)
    case (P2pTurn i src takes)
    show ?thesis
    proof (cases "nt_nodes net i")
      case (Some n)
      with P2pTurn 2(4) have "p2p_turn_at E reach i src takes net n = Inr net'" by (auto simp: net_turn_def)
      from net_p2p_turn_weight [OF 2(1) st(1,2) Some this] P2pTurn Some show ?thesis by simp
    qed (use P2pTurn 2(4) in \<open>simp add: net_turn_def\<close>)
  next
    case (DbTurn i client takes)
    show ?thesis
    proof (cases "nt_nodes net i")
      case (Some n)
      with DbTurn 2(3,4) have "db_turn_at E name i None takes net n = Inr (net', out)" by (simp add: net_turn_def)
      from net_db_turn_weight(1) [OF 2(1) st Some this] DbTurn Some show ?thesis by simp
    qed (use DbTurn 2(4) in \<open>simp add: net_turn_def\<close>)
  qed
qed

section \<open>At rest, peers agree\<close>

text \<open>
  A fair schedule of turns without clients: every node's database thread, and its p2p thread for each
  sender, takes infinitely many turns in which it takes what is there.
\<close>

definition fair :: "int set \<Rightarrow> (nat \<Rightarrow> net_event) \<Rightarrow> bool" where
  "fair P f \<longleftrightarrow>
     (\<forall>k. clientless (f k)) \<and>
     (\<forall>i\<in>P. \<forall>k. (\<exists>k'\<ge>k. f k' = DbTurn i None True) \<and> (\<forall>j\<in>P. \<exists>k'\<ge>k. f k' = P2pTurn i (Some j) True))"

definition node_turns :: "int set \<Rightarrow> net_event set" where
  "node_turns P = {DbTurn i None True |i. i \<in> P} \<union> {P2pTurn i (Some j) True |i j. i \<in> P \<and> j \<in> P}"

lemma fair_cycle:
  assumes "node_turns P \<subseteq> set evs" and "\<forall>ev\<in>set evs. clientless ev" and "evs \<noteq> []"
  shows "fair P (\<lambda>k. evs ! (k mod length evs))"
proof -
  have "\<exists>k'\<ge>k. evs ! (k' mod length evs) = ev" if "ev \<in> node_turns P" for ev k
  proof -
    have "ev \<in> set evs" using assms(1) that by blast
    then obtain i where i: "i < length evs" "evs ! i = ev" by (auto simp: in_set_conv_nth)
    have "k \<le> k * length evs + i" using assms(3) by (cases evs) simp_all
    moreover have "(k * length evs + i) mod length evs = i" using i(1) by simp
    ultimately show ?thesis using i(2) by metis
  qed
  moreover have "clientless (evs ! (k mod length evs))" for k using assms(2,3) by simp
  ultimately show ?thesis by (auto simp: fair_def node_turns_def)
qed

text \<open>Daemons that are connected, directly or through others, in whatever direction they know each other.\<close>

definition links :: "'db net \<Rightarrow> (int \<times> int) set" where
  "links net = {(i, j). \<exists>m n. nt_nodes net i = Some m \<and> nt_nodes net j = Some n \<and> knows m j}"

definition joined :: "'db net \<Rightarrow> (int \<times> int) set" where
  "joined net = (links net \<union> (links net)\<inverse>)\<^sup>*"

text \<open>Nothing is under way, and daemons that were connected know each other and store the same ads.\<close>

definition agreed :: "'db env \<Rightarrow> ('db \<Rightarrow> xview) \<Rightarrow> 'db net \<Rightarrow> 'db net \<Rightarrow> bool" where
  "agreed E view net net' \<longleftrightarrow>
     net_quiet net' \<and>
     (\<forall>i j m n. (i, j) \<in> joined net \<longrightarrow> nt_nodes net' i = Some m \<longrightarrow> nt_nodes net' j = Some n \<longrightarrow>
        (i \<noteq> j \<longrightarrow> knows m j) \<and> stored E view (ds_db (n_db m)) = stored E view (ds_db (n_db n)))"

lemma rest_quiet:
  assumes "\<And>ev. ev \<in> node_turns (dom (nt_nodes net)) \<Longrightarrow> at_rest ev net"
  shows "net_quiet net"
proof -
  have p: "calm (n_p2p n) \<and> waiting net (Some j) i = None \<and> n_to_p2p n = [] \<and> n_to_db n = []"
    if "nt_nodes net i = Some n" "nt_nodes net j = Some m" for i j m n
    using assms [of "P2pTurn i (Some j) True"] assms [of "DbTurn i None True"] that
    by (auto simp: node_turns_def)
  show ?thesis
    unfolding net_quiet_def
  proof (intro conjI allI impI, goal_cases)
    case (1 i n)
    with p show ?case by (simp add: node_quiet_def calm_def)
  next
    case (2 i j m n)
    with p have "waiting net (Some i) j = None" by blast
    then show ?case by (cases "nt_wire net i (own_addr j)") (simp_all add: waiting_def hd_opt_def)
  qed
qed

lemma links_grown: "grown E view net net' \<Longrightarrow> links net \<subseteq> links net'"
  unfolding grown_def links_def by (fastforce simp: dom_def set_eq_iff)

lemma quiet_agreed:
  assumes inv: "net_inv E rr view name net'" and good: "good_net E view reach T A net'" and q: "net_quiet net'"
    and gr: "grown E view net net'"
  shows "agreed E view net net'"
proof -
  have sym: "knows n i" if "nt_nodes net' i = Some m" "nt_nodes net' j = Some n" "knows m j" for i j m n
    using net_invD(4) [OF inv that(1,2)] that q
    by (auto simp: net_quiet_def node_quiet_def told_ok_def ends_known_def)
  have trans: "knows n k" if "nt_nodes net' i = Some m" "nt_nodes net' j = Some n" "knows m j" "knows m k" "k \<noteq> j"
    for i j k m n
    using quiet_peers_known [OF _ q that] good by (simp add: good_net_def)
  have sub: "stored E view (ds_db (n_db m)) \<subseteq> stored E view (ds_db (n_db n))"
    if nodes: "nt_nodes net' i = Some m" "nt_nodes net' j = Some n" and k: "knows m j" for i j m n
  proof
    fix h assume h: "h \<in> stored E view (ds_db (n_db m))"
    have "entries (view (ds_db (n_db m))) \<subseteq> T"
      using good nodes(1) by (auto simp: good_net_def net_fits_def node_fits_def db_fits_def)
    then obtain e where e: "h = e_sha E e" "e \<in> T" using h by (auto simp: stored_def)
    then have "none_lost E view e net'" using good by (simp add: good_net_def)
    from quiet_peers_agree(2) [OF inv this q nodes k] h e(1)
    show "h \<in> stored E view (ds_db (n_db n))" by (simp add: holds_def)
  qed
  have known: "i = j \<or> knows m j" if "(i, j) \<in> joined net" "nt_nodes net' i = Some m" for i j m
    using that(1) unfolding joined_def
  proof (induction rule: rtrancl_induct)
    case (step j k)
    then have "(j, k) \<in> links net' \<or> (k, j) \<in> links net'" using links_grown [OF gr] by blast
    then obtain n n' where n: "nt_nodes net' j = Some n" "nt_nodes net' k = Some n'" "knows n k"
    proof
      assume "(j, k) \<in> links net'"
      then show thesis using that unfolding links_def by blast
    next
      assume "(k, j) \<in> links net'"
      then obtain m m' where "nt_nodes net' k = Some m" "nt_nodes net' j = Some m'" "knows m j"
        unfolding links_def by blast
      with sym [OF this] that show thesis by blast
    qed
    show ?case
    proof (cases "i = j \<or> k = i")
      case True
      then show ?thesis using n that(2) by auto
    next
      case False
      then have "knows m j" using step.IH by simp
      then have "knows n i" using sym [OF that(2) n(1)] by simp
      then show ?thesis using trans [OF n(1) that(2) _ n(3)] False by simp
    qed
  qed simp
  have same: "stored E view (ds_db (n_db m)) = stored E view (ds_db (n_db n))"
    if "(i, j) \<in> joined net" "nt_nodes net' i = Some m" "nt_nodes net' j = Some n" for i j m n
  proof (cases "i = j")
    case False
    then have k: "knows m j" using known [OF that(1,2)] by simp
    show ?thesis by (rule equalityI [OF sub [OF that(2,3) k] sub [OF that(3,2) sym [OF that(2,3) k]]])
  qed (use that in simp)
  show ?thesis unfolding agreed_def using q known same by blast
qed

text \<open>From a start in which all ads and addresses are in the given sets.\<close>

lemma started_good:
  assumes start: "net_started E rr view reach name net" and snd: "sound_setting E reach"
    and fin: "finite_setting E T A"
    and sets: "\<forall>i n. nt_nodes net i = Some n \<longrightarrow> own_addr i \<in> A \<and> set (my_peers (n_p2p n)) \<subseteq> A \<and>
      entries (view (ds_db (n_db n))) \<subseteq> T"
  shows "good_net E view reach T A net"
proof -
  have "node_fits E view T A i n" if n: "nt_nodes net i = Some n" for i n
  proof -
    have "node_started E rr view reach (name i) i n" using start n by (simp add: net_started_def)
    then obtain p0 peers db out where "p2p_thread_init reach p0 i peers = Inr (n_p2p n, out)"
      "n_db n = db_thread_init E (name i) db" "n_to_db n = []" "n_to_p2p n = []"
      by (auto simp: node_started_def)
    then have "db_requests (n_p2p n) = []" "distinct (my_hashes (n_db n))" "n_to_db n = []" "n_to_p2p n = []"
      by (auto simp: p2p_thread_init_def Let_def bindr_Inr_conv db_thread_init_def distinct_updated dest: sym)
    with sets n show ?thesis by (simp add: node_fits_def p2p_fits_def db_fits_def)
  qed
  moreover have "\<forall>i a. nt_wire net i a = []" using start by (simp add: net_started_def)
  ultimately have "net_fits E view T A net" by (simp add: net_fits_def)
  with snd fin net_started_inv(2) [OF start] started_spread [OF start] show ?thesis by (simp add: good_net_def)
qed

lemma net_settles:
  assumes inv: "net_inv E rr view name net" and good: "good_net E view reach T A net"
    and "fair (dom (nt_nodes net)) f"
  shows "\<exists>k net'. (\<forall>k'\<ge>k. \<exists>out. run_machine (net_turn E reach name) (map f [0..<k']) net = Inr (net', out)) \<and>
    grown E view net net' \<and> agreed E view net net' \<and> good_net E view reach T A net'"
proof -
  let ?P = "dom (nt_nodes net)"
  have live: "good_net E view reach T A net \<and> grown E view net net" using good grown_refl by blast
  have acc: "clientless (f k)" for k using assms(3) by (simp add: fair_def)
  have turns: "\<exists>k'\<ge>k. f k' = ev" if "ev \<in> node_turns ?P" for ev k
    using assms(3) that unfolding fair_def node_turns_def by blast
  show ?thesis
  proof (rule settling.settles [OF inv live acc turns])
    fix k net'
    assume inv': "net_inv E rr view name net'" and g: "good_net E view reach T A net' \<and> grown E view net net'"
      and rest: "\<And>ev. ev \<in> node_turns ?P \<Longrightarrow> at_rest ev net'"
      and run: "\<And>k'. k \<le> k' \<Longrightarrow> \<exists>out. run_machine (net_turn E reach name) (map f [0..<k']) net = Inr (net', out)"
    have "dom (nt_nodes net') = ?P" using g by (simp add: grown_def)
    then have "net_quiet net'" using rest by (intro rest_quiet) simp
    then have "agreed E view net net'" using quiet_agreed [OF inv'] g by blast
    then show ?thesis using run g by (intro exI [of _ k] exI [of _ net']) simp
  qed
qed

end
