(* ===== verification/Publish.thy ===== *)
theory Publish
  imports Settling Monero_Util
begin

text \<open>
  From a user to all daemons: the request that the client makes of "db add json" is one the daemon takes
  for an addition by the same user, and what it stores is then in the database of the daemon it asks.
\<close>

definition add_cmd :: "string \<Rightarrow> string" where
  "add_cmd file = ''db add json '' @ file"

lemma add_cmd_matches:
  "chars_match ''db'' (add_cmd file)" "\<not> chars_match ''query'' (drop 3 (add_cmd file))"
  "chars_match ''add'' (drop 3 (add_cmd file))" "\<not> chars_match ''rm'' (drop 3 (add_cmd file))"
  "chars_match ''json'' (''json '' @ file)" "add_cmd file \<noteq> ''connect''"
  by (simp_all add: add_cmd_def chars_match_def char_at_def)

lemma add_cmd_drops: "drop 7 (add_cmd file) = ''json '' @ file" "drop 5 (''json '' @ file) = file"
  by (simp_all add: add_cmd_def)

lemma needs_auth_add: "needs_auth (add_cmd file)"
  by (simp add: needs_auth_def add_cmd_def starts_with_def)

lemma trim_add_cmd:
  assumes "trim cmd = add_cmd file"
  shows "trim (''json '' @ file) = ''json '' @ file"
proof (rule trim_id)
  have "\<not> isspace (last (add_cmd file))" using last_trim [of cmd] assms by (simp add: add_cmd_def)
  then show "''json '' @ file = [] \<or> \<not> isspace (hd (''json '' @ file)) \<and> \<not> isspace (last (''json '' @ file))"
    by (cases "file = []") (simp_all add: add_cmd_def isspace_def)
qed

text \<open>What the client sends for the command, with the digest of the user's wallet.\<close>

lemma send_cmd_add:
  assumes "send_cmd C evs cmd host key keys (Some w) = Inr acts" and "(m, h) \<in> set (requests acts)"
    and "trim cmd = add_cmd file" and "user = c_sha C (w_primary_address (c_wallet C) w)"
    and "rfind_sub ''AUTH:'' user = None"
  shows "split_auth m = Inr (user, add_cmd file)"
proof -
  have "auth_cmd C (trim cmd) (Some w) = Some m" using send_cmd_requests [OF assms(1,2)] by simp
  then have "m = add_cmd file @ '' AUTH:'' @ user" using assms(3,4) by (simp add: auth_cmd_def needs_auth_add)
  with split_auth_append [OF assms(5)] show ?thesis by simp
qed

text \<open>A request for an addition as the daemon takes it.\<close>

lemma add_request_safe:
  assumes "split_auth m = Inr (user, add_cmd file)" and "\<not> e_dbg E"
    and "trim (''json '' @ file) = ''json '' @ file"
    and "deserializeFromFile (e_json E) (e_files E) file [] = Inr (ok, ds)"
  shows "safe_client E [m]" and "client_adds E [m] = client_entry E user ` set ds" and "\<not> names_hash E h [m]"
  using assms by (auto simp: safe_client_def client_adds_def names_hash_def add_cmd_matches add_cmd_drops Let_def)

lemma add_request_stores:
  assumes inv: "db_written_inv E rr view db_name s" and nf: "no_faults E"
    and m: "split_auth m = Inr (user, add_cmd file)" "trim (''json '' @ file) = ''json '' @ file"
    and fl: "user \<noteq> []" "e_files E file \<noteq> None" "deserializeFromFile (e_json E) (e_files E) file [] = Inr (ok, ds)"
    and d: "d \<in> set ds" and op: "db_client_op E db_name ps [m] s = Inr (s', out)"
  shows "e_sha E (client_entry E user d) \<in> stored E view (ds_db s')"
proof -
  note D = db_written_invD [OF inv]
  let ?news = "new_docs E user (my_hashes s) ds"
  obtain db' where db': "index_db E user db_name file (my_hashes s) (ds_db s) = Inr (added_info (length ?news), db')"
    "stored E view db' = stored E view (ds_db s) \<union> (\<lambda>d. e_sha E (client_entry E user d)) ` set ?news"
    using index_db_adds [OF D(3,5) nf fl] by blast
  then have "db_add E user db_name (drop 4 (drop 3 (add_cmd file))) (my_hashes s) (ds_db s)
      = Inr (added_info (length ?news), db')"
    using m(2) fl(1) add_cmd_matches(5) [of "file"] by (simp add: db_add_def add_cmd_drops add_cmd_matches Let_def)
  then have "ds_db s' = db'"
    using op m(1) fl(1) by (auto simp: db_client_op_def db_client_db_def add_cmd_matches)
  moreover have "e_sha E (client_entry E user d) \<in> stored E view db'"
    using d D(7) db'(2) by (auto simp: new_docs_def)
  ultimately show ?thesis by simp
qed

text \<open>The same in a network: the daemon that is asked stores the ad.\<close>

lemma net_add_request:
  assumes inv: "net_inv E rr view name net" and nf: "no_faults E"
    and m: "split_auth m = Inr (user, add_cmd file)" "trim (''json '' @ file) = ''json '' @ file"
    and fl: "user \<noteq> []" "e_files E file \<noteq> None" "deserializeFromFile (e_json E) (e_files E) file [] = Inr (ok, ds)"
    and d: "d \<in> set ds" and n: "nt_nodes net i = Some n"
    and turn: "net_turn E reach name (DbTurn i (Some [m]) False) net = Inr (net', out)"
  obtains n' where "nt_nodes net' i = Some n'" "e_sha E (client_entry E user d) \<in> stored E view (ds_db (n_db n'))"
proof -
  have "db_written_inv E rr view (name i) (n_db n)" using net_invD(1) [OF inv n] by (simp add: node_ok_def)
  note stores = add_request_stores [OF this nf m fl d]
  obtain s' out' where op: "db_client_op E (name i) (my_peers (n_p2p n)) [m] (n_db n) = Inr (s', out')"
    and net': "nt_nodes net' i = Some (n\<lparr>n_db := s', n_to_p2p := n_to_p2p n @ to_p2p out'\<rparr>)"
    using turn n by (auto simp: net_turn_def db_turn_at_def db_thread_turn_def bindr_Inr_conv)
  show thesis by (rule that [OF net']) (use stores [OF op] in simp)
qed

text \<open>And so does every daemon that is connected with it, once the network is at rest.\<close>

lemma joined_dom: "(i, j) \<in> joined net \<Longrightarrow> i \<in> dom (nt_nodes net) \<Longrightarrow> j \<in> dom (nt_nodes net)"
  unfolding joined_def by (induction rule: rtrancl_induct) (auto simp: links_def)

lemma published:
  assumes inv: "net_inv E rr view name net0" and good: "good_net E view reach T A net0" and node: "i \<in> dom (nt_nodes net0)"
    and clients: "\<forall>ev\<in>set es1 \<union> set es2. client_ok E T ev" and fair: "fair (dom (nt_nodes net0)) f"
    and m: "split_auth m = Inr (user, add_cmd file)" "trim (''json '' @ file) = ''json '' @ file"
    and fl: "user \<noteq> []" "e_files E file \<noteq> None" "deserializeFromFile (e_json E) (e_files E) file [] = Inr (ok, ds)"
    and d: "client_entry E user ` set ds \<subseteq> T" "d \<in> set ds"
  shows "\<exists>net out. run_machine (net_turn E reach name) (es1 @ DbTurn i (Some [m]) False # es2) net0 = Inr (net, out) \<and>
    joined net0 \<subseteq> joined net \<and> (\<exists>k net'. (\<forall>k'\<ge>k. \<exists>out. run_machine (net_turn E reach name) (map f [0..<k']) net = Inr (net', out)) \<and>
       (\<forall>j. (i, j) \<in> joined net \<longrightarrow>
          (\<exists>n. nt_nodes net' j = Some n \<and> e_sha E (client_entry E user d) \<in> stored E view (ds_db (n_db n)))))"
proof -
  let ?ev = "DbTurn i (Some [m]) False" and ?h = "e_sha E (client_entry E user d)"
  have snd: "\<not> e_dbg E" "no_faults E" using good by (simp_all add: good_net_def sound_setting_def)
  have ok: "client_ok E T ?ev"
    using add_request_safe [OF m(1) snd(1) m(2) fl(3)] d(1) by (simp add: client_ok_def)
  have run: "\<exists>net' out. run_machine (net_turn E reach name) es net = Inr (net', out) \<and> net_inv E rr view name net' \<and>
      good_net E view reach T A net' \<and> grown E view net net'"
    if "net_inv E rr view name net" "good_net E view reach T A net" "\<forall>ev\<in>set es. client_ok E T ev" for es net
  proof -
    have "acc_run (net_turn E reach name) (\<lambda>ev _. client_ok E T ev) es net" by (rule acc_run_all) (use that(3) in simp)
    from bounded.run_live [OF that(1) conjI [OF that(2) grown_refl] this] netw.run_inv [OF that(1)]
    show ?thesis by blast
  qed
  obtain net1 out1 where 1: "run_machine (net_turn E reach name) es1 net0 = Inr (net1, out1)"
    "net_inv E rr view name net1" "good_net E view reach T A net1" "grown E view net0 net1"
    using run [OF inv good, of es1] clients by blast
  obtain net2 out2 where 2: "run_machine (net_turn E reach name) [?ev] net1 = Inr (net2, out2)"
    "net_inv E rr view name net2" "good_net E view reach T A net2" "grown E view net1 net2"
    using run [OF 1(2,3), of "[?ev]"] ok by auto
  obtain net3 out3 where 3: "run_machine (net_turn E reach name) es2 net2 = Inr (net3, out3)"
    "net_inv E rr view name net3" "good_net E view reach T A net3" "grown E view net2 net3"
    using run [OF 2(2,3), of es2] clients by blast
  have r: "run_machine (net_turn E reach name) (es1 @ ?ev # es2) net0 = Inr (net3, out1 @ out2 @ out3)"
    using 1(1) 2(1) 3(1) by (auto simp: run_machine_append bindr_Inr_conv)
  have j: "joined net0 \<subseteq> joined net3"
    using links_grown [OF grown_trans [OF grown_trans [OF 1(4) 2(4)] 3(4)]] unfolding joined_def
    by (intro rtrancl_mono) blast
  have dom: "dom (nt_nodes net1) = dom (nt_nodes net0)" "dom (nt_nodes net3) = dom (nt_nodes net0)"
    using 1(4) 2(4) 3(4) by (simp_all add: grown_def)
  obtain n1 where n1: "nt_nodes net1 i = Some n1" using node dom(1) by blast
  obtain o2 where "net_turn E reach name ?ev net1 = Inr (net2, o2)" using 2(1) by (auto simp: bindr_Inr_conv)
  then obtain n2 where n2: "nt_nodes net2 i = Some n2" "?h \<in> stored E view (ds_db (n_db n2))"
    using net_add_request [OF 1(2) snd(2) m fl d(2) n1] by blast
  have "fair (dom (nt_nodes net3)) f" using fair dom(2) by simp
  then obtain k net' where s: "\<forall>k'\<ge>k. \<exists>out. run_machine (net_turn E reach name) (map f [0..<k']) net3 = Inr (net', out)"
    "grown E view net3 net'" "agreed E view net3 net'"
    using net_settles [OF 3(2,3)] by blast
  note g = grown_trans [OF 3(4) s(2)]
  obtain ni where ni: "nt_nodes net' i = Some ni" using g n2(1) unfolding grown_def by blast
  have "?h \<in> stored E view (ds_db (n_db ni))" using g n2 ni unfolding grown_def by blast
  then have "\<exists>n. nt_nodes net' j = Some n \<and> ?h \<in> stored E view (ds_db (n_db n))" if ij: "(i, j) \<in> joined net3" for j
  proof -
    have "j \<in> dom (nt_nodes net')" using joined_dom [OF ij] node dom(2) s(2) by (simp add: grown_def)
    then obtain n where "nt_nodes net' j = Some n" by blast
    with \<open>?h \<in> stored E view (ds_db (n_db ni))\<close> show ?thesis using s(3) ij ni unfolding agreed_def by blast
  qed
  with r j s(1) show ?thesis by blast
qed

text \<open>The digest of an ad that travels is stored only with the ad, and its author is in it.\<close>

lemma stored_travels:
  assumes inv: "net_inv E rr view name net" and n: "nt_nodes net i = Some n"
    and st: "e_sha E e \<in> stored E view (ds_db (n_db n))" and tr: "travels E e"
  shows "e \<in> entries (view (ds_db (n_db n)))"
proof -
  have "db_written_inv E rr view (name i) (n_db n)" using net_invD(1) [OF inv n] by (simp add: node_ok_def)
  note D = db_written_invD [OF this]
  obtain e' where e': "e' \<in> entries (view (ds_db (n_db n)))" "e_sha E e' = e_sha E e"
    using st by (auto simp: stored_def)
  then have "ad_text E e'" using D(2,7) by (simp add: ads_written_def)
  with tr e' have "e' = e" by (simp add: travels_def)
  with e'(1) show ?thesis by simp
qed

lemma net_inv_json_laws: "net_inv E rr view name net \<Longrightarrow> nt_nodes net i = Some n \<Longrightarrow> json_laws (e_json E) rr"
  using net_invD(1) db_written_invD(8) env_lawsD(2) unfolding node_ok_def by blast

lemma file_ad_author:
  assumes "json_laws (e_json E) rr" and "deserializeFromFile (e_json E) (e_files E) file [] = Inr (ok, ds)" and "d \<in> set ds"
  shows "author_of E (client_entry E user d) = Some (cstr user)"
  using author_of_client_entry [OF assms(1)] deserializeFromFile_finite [OF assms(1,2)] assms(3) by simp

end
