(* ===== verification/Reach.thy ===== *)
theory Reach
  imports Publish
begin

text \<open>
  Where daemons connect to. A connection to an address that ZeroMQ refuses (\<open>reach\<close> is false) throws and
  ends the p2p thread. Daemons connect at the start to the peers they are given, and later to addresses
  that daemons tell each other: their own ones and those of their peers. So a network whose daemons have
  started and can connect to each other runs as if every address could be connected to.
\<close>

section \<open>Addresses that cannot be connected to\<close>

lemma connect_all_refused: "a \<in> set ps \<Longrightarrow> \<not> reach a \<Longrightarrow> connect_all reach ps = Inl ZmqError"
  by (induction ps) (auto simp: p2p_connect_peer_def)

lemma p2p_thread_init_refused:
  assumes "a \<in> set ps" and "a \<noteq> own_addr i" and "\<not> reach a"
  shows "p2p_thread_init reach p0 i ps = Inl ZmqError"
  using connect_all_refused [of a "default_peers [p0..i - 1] (filter (\<lambda>b. b \<noteq> own_addr i) ps)" reach] assms
  by (simp add: p2p_thread_init_def set_default_peers Let_def)

lemma peer_loop_refused:
  "a \<in> set ps \<Longrightarrow> a \<noteq> own_addr i \<Longrightarrow> a \<notin> set (my_peers s) \<Longrightarrow> \<not> reach a \<Longrightarrow>
     peer_loop reach i (length ps) ps s = Inl ZmqError"
proof (induction ps arbitrary: s)
  case (Cons b ps)
  then show ?case
    by (cases "a = b"; cases "a \<in> set ps") (auto simp: p2p_connect_peer_def bindr_def)
qed simp

lemma peer_msg_refused:
  assumes "a \<in> set ps" and "a \<noteq> own_addr i" and "a \<notin> set (my_peers s)" and "\<not> reach a"
    and "length ps + 1 < 2 ^ 64"
  shows "p2p_answer_p2p E reach i hashes (ident # peer_msg j ps) s = Inl ZmqError"
  using peer_loop_refused [of a "own_addr j # ps" i s reach] assms
  by (simp add: p2p_answer_p2p_def peer_msg_def)

section \<open>Addresses that can\<close>

lemma connect_all_reached: "connect_all reach ps = Inr out \<Longrightarrow> \<forall>a\<in>set ps. reach a"
  by (induction ps arbitrary: out) (auto simp: p2p_connect_peer_def bindr_Inr_conv split: if_splits)

lemma connect_all_free: "\<forall>a\<in>set ps. reach a \<Longrightarrow> connect_all reach ps = connect_all (\<lambda>_. True) ps"
  by (induction ps) (simp_all add: p2p_connect_peer_def)

lemma p2p_thread_init_reached:
  assumes "p2p_thread_init reach p0 i ps = Inr (s, out)"
  shows "\<forall>a\<in>set (my_peers s). reach a" and "p2p_thread_init (\<lambda>_. True) p0 i ps = Inr (s, out)"
proof -
  let ?ps = "default_peers [p0..i - 1] (filter (\<lambda>a. a \<noteq> own_addr i) ps)"
  have c: "connect_all reach ?ps = Inr out" and s: "my_peers s = ?ps"
    using assms by (auto simp: p2p_thread_init_def Let_def bindr_Inr_conv)
  note r = connect_all_reached [OF c]
  with s show "\<forall>a\<in>set (my_peers s). reach a" by simp
  show "p2p_thread_init (\<lambda>_. True) p0 i ps = Inr (s, out)"
    using assms connect_all_free [OF r] by (simp add: p2p_thread_init_def Let_def)
qed

lemma peer_loop_free:
  "\<forall>a\<in>set msg. reach a \<Longrightarrow> peer_loop reach i num msg s = peer_loop (\<lambda>_. True) i num msg s"
proof (induction num arbitrary: msg s)
  case (Suc num)
  then show ?case by (cases msg) (simp_all add: p2p_connect_peer_def)
qed simp

lemma p2p_answer_p2p_free:
  assumes "\<forall>a\<in>set (addrs_of (tl msg)). reach a"
  shows "p2p_answer_p2p E reach i hashes msg s = p2p_answer_p2p E (\<lambda>_. True) i hashes msg s"
proof (cases "\<exists>ident m. msg = ident # ''PEER'' # m")
  case True
  then obtain ident m where m: "msg = ident # ''PEER'' # m" by blast
  have "peer_loop reach i num (tl m) s = peer_loop (\<lambda>_. True) i num (tl m) s" for num
    by (rule peer_loop_free) (use m assms in \<open>cases m; simp add: addrs_of_def\<close>)
  with m show ?thesis by (cases m; cases "stoul (hd m)") (simp_all add: p2p_answer_p2p_def msg_count_def)
next
  case no: False
  show ?thesis
  proof (cases msg)
    case (Cons ident m)
    then show ?thesis
    proof (cases m)
      case m: (Cons cmd rest)
      with no Cons have "(cmd = ''PEER'') = False" by blast
      with Cons m show ?thesis by (simp only: p2p_answer_p2p_def msg_get.simps res_simps prod.case if_False)
    qed (simp add: p2p_answer_p2p_def)
  qed (simp add: p2p_answer_p2p_def)
qed

section \<open>A network whose daemons can connect to each other\<close>

definition connects :: "(string \<Rightarrow> bool) \<Rightarrow> 'db net \<Rightarrow> bool" where
  "connects reach net \<longleftrightarrow>
     (\<forall>i n. nt_nodes net i = Some n \<longrightarrow> reach (own_addr i) \<and> (\<forall>a\<in>set (my_peers (n_p2p n)). reach a)) \<and>
     (\<forall>j a. \<forall>m\<in>set (nt_wire net j a). \<forall>b\<in>set (addrs_of m). reach b)"

text \<open>In a first state it is enough that the daemons' own addresses can be connected to.\<close>

definition meets :: "(string \<Rightarrow> bool) \<Rightarrow> 'db net \<Rightarrow> bool" where
  "meets reach net \<longleftrightarrow> (\<forall>i\<in>dom (nt_nodes net). reach (own_addr i))"

lemma started_free:
  assumes "net_started E rr view reach name net" and "meets reach net"
  shows "connects reach net" and "net_started E rr view (\<lambda>_. True) name net"
proof -
  have n: "(\<forall>a\<in>set (my_peers (n_p2p n)). reach a) \<and> node_started E rr view (\<lambda>_. True) (name i) i n"
    if "nt_nodes net i = Some n" for i n
  proof -
    have "node_started E rr view reach (name i) i n" using assms(1) that by (simp add: net_started_def)
    then show ?thesis unfolding node_started_def using p2p_thread_init_reached by blast
  qed
  with assms show "connects reach net" by (auto simp: connects_def net_started_def meets_def)
  from n assms show "net_started E rr view (\<lambda>_. True) name net" by (simp add: net_started_def)
qed

lemma waiting_reached:
  "connects reach net \<Longrightarrow> waiting net src i = Some m \<Longrightarrow> \<forall>a\<in>set (addrs_of (tl m)). reach a"
  by (auto simp: connects_def waiting_def hd_opt_Some split: option.splits) (metis list.set_intros(1))

lemma net_turn_free:
  assumes "connects reach net"
  shows "net_turn E reach name ev net = net_turn E (\<lambda>_. True) name ev net"
proof (cases ev)
  case (P2pTurn i src takes)
  have "p2p_thread_turn E reach i (hs, waiting net src i, dm) s = p2p_thread_turn E (\<lambda>_. True) i (hs, waiting net src i, dm) s"
    for hs dm s
  proof (cases "waiting net src i")
    case (Some m)
    have "p2p_answer_p2p E reach i hs m = p2p_answer_p2p E (\<lambda>_. True) i hs m"
      using p2p_answer_p2p_free [OF waiting_reached [OF assms Some]] by blast
    with Some show ?thesis by (simp add: p2p_thread_turn_def)
  qed (simp add: p2p_thread_turn_def)
  then have "p2p_turn_at E reach i src takes net n = p2p_turn_at E (\<lambda>_. True) i src takes net n" for n
    unfolding p2p_turn_at_def by metis
  then show ?thesis by (simp add: P2pTurn net_turn_def split: option.split)
qed (simp add: net_turn_def)

text \<open>What a daemon sends contains addresses that it can connect to only.\<close>

lemma p2p_sends_reached:
  assumes "p2p_sends i hashes s = Inr (s', out)" and "reach (own_addr i)" and "\<forall>b\<in>set (my_peers s). reach b"
  shows "\<forall>m\<in>set (to_peer a out). \<forall>b\<in>set (addrs_of m). reach b" and "my_peers s' = my_peers s"
proof -
  note eq = p2p_sends_eq [OF assms(1)]
  show "my_peers s' = my_peers s" by (rule eq(2))
  have "\<forall>b\<in>set (addrs_of (peer_msg i (my_peers s))). reach b"
    using assms(2,3) by (simp add: addrs_of_def peer_msg_def)
  moreover have "addrs_of (hash_msg i hs) = []" "addrs_of (req_msg i hs) = []" for hs by (simp_all add: addrs_of_def)
  ultimately show "\<forall>m\<in>set (to_peer a out). \<forall>b\<in>set (addrs_of m). reach b"
    by (auto simp: eq(1) to_append sends_defs to_peer_map case_prod_unfold)
qed

lemma p2p_answer_p2p_reached:
  assumes "p2p_answer_p2p E r i hashes msg s = Inr (s', out)" and "\<forall>b\<in>set (addrs_of (tl msg)). reach b"
    and "\<forall>b\<in>set (my_peers s). reach b"
  shows "to_peer a out = [] \<and> (\<forall>b\<in>set (my_peers s'). reach b)"
  using assms(1)
proof (cases rule: p2p_answer_p2p_cases)
  case (peer ident sz m num)
  note eff = peer_loop_effect [OF peer(3)]
  then have "\<forall>x\<in>set out. \<exists>b. x = Connect b" by blast
  then have "to_peer a out = []" by (induction out) auto
  moreover have "set (take num m) \<subseteq> set (addrs_of (tl msg))" using peer(1) by (auto simp: addrs_of_def dest: in_set_takeD)
  ultimately show ?thesis using eff assms(2,3) by (auto simp: set_learn)
qed (use assms(3) in \<open>simp_all add: fold_want_hash_frame\<close>)

lemma p2p_answer_db_reached:
  assumes "p2p_answer_db dbg msg s = Inr (s', out)"
  shows "(\<forall>m\<in>set (to_peer a out). addrs_of m = []) \<and> my_peers s' = my_peers s"
  using assms by (cases rule: p2p_answer_db_cases) (simp_all add: addrs_of_def)

lemma p2p_turn_reached:
  assumes turn: "p2p_thread_turn E r i (hashes, pm, dm) s = Inr (s', out)" and own: "reach (own_addr i)"
    and ps: "\<forall>b\<in>set (my_peers s). reach b" and pm: "\<And>m. pm = Some m \<Longrightarrow> \<forall>b\<in>set (addrs_of (tl m)). reach b"
  shows "\<forall>m\<in>set (to_peer a out). \<forall>b\<in>set (addrs_of m). reach b" and "\<forall>b\<in>set (my_peers s'). reach b"
proof -
  from turn obtain s1 out1 s2 out2 out3 where t: "p2p_sends i hashes s = Inr (s1, out1)"
    "(case pm of None \<Rightarrow> Inr (s1, []) | Some m \<Rightarrow> p2p_answer_p2p E r i hashes m s1) = Inr (s2, out2)"
    "(case dm of None \<Rightarrow> Inr (s2, []) | Some m \<Rightarrow> p2p_answer_db (e_dbg E) m s2) = Inr (s', out3)"
    "out = out1 @ out2 @ out3"
    by (cases rule: p2p_thread_turnE)
  note 1 = p2p_sends_reached [where reach = reach, OF t(1) own ps]
  have s1: "\<forall>b\<in>set (my_peers s1). reach b" using ps 1(2) by simp
  have 2: "to_peer a out2 = [] \<and> (\<forall>b\<in>set (my_peers s2). reach b)"
  proof (cases pm)
    case (Some m)
    then have "p2p_answer_p2p E r i hashes m s1 = Inr (s2, out2)" using t(2) by simp
    from p2p_answer_p2p_reached [where reach = reach, OF this pm [OF Some] s1] show ?thesis .
  qed (use t(2) s1 in simp)
  have 3: "(\<forall>m\<in>set (to_peer a out3). addrs_of m = []) \<and> my_peers s' = my_peers s2"
  proof (cases dm)
    case (Some m)
    then have "p2p_answer_db (e_dbg E) m s2 = Inr (s', out3)" using t(3) by simp
    then show ?thesis by (rule p2p_answer_db_reached)
  qed (use t(3) in simp)
  show "\<forall>m\<in>set (to_peer a out). \<forall>b\<in>set (addrs_of m). reach b"
    using 1(1) [of a] 2 3 by (auto simp: t(4) to_append)
  show "\<forall>b\<in>set (my_peers s'). reach b" using 2 3 by simp
qed

lemma net_turn_connects:
  assumes con: "connects reach net" and turn: "net_turn E r name ev net = Inr (net', out)"
  shows "connects reach net'"
proof (cases ev)
  case (P2pTurn i src takes)
  show ?thesis
  proof (cases "nt_nodes net i")
    case (Some n)
    note c = con [unfolded connects_def]
    from turn Some obtain p o' where t: "p2p_thread_turn E r i
        (my_hashes (n_db n), waiting net src i, if takes then hd_opt (n_to_p2p n) else None) (n_p2p n) = Inr (p, o')"
      and net': "net' = net\<lparr>nt_nodes := (nt_nodes net)(i \<mapsto>
                   n\<lparr>n_p2p := p, n_to_db := n_to_db n @ to_db o',
                     n_to_p2p := (if takes then tl (n_to_p2p n) else n_to_p2p n)\<rparr>),
                nt_wire := (taken net src i)(i := (\<lambda>a. taken net src i i a @ to_peer a o'))\<rparr>"
      by (auto simp: P2pTurn net_turn_def p2p_turn_at_def bindr_Inr_conv)
    note tr = p2p_turn_reached [where reach = reach, OF t _ _ waiting_reached [OF con]]
    have ps: "reach (own_addr i)" "\<forall>b\<in>set (my_peers (n_p2p n)). reach b" using c Some by blast+
    have "\<forall>m\<in>set (taken net src i j a). \<forall>b\<in>set (addrs_of m). reach b" for j a
      using c by (auto simp: taken_def dest: list.set_sel(2) [rotated])
        (metis list.sel(2) list.set_sel(2))
    then show ?thesis using c tr [OF ps] ps(1) by (auto simp: net' connects_def split: if_splits)
  qed (use con turn in \<open>simp add: P2pTurn net_turn_def\<close>)
next
  case (DbTurn i client takes)
  show ?thesis
  proof (cases "nt_nodes net i")
    case (Some n)
    with con turn show ?thesis by (auto simp: DbTurn net_turn_def db_turn_at_def connects_def bindr_Inr_conv split: if_splits)
  qed (use con turn in \<open>simp add: DbTurn net_turn_def\<close>)
qed

text \<open>So what is shown for connections that always succeed holds of such a network.\<close>

lemma run_free:
  assumes "connects reach net"
  shows "run_machine (net_turn E reach name) es net = run_machine (net_turn E (\<lambda>_. True) name) es net"
    and "acc_run (net_turn E reach name) acc es net \<longleftrightarrow> acc_run (net_turn E (\<lambda>_. True) name) acc es net"
proof -
  have "run_machine (net_turn E reach name) es net = run_machine (net_turn E (\<lambda>_. True) name) es net \<and>
    (acc_run (net_turn E reach name) acc es net \<longleftrightarrow> acc_run (net_turn E (\<lambda>_. True) name) acc es net)"
    using assms
  proof (induction es arbitrary: net)
    case (Cons ev es)
    note free = net_turn_free [OF Cons.prems]
    show ?case
    proof (cases "net_turn E (\<lambda>_. True) name ev net")
      case (Inr r)
      then obtain net1 out1 where r: "net_turn E (\<lambda>_. True) name ev net = Inr (net1, out1)" by (cases r) auto
      from Cons.IH [OF net_turn_connects [OF Cons.prems r]] show ?thesis by (simp add: free r)
    qed (simp add: free)
  qed simp
  then show "run_machine (net_turn E reach name) es net = run_machine (net_turn E (\<lambda>_. True) name) es net"
    and "acc_run (net_turn E reach name) acc es net \<longleftrightarrow> acc_run (net_turn E (\<lambda>_. True) name) acc es net"
    by blast+
qed

lemma run_connects:
  assumes "connects reach net" and "run_machine (net_turn E r name) es net = Inr (net', out)"
  shows "connects reach net'"
  using assms by (induction es arbitrary: net out) (auto simp: bindr_Inr_conv dest: net_turn_connects)

end
