(* ===== verification/Exchange.thy ===== *)
theory Exchange
  imports Transport
begin

text \<open>
  Two daemons together: one round in which a daemon A broadcasts its digests and a daemon B fetches the
  ads it lacks. The round composes the handlers of the threads of both daemons; the network and the
  inproc socket only carry messages (\<open>to_peer\<close>, \<open>to_db\<close>, \<open>to_p2p\<close>), and the router puts the identity
  of the sender in front of a peer's message.
\<close>

section \<open>A daemon and a round\<close>

record 'db daemon =
  d_port :: int
  d_name :: string
  d_p2p :: p2p_state
  d_db :: "'db db_state"

abbreviation d_addr :: "'db daemon \<Rightarrow> string" where
  "d_addr D \<equiv> own_addr (d_port D)"

definition answer_peers ::
  "'db env \<Rightarrow> (string \<Rightarrow> bool) \<Rightarrow> 'db daemon \<Rightarrow> message list \<Rightarrow> ('db daemon \<times> p2p_out list) res" where
  "answer_peers E reach D ms =
     bindr (run_machine (p2p_answer_p2p E reach (d_port D) (my_hashes (d_db D))) ms (d_p2p D))
       (\<lambda>(p, out). Inr (D\<lparr>d_p2p := p\<rparr>, out))"

definition answer_db ::
  "'db env \<Rightarrow> 'db daemon \<Rightarrow> message list \<Rightarrow> ('db daemon \<times> p2p_out list) res" where
  "answer_db E D ms =
     bindr (run_machine (p2p_answer_db (e_dbg E)) ms (d_p2p D)) (\<lambda>(p, out).
       Inr (D\<lparr>d_p2p := p\<rparr>, out))"

definition serve_db ::
  "'db env \<Rightarrow> 'db daemon \<Rightarrow> message list \<Rightarrow> ('db daemon \<times> db_out list) res" where
  "serve_db E D ms =
     bindr (run_machine (db_peer_op E (d_name D)) ms (d_db D)) (\<lambda>(d, out).
       Inr (D\<lparr>d_db := d\<rparr>, out))"

text \<open>
  A announces its digests; B asks A for the ones it lacks; A's database thread looks them up; A sends
  the ads; B's database thread inserts them.
\<close>

definition announce :: "'db daemon \<Rightarrow> 'db daemon \<times> p2p_out list" where
  "announce A =
     (case p2p_bcast_hashes (d_port A) (my_hashes (d_db A)) (d_p2p A) of (p, out) \<Rightarrow>
        (A\<lparr>d_p2p := p\<rparr>, out))"

definition ask :: "'db daemon \<Rightarrow> ('db daemon \<times> p2p_out list) res" where
  "ask B = bindr (p2p_send_db_requests (d_port B) (d_p2p B)) (\<lambda>(p, out).
     Inr (B\<lparr>d_p2p := p\<rparr>, out))"

definition sync_round ::
  "'db env \<Rightarrow> (string \<Rightarrow> bool) \<Rightarrow> 'db daemon \<Rightarrow> 'db daemon \<Rightarrow> ('db daemon \<times> 'db daemon) res" where
  "sync_round E reach A B =
     (case announce A of (A1, o1) \<Rightarrow>
      bindr (answer_peers E reach B (routed (d_addr A) (to_peer (d_addr B) o1))) (\<lambda>(B1, o2).
      bindr (ask B1) (\<lambda>(B2, o3).
      bindr (answer_peers E reach A1 (routed (d_addr B) (to_peer (d_addr A) o3))) (\<lambda>(A2, o4).
      bindr (serve_db E A2 (to_db o4)) (\<lambda>(A3, o5).
      bindr (answer_db E A3 (to_p2p o5)) (\<lambda>(A4, o6).
      bindr (answer_peers E reach B2 (routed (d_addr A) (to_peer (d_addr B) o6))) (\<lambda>(B3, o7).
      bindr (serve_db E B3 (to_db o7)) (\<lambda>(B4, o8).
        Inr (A4, B4)))))))))"

section \<open>Lemmas on the handlers\<close>

definition req_of :: "string \<Rightarrow> string list \<Rightarrow> (string \<times> string list) list" where
  "req_of a hs = (if hs = [] then [] else [(a, hs)])"

lemma fold_want_hash_single:
  "db_requests s = req_of a ws \<Longrightarrow>
     db_requests (fold (want_hash hashes a) hs s)
       = req_of a (fold uset_insert (filter (\<lambda>h. h \<notin> set hashes) hs) ws)"
proof (induction hs arbitrary: s ws)
  case (Cons h hs)
  show ?case
  proof (cases "h \<in> set hashes")
    case True
    with Cons show ?thesis by (simp add: want_hash_def)
  next
    case False
    have "db_requests (want_hash hashes a h s) = req_of a (uset_insert h ws)"
      using False Cons.prems by (auto simp: want_hash_def req_of_def uset_insert_def)
    from Cons.IH [OF this] False show ?thesis by simp
  qed
qed simp

lemma wanted_to_send:
  assumes "p2p_inv p2p_port s"
  shows "to_send_db_requests s \<longleftrightarrow> db_requests s \<noteq> []"
  using assms by (simp add: p2p_inv_def)

lemma peer_digests_canonical:
  assumes "\<forall>d\<in>set ds. peer_entry E d = Some d"
  shows "peer_digests E ds = e_sha E ` set ds"
  using assms by (force simp: peer_digests_def)

lemma peer_entry_readable: "peer_entry E t = Some e \<Longrightarrow> readable E t"
  by (auto simp: peer_entry_def readable_def split: sum.splits)

section \<open>The round, step by step\<close>

text \<open>Both daemons in order, each a peer of the other, A about to broadcast, B with nothing pending.\<close>

definition linked ::
  "'db env \<Rightarrow> (double \<Rightarrow> double) \<Rightarrow> ('db \<Rightarrow> xview) \<Rightarrow> 'db daemon \<Rightarrow> 'db daemon \<Rightarrow> bool" where
  "linked E rr view A B \<longleftrightarrow>
     p2p_inv (d_port A) (d_p2p A) \<and> p2p_inv (d_port B) (d_p2p B) \<and>
     db_thread_inv E rr view (d_name A) (d_db A) \<and> db_thread_inv E rr view (d_name B) (d_db B) \<and>
     d_addr B \<in> set (my_peers (d_p2p A)) \<and> d_addr A \<in> set (my_peers (d_p2p B)) \<and>
     to_bcast_hashes (d_p2p A) \<and> db_requests (d_p2p B) = [] \<and>
     length (my_hashes (d_db A)) < 2 ^ 64"

lemma linked_db:
  "linked E rr view A B \<Longrightarrow> db_thread_inv E rr view (d_name B) s \<Longrightarrow> linked E rr view A (B\<lparr>d_db := s\<rparr>)"
  by (simp add: linked_def)

text \<open>The digests B lacks, as B collects them from A's broadcast.\<close>

definition lacking :: "'db daemon \<Rightarrow> 'db daemon \<Rightarrow> string list" where
  "lacking A B = uset_of (filter (\<lambda>h. h \<notin> set (my_hashes (d_db B))) (my_hashes (d_db A)))"

lemma set_lacking: "set (lacking A B) = set (my_hashes (d_db A)) - set (my_hashes (d_db B))"
  by (auto simp: lacking_def)

lemma length_lacking: "length (lacking A B) \<le> length (my_hashes (d_db A))"
proof -
  have "length (lacking A B) = card (set (lacking A B))"
    by (rule distinct_card [symmetric]) (simp add: lacking_def)
  also have "\<dots> \<le> card (set (my_hashes (d_db A)))"
    by (rule card_mono) (auto simp: set_lacking)
  also have "\<dots> \<le> length (my_hashes (d_db A))" by (rule card_length)
  finally show ?thesis .
qed

lemma announce_linked:
  assumes "linked E rr view A B"
  shows "fst (announce A) = A\<lparr>d_p2p := (d_p2p A)\<lparr>to_bcast_hashes := False\<rparr>\<rparr>"
    and "to_peer (d_addr B) (snd (announce A)) = [hash_msg (d_port A) (my_hashes (d_db A))]"
  using assms
  by (simp_all add: announce_def linked_def p2p_bcast_hashes_def p2p_inv_def to_peer_map_distinct)

lemma hash_msg_answered:
  assumes "length hs < 2 ^ 64"
  shows "p2p_answer_p2p E reach port hashes (ident # hash_msg p hs) s
    = Inr (fold (want_hash hashes (own_addr p)) hs s, [])"
  using assms by (simp add: p2p_answer_p2p_def hash_msg_def msg_loop_eq)

lemma answer_announce:
  assumes "linked E rr view A B"
  obtains B1 where
    "answer_peers E reach B (routed (d_addr A) [hash_msg (d_port A) (my_hashes (d_db A))]) = Inr (B1, [])"
    "d_port B1 = d_port B" "d_name B1 = d_name B" "d_db B1 = d_db B"
    "p2p_inv (d_port B) (d_p2p B1)" "my_peers (d_p2p B1) = my_peers (d_p2p B)"
    "db_requests (d_p2p B1) = req_of (d_addr A) (lacking A B)"
proof -
  let ?p = "fold (want_hash (my_hashes (d_db B)) (d_addr A)) (my_hashes (d_db A)) (d_p2p B)"
  have "p2p_inv (d_port B) ?p" using assms by (intro fold_want_hash_inv) (simp add: linked_def)
  moreover have "db_requests ?p = req_of (d_addr A) (lacking A B)"
    unfolding lacking_def uset_of_def
    by (rule fold_want_hash_single) (use assms in \<open>simp add: linked_def req_of_def\<close>)
  moreover have "answer_peers E reach B (routed (d_addr A) [hash_msg (d_port A) (my_hashes (d_db A))])
      = Inr (B\<lparr>d_p2p := ?p\<rparr>, [])"
    using assms by (simp add: answer_peers_def routed_def linked_def hash_msg_answered)
  ultimately show thesis by (intro that [of "B\<lparr>d_p2p := ?p\<rparr>"]) (simp_all add: fold_want_hash_frame)
qed

lemma ask_pending:
  assumes "p2p_inv (d_port B) (d_p2p B)" and "db_requests (d_p2p B) = req_of a ws"
    and "a \<in> set (my_peers (d_p2p B))"
  shows "ask B = Inr (B\<lparr>d_p2p := (d_p2p B)\<lparr>db_requests := [], to_send_db_requests := False\<rparr>\<rparr>,
    if ws = [] then [] else [SendPeer a (req_msg (d_port B) ws)])"
proof (cases "ws = []")
  case True
  then have "\<not> to_send_db_requests (d_p2p B)" "db_requests (d_p2p B) = []"
    using assms wanted_to_send by (simp_all add: req_of_def)
  moreover from this have "(d_p2p B)\<lparr>db_requests := [], to_send_db_requests := False\<rparr> = d_p2p B"
    by simp
  ultimately show ?thesis using True by (simp add: ask_def p2p_send_db_requests_def)
next
  case False
  then have "to_send_db_requests (d_p2p B)"
    using assms wanted_to_send by (simp add: req_of_def)
  with False assms show ?thesis
    by (simp add: ask_def p2p_send_db_requests_def req_of_def peers_at_def)
qed

lemma req_msg_answered:
  assumes "length ws < 2 ^ 64" and "ws \<noteq> []"
  shows "p2p_answer_p2p E reach port hashes (ident # req_msg p ws) s
    = Inr (s, [SendDb (''GET'' # own_addr p # nat_to_string (length ws) # ws)])"
  using assms by (simp add: p2p_answer_p2p_def req_msg_def msg_loop_eq stoul_to_string)

lemma get_msg_served:
  assumes "length ws < 2 ^ 64" and "ws \<noteq> []" and "db_get_docs E db_name ws (ds_db s) = Inr ds"
  shows "db_peer_op E db_name (''GET'' # a # nat_to_string (length ws) # ws) s
    = Inr (s, [ToP2p (''PUT'' # a # nat_to_string (length ds) # ds)])"
  using assms by (simp add: db_peer_op_def msg_loop_eq)

lemma put_msg_answered:
  assumes "length ds < 2 ^ 64" and "ds \<noteq> []" and "a \<in> set (my_peers s)"
  shows "p2p_answer_db dbg (''PUT'' # a # nat_to_string (length ds) # ds) s
    = Inr (s, [SendPeer a (''DOC'' # nat_to_string (length ds) # ds)])"
  using assms by (simp add: p2p_answer_db_def msg_loop_eq stoul_to_string peers_at_def)

lemma doc_msg_answered:
  assumes "length ds < 2 ^ 64" and "ds \<noteq> []" and "\<forall>d\<in>set ds. e_sha E d \<notin> set hashes"
  shows "p2p_answer_p2p E reach port hashes (ident # ''DOC'' # nat_to_string (length ds) # ds) s
    = Inr (s, [SendDb (''INS'' # nat_to_string (length ds) # ds)])"
  using assms
  by (simp add: p2p_answer_p2p_def msg_loop_eq fold_keep_new_doc sha256_def filter_id_conv)

lemma ins_msg_served:
  assumes "length ds < 2 ^ 64" and "ds \<noteq> []" and "\<forall>d\<in>set ds. e_sha E d \<notin> set (my_hashes s)"
    and "db_put_docs E db_name ds (ds_db s) = Inr (n, db')"
  shows "db_peer_op E db_name (''INS'' # nat_to_string (length ds) # ds) s
    = Inr (db_update_hashes E db_name (s\<lparr>ds_db := db'\<rparr>), [ToP2p [''NEW'']])"
  using assms
  by (simp add: db_peer_op_def msg_loop_eq fold_keep_unknown filter_id_conv)

section \<open>The round\<close>

text \<open>What A's database thread finds for a request, and what inserting it does at B.\<close>

lemma lookup_lacking:
  assumes "linked E rr view A B"
  obtains ds where "db_get_docs E (d_name A) (lacking A B) (ds_db (d_db A)) = Inr ds"
    "set ds \<subseteq> entries (view (ds_db (d_db A)))" "map (e_sha E) ds = lacking A B"
proof -
  have inv: "db_thread_inv E rr view (d_name A) (d_db A)" using assms by (simp add: linked_def)
  then have ok: "db_ok E rr view (d_name A) (ds_db (d_db A))"
    and my: "set (my_hashes (d_db A)) = stored E view (ds_db (d_db A))"
    by (simp_all add: db_thread_inv_def)
  note laws = db_okD [OF ok] and env = ok [unfolded db_ok_def, THEN conjunct1]
  have len: "\<forall>h\<in>set (lacking A B). length h = 32"
    using my env by (auto simp: set_lacking stored_def env_laws_def)
  have "filter (\<lambda>h. h \<in> stored E view (ds_db (d_db A))) (lacking A B) = lacking A B"
    using my by (auto simp: filter_id_conv set_lacking)
  with db_get_docs_correct [OF laws len] that show thesis by auto
qed

lemma insert_lacking:
  assumes "linked E rr view A B" and "no_faults E" and "map (e_sha E) ds = lacking A B"
    and "\<forall>d\<in>set ds. peer_entry E d = Some d"
  obtains n db' where "db_put_docs E (d_name B) ds (ds_db (d_db B)) = Inr (n, db')"
    "db_ok E rr view (d_name B) db'"
    "stored E view db' = stored E view (ds_db (d_db B)) \<union> stored E view (ds_db (d_db A))"
proof -
  have invs: "db_thread_inv E rr view (d_name A) (d_db A)" "db_thread_inv E rr view (d_name B) (d_db B)"
    using assms by (simp_all add: linked_def)
  then have ok: "db_ok E rr view (d_name B) (ds_db (d_db B))"
    and my: "set (my_hashes (d_db A)) = stored E view (ds_db (d_db A))"
      "set (my_hashes (d_db B)) = stored E view (ds_db (d_db B))"
    by (simp_all add: db_thread_inv_def)
  have "\<forall>d\<in>set ds. readable E d" using assms(4) peer_entry_readable by blast
  then obtain n db' where put: "db_put_docs E (d_name B) ds (ds_db (d_db B)) = Inr (n, db')"
    using db_put_docs_total [of ds E "d_name B" "ds_db (d_db B)"] by auto
  have "stored E view db' = stored E view (ds_db (d_db B)) \<union> peer_digests E ds"
    using db_put_docs_stored [OF db_ok_laws [OF ok] db_okD(3) [OF ok] put] assms(2) by blast
  also have "peer_digests E ds = set (lacking A B)"
    using peer_digests_canonical [OF assms(4)] assms(3) by (metis set_map)
  also have "stored E view (ds_db (d_db B)) \<union> set (lacking A B)
      = stored E view (ds_db (d_db B)) \<union> stored E view (ds_db (d_db A))"
    using my by (auto simp: set_lacking)
  finally show thesis using that [OF put store.put_docs_ok [OF ok put]] by simp
qed

lemma sync_round_correct:
  assumes L: "linked E rr view A B" and nf: "no_faults E"
    and canon: "\<forall>e\<in>entries (view (ds_db (d_db A))). peer_entry E e = Some e"
  shows "\<exists>A' B'. sync_round E reach A B = Inr (A', B') \<and> d_db A' = d_db A \<and>
    db_thread_inv E rr view (d_name B) (d_db B') \<and>
    stored E view (ds_db (d_db B'))
      = stored E view (ds_db (d_db B)) \<union> stored E view (ds_db (d_db A))"
proof -
  obtain B1 where B1: "answer_peers E reach B
      (routed (d_addr A) [hash_msg (d_port A) (my_hashes (d_db A))]) = Inr (B1, [])"
    "d_port B1 = d_port B" "d_name B1 = d_name B" "d_db B1 = d_db B"
    "p2p_inv (d_port B) (d_p2p B1)" "my_peers (d_p2p B1) = my_peers (d_p2p B)"
    "db_requests (d_p2p B1) = req_of (d_addr A) (lacking A B)"
    using answer_announce [OF L] by blast
  let ?A1 = "A\<lparr>d_p2p := (d_p2p A)\<lparr>to_bcast_hashes := False\<rparr>\<rparr>"
  let ?B2 = "B1\<lparr>d_p2p := (d_p2p B1)\<lparr>db_requests := [], to_send_db_requests := False\<rparr>\<rparr>"
  let ?ws = "lacking A B"
  have peers: "d_addr A \<in> set (my_peers (d_p2p B1))" "d_addr B \<in> set (my_peers (d_p2p A))"
    and invB: "db_thread_inv E rr view (d_name B) (d_db B)"
    and invA: "db_thread_inv E rr view (d_name A) (d_db A)"
    using L B1(6) by (simp_all add: linked_def)
  have ask: "ask B1 = Inr (?B2, if ?ws = [] then [] else [SendPeer (d_addr A) (req_msg (d_port B) ?ws)])"
    using ask_pending [OF _ B1(7) peers(1)] B1(2,5) by simp
  have ann: "announce A = (?A1, snd (announce A))"
    using announce_linked(1) [OF L] by (metis prod.collapse)
  have start: "sync_round E reach A B =
      bindr (answer_peers E reach ?A1 (routed (d_addr B) (to_peer (d_addr A)
        (if ?ws = [] then [] else [SendPeer (d_addr A) (req_msg (d_port B) ?ws)])))) (\<lambda>(A2, o4).
      bindr (serve_db E A2 (to_db o4)) (\<lambda>(A3, o5).
      bindr (answer_db E A3 (to_p2p o5)) (\<lambda>(A4, o6).
      bindr (answer_peers E reach ?B2 (routed (d_addr A) (to_peer (d_addr B) o6))) (\<lambda>(B3, o7).
      bindr (serve_db E B3 (to_db o7)) (\<lambda>(B4, o8). Inr (A4, B4))))))"
    unfolding sync_round_def by (subst ann) (simp add: announce_linked(2) [OF L] B1(1) ask)
  show ?thesis
  proof (cases "?ws = []")
    case True
    then have "set (my_hashes (d_db A)) \<subseteq> set (my_hashes (d_db B))" using set_lacking [of A B] by auto
    then have "stored E view (ds_db (d_db A)) \<subseteq> stored E view (ds_db (d_db B))"
      using invA invB by (simp add: db_thread_inv_def)
    moreover have "sync_round E reach A B = Inr (?A1, ?B2)"
      unfolding start using True by (simp add: answer_peers_def answer_db_def serve_db_def routed_def)
    ultimately show ?thesis using invB B1(4) by (auto simp: Un_absorb2)
  next
    case False
    obtain ds where ds: "db_get_docs E (d_name A) ?ws (ds_db (d_db A)) = Inr ds"
      "set ds \<subseteq> entries (view (ds_db (d_db A)))" "map (e_sha E) ds = ?ws"
      using lookup_lacking [OF L] .
    have canon': "\<forall>d\<in>set ds. peer_entry E d = Some d" using ds(2) canon by blast
    obtain n db' where put: "db_put_docs E (d_name B) ds (ds_db (d_db B)) = Inr (n, db')"
      "db_ok E rr view (d_name B) db'"
      "stored E view db' = stored E view (ds_db (d_db B)) \<union> stored E view (ds_db (d_db A))"
      using insert_lacking [OF L nf ds(3) canon'] .
    have ws: "length ?ws < 2 ^ 64" using L length_lacking [of A B] by (simp add: linked_def)
    have dsl: "length ds = length ?ws" using ds(3) by (metis length_map)
    then have dlen: "length ds < 2 ^ 64" "ds \<noteq> []" using ws False by auto
    have new: "\<forall>d\<in>set ds. e_sha E d \<notin> set (my_hashes (d_db B))"
    proof
      fix d assume "d \<in> set ds"
      then have "e_sha E d \<in> set ?ws" using ds(3) by (metis image_eqI set_map)
      then show "e_sha E d \<notin> set (my_hashes (d_db B))" by (simp add: set_lacking)
    qed
    let ?B4 = "?B2\<lparr>d_db := db_update_hashes E (d_name B) ((d_db B)\<lparr>ds_db := db'\<rparr>)\<rparr>"
    have "sync_round E reach A B = Inr (?A1, ?B4)"
      unfolding start using False peers B1(2,3,4)
      by (simp add: answer_peers_def answer_db_def serve_db_def routed_def
          req_msg_answered [OF ws] get_msg_served [OF ws _ ds(1)] put_msg_answered [OF dlen]
          doc_msg_answered [OF dlen new] ins_msg_served [OF dlen new put(1)])
    moreover have "db_thread_inv E rr view (d_name B) (d_db ?B4)"
      using put(2) by (simp add: db_update_hashes_inv)
    ultimately show ?thesis using put(3) by auto
  qed
qed

end
