(* ===== verification/Daemon_Main.thy ===== *)
theory Daemon_Main
  imports Exchange Zmq_Util Usage
begin

text \<open>
  src/daemon.cpp: the options of the daemon, their validation, the detached mode, the keys of the RPC channel
  and the start of the two threads, composed to the main function. getopt_long is the C library's: the model
  starts from the options it returns, in order, and the arguments it leaves. The build, the system calls,
  the files and the key pair zmqpp generates are parameters.
\<close>

datatype daemon_opt =
    ArgDb string
  | ArgDetach
  | ArgHelp
  | ArgLogFile string
  | ArgLogLevel string
  | ArgMaxLogFileSize string
  | ArgMaxLogFiles string
  | ArgPeer string
  | ArgRpcPort string
  | ArgRpcSecure
  | ArgRpcServerPublicKeyFile string
  | ArgRpcServerSecretKeyFile string
  | ArgRpcAuthorizedClientsFile string
  | ArgRpcServerSavePublicKeyFile string
  | ArgP2pPort string
  | ArgVersion
  | ArgUnknown

record daemon_conf =
  rpc_port :: int
  default_p2p_port :: int
  conf_p2p_port :: int
  use_strict_ports :: bool
  conf_db_name :: string
  logfile :: string
  log_level :: string
  max_log_file_size :: nat
  max_log_files :: nat
  init_peers :: "string list"
  rpc_server_public_key_file :: string
  rpc_server_secret_key_file :: string
  rpc_authorized_clients_file :: string
  rpc_server_save_public_key_file :: string
  detach :: bool
  rpc_secure :: bool
  num_err :: nat

definition daemon_defaults :: "build_info \<Rightarrow> daemon_conf" where
  "daemon_defaults B =
     \<lparr> rpc_port = 55090, default_p2p_port = 65090, conf_p2p_port = 65090, use_strict_ports = False,
       conf_db_name = ''piac.db'', logfile = daemon_executable B @ ''.log'', log_level = ''4'',
       max_log_file_size = MAX_LOG_FILE_SIZE B, max_log_files = MAX_LOG_FILES B, init_peers = [],
       rpc_server_public_key_file = [], rpc_server_secret_key_file = [],
       rpc_authorized_clients_file = [], rpc_server_save_public_key_file = ''stonehouse.pub'',
       detach = False, rpc_secure = False, num_err = 0 \<rparr>"

section \<open>Options\<close>

text \<open>
  The level is read into an int that is not initialised: an argument of blanks leaves it so.
\<close>

definition clamp_level :: "string \<Rightarrow> string res" where
  "clamp_level arg =
     (case stream_int arg of
        None \<Rightarrow> Inl Undefined
      | Some level \<Rightarrow>
          let level1 = (if level < 0 then 0 else level);
              level2 = (if level1 > 4 then 4 else level1)
          in Inr (int_to_string level2))"

definition usage_of :: "build_info \<Rightarrow> daemon_conf \<Rightarrow> string" where
  "usage_of B c =
     daemon_usage B (conf_db_name c) (logfile c) (rpc_server_save_public_key_file c) (rpc_port c) (conf_p2p_port c)"

fun daemon_option :: "build_info \<Rightarrow> daemon_opt \<Rightarrow> daemon_conf \<Rightarrow> daemon_conf prog" where
  "daemon_option B (ArgDb a) c = go_on (c\<lparr>conf_db_name := a\<rparr>)"
| "daemon_option B ArgDetach c = go_on (c\<lparr>detach := True\<rparr>)"
| "daemon_option B ArgHelp c =
     halt [Out (version_of (daemon_executable B) B @ eol @ eol @ usage_of B c)] EXIT_SUCCESS"
| "daemon_option B (ArgLogFile a) c = go_on (c\<lparr>logfile := a\<rparr>)"
| "daemon_option B (ArgLogLevel a) c = andthen (attempt (clamp_level a)) (\<lambda>l. go_on (c\<lparr>log_level := l\<rparr>))"
| "daemon_option B (ArgMaxLogFileSize a) c =
     go_on (case stream_uint 64 a of None \<Rightarrow> c | Some n \<Rightarrow> c\<lparr>max_log_file_size := n\<rparr>)"
| "daemon_option B (ArgMaxLogFiles a) c =
     go_on (case stream_uint 64 a of None \<Rightarrow> c | Some n \<Rightarrow> c\<lparr>max_log_files := n\<rparr>)"
| "daemon_option B (ArgPeer a) c = go_on (c\<lparr>init_peers := init_peers c @ [a]\<rparr>)"
| "daemon_option B (ArgRpcPort a) c =
     andthen (attempt (atoi a)) (\<lambda>p. go_on (c\<lparr>rpc_port := p, use_strict_ports := True\<rparr>))"
| "daemon_option B ArgRpcSecure c = go_on (c\<lparr>rpc_secure := True\<rparr>)"
| "daemon_option B (ArgRpcServerPublicKeyFile a) c = go_on (c\<lparr>rpc_server_public_key_file := a\<rparr>)"
| "daemon_option B (ArgRpcServerSecretKeyFile a) c = go_on (c\<lparr>rpc_server_secret_key_file := a\<rparr>)"
| "daemon_option B (ArgRpcAuthorizedClientsFile a) c = go_on (c\<lparr>rpc_authorized_clients_file := a\<rparr>)"
| "daemon_option B (ArgRpcServerSavePublicKeyFile a) c =
     go_on (c\<lparr>rpc_server_save_public_key_file := a\<rparr>)"
| "daemon_option B (ArgP2pPort a) c =
     andthen (attempt (atoi a)) (\<lambda>p.
       go_on (c\<lparr>default_p2p_port := p, conf_p2p_port := p, use_strict_ports := True\<rparr>))"
| "daemon_option B ArgVersion c = halt [Out (version_of (daemon_executable B) B @ eol)] EXIT_SUCCESS"
| "daemon_option B ArgUnknown c = go_on (c\<lparr>num_err := num_err c + 1\<rparr>)"

fun daemon_options :: "build_info \<Rightarrow> daemon_opt list \<Rightarrow> daemon_conf \<Rightarrow> daemon_conf prog" where
  "daemon_options B [] c = go_on c"
| "daemon_options B (a # as) c = andthen (daemon_option B a c) (daemon_options B as)"

text \<open>
  The checks after the options, in the order of the code; \<open>argv\<close> is the command line and \<open>left_args\<close> are
  the arguments getopt_long did not use.
\<close>

definition daemon_validate :: "build_info \<Rightarrow> string list \<Rightarrow> string list \<Rightarrow> daemon_conf \<Rightarrow> unit prog" where
  "daemon_validate B argv left_args c =
     (if left_args \<noteq> [] then halt [invalid_options argv left_args] EXIT_FAILURE
      else if num_err c \<noteq> 0 then halt [parse_errors argv (usage_of B c)] EXIT_FAILURE
      else if (rpc_server_public_key_file c \<noteq> [] \<or> rpc_server_secret_key_file c \<noteq> [] \<or>
               rpc_authorized_clients_file c \<noteq> []) \<and> \<not> rpc_secure c
      then halt [ErrOut (''Need --rpc-secure to secure RPC channel.'' @ eol)] EXIT_FAILURE
      else if rpc_server_public_key_file c \<noteq> [] \<and> rpc_server_secret_key_file c = [] \<or>
              rpc_server_public_key_file c = [] \<and> rpc_server_secret_key_file c \<noteq> []
      then halt [ErrOut (''Need --rpc-authorized-clients-file for authorized RPC clients.'' @ eol)] EXIT_FAILURE
      else go_on ())"

text \<open>\<open>fork\<close> and \<open>setsid\<close> are the results of the two system calls.\<close>

definition daemon_detach :: "int \<Rightarrow> int \<Rightarrow> daemon_conf \<Rightarrow> unit prog" where
  "daemon_detach fork setsid c =
     (if \<not> detach c then go_on ()
      else if fork > 0 then
        halt [Out (''Running in daemon mode. Forked PID: '' @ int_to_string fork @
               ''. See the log file for details.'' @ eol)] EXIT_SUCCESS
      else if fork < 0 then halt [] EXIT_FAILURE
      else if setsid < 0 then
        halt [ErrOut (''Could not generate session ID for child process'' @ eol)] EXIT_FAILURE
      else emit [CloseTerminal, CatchSignals])"

text \<open>A detached daemon that gets SIGINT or SIGTERM.\<close>

definition daemon_signal_handler :: "unit prog" where
  "daemon_signal_handler = halt [] EXIT_SUCCESS"

definition daemon_welcome :: "build_info \<Rightarrow> cli_out list" where
  "daemon_welcome B =
     [Out (version_of (daemon_executable B) B @ eol),
      Out (''Welcome to piac, where anyone can buy and sell anything privately and'' @ eol @
        ''securely using the private digital cash, monero. For more information'' @ eol @
        ''on monero, see https://getmonero.org. This is the server of piac. It'' @ eol @
        ''can run standalone or as a daemon in the background using --detach.'' @ eol @
        ''You can use '' @ cli_executable B @ '' to interact with it.'' @ eol)]"

section \<open>Keys of the RPC channel\<close>

text \<open>\<open>f >> key\<close>: the first word of the file; the key is left when there is none.\<close>

definition first_word :: "string \<Rightarrow> string" where
  "first_word s = takeWhile (\<lambda>c. \<not> isspace c) (dropWhile isspace s)"

definition load_server_key :: "bool \<Rightarrow> files \<Rightarrow> string \<Rightarrow> string \<Rightarrow> string prog" where
  "load_server_key dbg fs filename key =
     (if filename = [] then go_on key
      else case fs filename of
        None \<Rightarrow> andthen (emit [cannot_open ''reading'' filename]) (\<lambda>_. go_on key)
      | Some content \<Rightarrow>
          let key' = (if first_word content = [] then key else first_word content)
          in andthen (attempt (cassert dbg (length key' = 40))) (\<lambda>_. go_on key'))"

definition load_client_keys :: "files \<Rightarrow> string \<Rightarrow> string list \<Rightarrow> string list prog" where
  "load_client_keys fs filename keys =
     (if filename = [] then go_on keys
      else case fs filename of
        None \<Rightarrow> halt [cannot_open ''reading'' filename] EXIT_FAILURE
      | Some content \<Rightarrow> go_on (keys @ filter (\<lambda>key. length key = 40) (ws_pieces content)))"

definition save_public_key ::
  "(string \<Rightarrow> bool) \<Rightarrow> string \<Rightarrow> string \<Rightarrow> files \<Rightarrow> files \<times> cli_out list" where
  "save_public_key writable filename key fs =
     (if filename = [] then (fs, [])
      else if writable filename then (fs(filename \<mapsto> key), [])
      else (fs, [cannot_open ''writing'' filename]))"

record rpc_setup =
  rpc_ironhouse :: bool
  rpc_server_keys :: keypair
  rpc_authorized_clients :: "string list"
  rpc_files :: files

text \<open>
  \<open>generated\<close>: the pair that zmqpp::curve::generate_keypair returns. The fallback without the daemon's own
  keys or without a list of clients; and the whole set-up.
\<close>

definition rpc_fallback ::
  "(string \<Rightarrow> bool) \<Rightarrow> keypair \<Rightarrow> files \<Rightarrow> daemon_conf \<Rightarrow> keypair \<Rightarrow> string list \<Rightarrow> rpc_setup prog" where
  "rpc_fallback writable generated fs c keys clients =
     (if secret_key keys = [] \<or> public_key keys = [] \<or> clients = [] then
        if secret_key keys = [] \<or> public_key keys = [] then
          (case save_public_key writable (rpc_server_save_public_key_file c) (public_key generated) fs of
             (fs', acts) \<Rightarrow> andthen (emit acts) (\<lambda>_.
               go_on \<lparr> rpc_ironhouse = False, rpc_server_keys = generated,
                       rpc_authorized_clients = [], rpc_files = fs' \<rparr>))
        else go_on \<lparr> rpc_ironhouse = False, rpc_server_keys = keys, rpc_authorized_clients = [], rpc_files = fs \<rparr>
      else go_on \<lparr> rpc_ironhouse = True, rpc_server_keys = keys, rpc_authorized_clients = clients, rpc_files = fs \<rparr>)"

definition setup_rpc ::
  "bool \<Rightarrow> (string \<Rightarrow> bool) \<Rightarrow> keypair \<Rightarrow> files \<Rightarrow> daemon_conf \<Rightarrow> rpc_setup prog" where
  "setup_rpc dbg writable generated fs c =
     (if \<not> rpc_secure c then
        go_on \<lparr> rpc_ironhouse = True, rpc_server_keys = \<lparr>public_key = [], secret_key = []\<rparr>,
                rpc_authorized_clients = [], rpc_files = fs \<rparr>
      else
        andthen (load_server_key dbg fs (rpc_server_public_key_file c) []) (\<lambda>pub.
        andthen (load_server_key dbg fs (rpc_server_secret_key_file c) []) (\<lambda>sec.
        andthen (load_client_keys fs (rpc_authorized_clients_file c) []) (\<lambda>clients.
          rpc_fallback writable generated fs c \<lparr>public_key = pub, secret_key = sec\<rparr> clients))))"

definition ironhouse_text :: string where
  "ironhouse_text =
     ''Connections to this server are secure: Only authenticated connections are accepted.'' @ eol"

definition stonehouse_text :: string where
  "stonehouse_text =
     ''Connections to this server are secure but not authenticated: ALL client connections are accepted.'' @ eol"

definition grasslands_text :: string where
  "grasslands_text = ''WARNING: Connections to this server are not secure'' @ eol"

definition echo_rpc :: "daemon_conf \<Rightarrow> rpc_setup \<Rightarrow> cli_out list" where
  "echo_rpc c r =
     (if rpc_secure c then
        if rpc_ironhouse r then [Out ironhouse_text]
        else [Out stonehouse_text, Out (''RPC server public key: '' @ public_key (rpc_server_keys r) @ eol)]
      else [Out grasslands_text])"

section \<open>Start\<close>

text \<open>
  The initial peers are the keys of a hash map; the p2p thread binds its port, which may move, and then
  makes the ports from the default up to its own its peers.
\<close>

definition start_p2p ::
  "(int \<Rightarrow> bool) \<Rightarrow> (string \<Rightarrow> bool) \<Rightarrow> daemon_conf \<Rightarrow> (int \<times> p2p_state \<times> p2p_out list) res" where
  "start_p2p bindable reach c =
     bindr (try_bind bindable (conf_p2p_port c) 10 (use_strict_ports c)) (\<lambda>b.
       let p = (case b of Bound q \<Rightarrow> q | GaveUp q \<Rightarrow> q)
       in bindr (p2p_thread_init reach (default_p2p_port c) p (uset_of (init_peers c))) (\<lambda>(s, out).
            Inr (p, s, out)))"

text \<open>
  The start of the database thread: the digests are read, the socket of the clients gets its options (ZeroMQ
  may reject the secret key, which nothing catches) and is bound. \<open>key_ok\<close>: the keys ZeroMQ accepts.
\<close>

definition start_db ::
  "'db env \<Rightarrow> (string \<Rightarrow> bool) \<Rightarrow> (int \<Rightarrow> bool) \<Rightarrow> daemon_conf \<Rightarrow> rpc_setup \<Rightarrow> 'db
    \<Rightarrow> (int \<times> 'db db_state \<times> string list) res" where
  "start_db E key_ok bindable c r db =
     (let s = db_thread_init E (conf_db_name c) db;
          domains = curve_domains (rpc_secure c) (rpc_authorized_clients r)
      in if rpc_secure c \<and> \<not> key_ok (secret_key (rpc_server_keys r)) then Inl ZmqError
         else bindr (try_bind bindable (rpc_port c) 10 (use_strict_ports c)) (\<lambda>b.
           let p = (case b of Bound q \<Rightarrow> q | GaveUp q \<Rightarrow> q) in Inr (p, s, domains)))"

section \<open>The main function\<close>

text \<open>
  The world a daemon starts in: \<open>w_p2p_free\<close> and \<open>w_rpc_free\<close> are the ports the two sockets can be bound to
  at the time, \<open>w_db\<close> is what each database holds.
\<close>

record 'db world =
  w_files :: files
  w_writable :: "string \<Rightarrow> bool"
  w_generated :: keypair
  w_key_ok :: "string \<Rightarrow> bool"
  w_fork :: int
  w_setsid :: int
  w_p2p_free :: "int \<Rightarrow> bool"
  w_rpc_free :: "int \<Rightarrow> bool"
  w_reach :: "string \<Rightarrow> bool"
  w_db :: "string \<Rightarrow> 'db"

text \<open>A daemon whose threads have started and enter their loops.\<close>

record 'db daemon_run =
  run_conf :: daemon_conf
  run_rpc :: rpc_setup
  run_p2p_port :: int
  run_p2p :: p2p_state
  run_connects :: "p2p_out list"
  run_rpc_port :: int
  run_db :: "'db db_state"
  run_domains :: "string list"

text \<open>
  Whom the database thread lets in, by the address of the connection and the client's key: zmqpp documents
  that once an address is allowed every other one is denied, and that a curve client whose address is
  allowed needs a configured key, unless any key will do. Whether ZeroMQ asks the authenticator at all about
  a client on an open channel depends on its version and is a parameter (\<open>zap_null\<close>).
\<close>

definition rpc_allowed :: "string list" where
  "rpc_allowed = [''127.0.0.1'']"

definition admits :: "bool \<Rightarrow> 'db daemon_run \<Rightarrow> string \<Rightarrow> string \<Rightarrow> bool" where
  "admits zap_null r addr client \<longleftrightarrow>
     (if rpc_secure (run_conf r) then
        addr \<in> set rpc_allowed \<and>
        (''CURVE_ALLOW_ANY'' \<in> set (run_domains r) \<or> client \<in> set (run_domains r))
      else zap_null \<longrightarrow> addr \<in> set rpc_allowed)"

definition daemon_setup ::
  "build_info \<Rightarrow> 'db env \<Rightarrow> 'db world \<Rightarrow> string list \<Rightarrow> daemon_opt list \<Rightarrow> string list
    \<Rightarrow> (daemon_conf \<times> rpc_setup) prog" where
  "daemon_setup B E W argv opts left_args =
     andthen (daemon_options B opts (daemon_defaults B)) (\<lambda>c.
     andthen (daemon_validate B argv left_args c) (\<lambda>_.
     andthen (daemon_detach (w_fork W) (w_setsid W) c) (\<lambda>_.
     andthen (emit (daemon_welcome B @
       setup_logging (logfile c) (log_level c) False (max_log_file_size c) (max_log_files c))) (\<lambda>_.
     andthen (setup_rpc (e_dbg E) (w_writable W) (w_generated W) (w_files W) c) (\<lambda>r.
     andthen (emit (echo_rpc c r)) (\<lambda>_. go_on (c, r)))))))"

definition daemon_threads ::
  "'db env \<Rightarrow> 'db world \<Rightarrow> daemon_conf \<Rightarrow> rpc_setup \<Rightarrow> 'db daemon_run prog" where
  "daemon_threads E W c r =
     andthen (attempt (start_p2p (w_p2p_free W) (w_reach W) c)) (\<lambda>(p, s, out).
     andthen (attempt (start_db E (w_key_ok W) (w_rpc_free W) c r (w_db W (conf_db_name c)))) (\<lambda>(q, d, domains).
     andthen (emit [Out (''Bound to RPC port '' @ int_to_string q @ eol)]) (\<lambda>_.
       go_on \<lparr> run_conf = c, run_rpc = r, run_p2p_port = p, run_p2p = s, run_connects = out,
               run_rpc_port = q, run_db = d, run_domains = domains \<rparr>)))"

definition daemon_main ::
  "build_info \<Rightarrow> 'db env \<Rightarrow> 'db world \<Rightarrow> string list \<Rightarrow> daemon_opt list \<Rightarrow> string list
    \<Rightarrow> 'db daemon_run prog" where
  "daemon_main B E W argv opts left_args =
     andthen (daemon_setup B E W argv opts left_args) (\<lambda>(c, r). daemon_threads E W c r)"

section \<open>Lemmas\<close>

lemma rpc_fallback_value:
  assumes "rpc_fallback writable gen fs c keys clients = Inr (acts, Inr r)"
  shows "rpc_ironhouse r \<longleftrightarrow> rpc_authorized_clients r \<noteq> []"
    and "set (rpc_authorized_clients r) \<subseteq> set clients"
    and "public_key keys = [] \<or> secret_key keys = [] \<Longrightarrow> rpc_authorized_clients r = []"
  using assms by (auto simp: rpc_fallback_def andthen_value split: if_splits prod.splits)

lemma load_client_keys_value:
  assumes "load_client_keys fs filename [] = Inr (acts, Inr keys)" and "k \<in> set keys"
  shows "length k = 40 \<and> (\<exists>content. fs filename = Some content \<and> k \<in> set (ws_pieces content))"
  using assms by (auto simp: load_client_keys_def split: if_splits option.splits)

lemma setup_rpc_secure:
  assumes "setup_rpc dbg writable gen fs c = Inr (acts, Inr r)" and "rpc_secure c"
  obtains pub sec clients acts1 acts2 acts3 acts4 where
    "load_server_key dbg fs (rpc_server_public_key_file c) [] = Inr (acts1, Inr pub)"
    "load_server_key dbg fs (rpc_server_secret_key_file c) [] = Inr (acts2, Inr sec)"
    "load_client_keys fs (rpc_authorized_clients_file c) [] = Inr (acts3, Inr clients)"
    "rpc_fallback writable gen fs c \<lparr>public_key = pub, secret_key = sec\<rparr> clients = Inr (acts4, Inr r)"
  using assms by (auto simp: setup_rpc_def andthen_value)

lemma setup_rpc_ironhouse:
  assumes "setup_rpc dbg writable gen fs c = Inr (acts, Inr r)" and "rpc_secure c"
  shows "rpc_ironhouse r \<longleftrightarrow> rpc_authorized_clients r \<noteq> []"
  using setup_rpc_secure [OF assms] rpc_fallback_value(1) by metis

lemma setup_rpc_clients:
  assumes "setup_rpc dbg writable gen fs c = Inr (acts, Inr r)" and "rpc_secure c"
    and "k \<in> set (rpc_authorized_clients r)"
  shows "length k = 40 \<and> (\<exists>content. fs (rpc_authorized_clients_file c) = Some content \<and> k \<in> set (ws_pieces content))"
proof (rule setup_rpc_secure [OF assms(1,2)])
  fix pub sec clients acts3 acts4
  assume "load_client_keys fs (rpc_authorized_clients_file c) [] = Inr (acts3, Inr clients)"
    and "rpc_fallback writable gen fs c \<lparr>public_key = pub, secret_key = sec\<rparr> clients = Inr (acts4, Inr r)"
  with load_client_keys_value rpc_fallback_value(2) assms(3) show ?thesis by blast
qed

lemma log_level_range:
  assumes "clamp_level a = Inr l"
  shows "\<exists>n\<in>{0..4}. l = int_to_string n"
  using assms by (auto simp: clamp_level_def Let_def split: option.splits)

lemma daemon_main_value:
  assumes "daemon_main B E W argv opts left_args = Inr (acts, Inr r)"
  obtains acts1 acts2 out where
    "daemon_setup B E W argv opts left_args = Inr (acts1, Inr (run_conf r, run_rpc r))"
    "start_p2p (w_p2p_free W) (w_reach W) (run_conf r) = Inr (run_p2p_port r, run_p2p r, run_connects r)"
    "start_db E (w_key_ok W) (w_rpc_free W) (run_conf r) (run_rpc r) (w_db W (conf_db_name (run_conf r)))
      = Inr (run_rpc_port r, run_db r, run_domains r)"
  using assms by (auto simp: daemon_main_def daemon_threads_def andthen_value split: prod.splits)

lemma start_p2p_value:
  assumes "start_p2p bindable reach c = Inr (p, s, out)"
  shows "p2p_thread_init reach (default_p2p_port c) p (uset_of (init_peers c)) = Inr (s, out)"
  using assms by (auto simp: start_p2p_def bindr_Inr_conv Let_def)

lemma start_db_value:
  assumes "start_db E key_ok bindable c r db = Inr (q, s, domains)"
  shows "s = db_thread_init E (conf_db_name c) db" and "domains = curve_domains (rpc_secure c) (rpc_authorized_clients r)"
    and "rpc_secure c \<Longrightarrow> key_ok (secret_key (rpc_server_keys r))"
  using assms by (auto simp: start_db_def bindr_Inr_conv Let_def split: if_splits)

text \<open>What a start prints. The options print nothing when main goes on; the keys only complain.\<close>

lemma daemon_options_silent:
  "daemon_options B opts c = Inr (acts, Inr c') \<Longrightarrow> acts = []"
proof (induction opts arbitrary: c acts)
  case (Cons a opts)
  then obtain c1 acts1 acts2 where "daemon_option B a c = Inr (acts1, Inr c1)"
    "daemon_options B opts c1 = Inr (acts2, Inr c')" "acts = acts1 @ acts2"
    by (auto simp: andthen_value)
  moreover from this(1) have "acts1 = []" by (cases a) (auto simp: andthen_value)
  ultimately show ?case using Cons.IH by simp
qed simp

lemma daemon_validate_silent: "daemon_validate B argv left_args c = Inr (acts, Inr u) \<Longrightarrow> acts = []"
  by (simp add: daemon_validate_def split: if_splits)

lemma daemon_detach_silent: "daemon_detach fork setsid c = Inr (acts, Inr u) \<Longrightarrow> Out t \<notin> set acts"
  by (auto simp: daemon_detach_def split: if_splits)

lemma load_silent:
  "load_server_key dbg fs filename key = Inr (acts, Inr k) \<Longrightarrow> Out t \<notin> set acts"
  "load_client_keys fs filename keys = Inr (acts, Inr ks) \<Longrightarrow> Out t \<notin> set acts"
  "rpc_fallback writable gen fs c kp clients = Inr (acts, Inr r) \<Longrightarrow> Out t \<notin> set acts"
  by (auto simp: load_server_key_def load_client_keys_def rpc_fallback_def save_public_key_def cannot_open_def
      andthen_value Let_def split: if_splits option.splits)

lemma setup_rpc_silent: "setup_rpc dbg writable gen fs c = Inr (acts, Inr r) \<Longrightarrow> Out t \<notin> set acts"
  using load_silent by (fastforce simp: setup_rpc_def andthen_value split: if_splits)

lemma daemon_main_prints:
  assumes "daemon_main B E W argv opts left_args = Inr (acts, Inr r)"
  shows "Out t \<in> set acts \<longleftrightarrow>
    Out t \<in> set (daemon_welcome B) \<or>
    t = ''Logging to file '' @ [CHR 0x27] @ logfile (run_conf r) @ [CHR 0x27] @ '' at log level '' @ log_level (run_conf r) @ ''.'' @ eol \<or>
    Out t \<in> set (echo_rpc (run_conf r) (run_rpc r)) \<or> t = ''Bound to RPC port '' @ int_to_string (run_rpc_port r) @ eol"
  using assms
  by (auto simp: daemon_main_def daemon_threads_def daemon_setup_def andthen_value setup_logging_def
      dest!: daemon_options_silent daemon_validate_silent dest: daemon_detach_silent setup_rpc_silent split: prod.splits)

lemma daemon_main_announces:
  assumes "daemon_main B E W argv opts left_args = Inr (acts, Inr r)"
  shows "Out ironhouse_text \<in> set acts \<longleftrightarrow> rpc_secure (run_conf r) \<and> rpc_ironhouse (run_rpc r)"
  unfolding daemon_main_prints [OF assms]
  by (auto simp: daemon_welcome_def version_of_def ironhouse_text_def stonehouse_text_def grasslands_text_def echo_rpc_def)

lemma daemon_main_rpc:
  assumes "daemon_main B E W argv opts left_args = Inr (acts, Inr r)"
  obtains acts' where
    "setup_rpc (e_dbg E) (w_writable W) (w_generated W) (w_files W) (run_conf r) = Inr (acts', Inr (run_rpc r))"
    "run_domains r = curve_domains (rpc_secure (run_conf r)) (rpc_authorized_clients (run_rpc r))"
proof (rule daemon_main_value [OF assms])
  fix acts1
  assume "daemon_setup B E W argv opts left_args = Inr (acts1, Inr (run_conf r, run_rpc r))"
    and "start_db E (w_key_ok W) (w_rpc_free W) (run_conf r) (run_rpc r) (w_db W (conf_db_name (run_conf r)))
      = Inr (run_rpc_port r, run_db r, run_domains r)"
  from start_db_value(2) [OF this(2)] this(1) show thesis using that by (auto simp: daemon_setup_def andthen_value)
qed

text \<open>What the files of a configuration hold: a key, and the keys of the clients.\<close>

definition key_in :: "files \<Rightarrow> string \<Rightarrow> string" where
  "key_in fs f = (if f = [] then [] else case fs f of None \<Rightarrow> [] | Some content \<Rightarrow> first_word content)"

definition clients_in :: "files \<Rightarrow> string \<Rightarrow> string list" where
  "clients_in fs f =
     (if f = [] then []
      else case fs f of None \<Rightarrow> [] | Some content \<Rightarrow> filter (\<lambda>key. length key = 40) (ws_pieces content))"

lemma load_keys_in:
  "load_server_key dbg fs f [] = Inr (acts, Inr k) \<Longrightarrow> k = key_in fs f"
  "load_client_keys fs f [] = Inr (acts', Inr ks) \<Longrightarrow> ks = clients_in fs f"
  by (auto simp: load_server_key_def load_client_keys_def key_in_def clients_in_def andthen_value Let_def
      split: if_splits option.splits)

text \<open>The set-up of a secured channel, by what the files hold.\<close>

lemma setup_rpc_files:
  assumes "setup_rpc dbg writable gen fs c = Inr (acts, Inr r)" and "rpc_secure c"
    and "pub = key_in fs (rpc_server_public_key_file c)" and "sec = key_in fs (rpc_server_secret_key_file c)"
    and "listed = clients_in fs (rpc_authorized_clients_file c)"
  shows "rpc_ironhouse r \<longleftrightarrow> pub \<noteq> [] \<and> sec \<noteq> [] \<and> listed \<noteq> []"
    and "rpc_server_keys r = (if pub = [] \<or> sec = [] then gen else \<lparr>public_key = pub, secret_key = sec\<rparr>)"
    and "rpc_authorized_clients r = (if rpc_ironhouse r then listed else [])"
    and "''CURVE_ALLOW_ANY'' \<notin> set listed"
proof -
  from setup_rpc_secure [OF assms(1,2)] obtain acts4 where
    f: "rpc_fallback writable gen fs c \<lparr>public_key = pub, secret_key = sec\<rparr> listed = Inr (acts4, Inr r)"
    using load_keys_in assms(3-5) by metis
  from f show "rpc_ironhouse r \<longleftrightarrow> pub \<noteq> [] \<and> sec \<noteq> [] \<and> listed \<noteq> []"
    and "rpc_server_keys r = (if pub = [] \<or> sec = [] then gen else \<lparr>public_key = pub, secret_key = sec\<rparr>)"
    and "rpc_authorized_clients r = (if rpc_ironhouse r then listed else [])"
    by (auto simp: rpc_fallback_def andthen_value split: if_splits prod.splits)
  have "\<forall>k\<in>set listed. length k = 40"
    by (auto simp: assms(5) clients_in_def split: if_splits option.splits)
  then show "''CURVE_ALLOW_ANY'' \<notin> set listed" by auto
qed

end
