(* ===== verification/Daemon_Network.thy ===== *)
theory Daemon_Network
  imports Daemon_Main Convergence
begin

text \<open>
  From main to the network: the threads that \<open>daemon_main\<close> starts are a node of the network in its first
  state, whatever the options and the files are.
\<close>

definition daemon_node :: "'db daemon_run \<Rightarrow> 'db node" where
  "daemon_node r = \<lparr> n_p2p = run_p2p r, n_db = run_db r, n_to_db = [], n_to_p2p = [] \<rparr>"

text \<open>Daemons by the port their p2p thread is bound to; nothing is on the wires yet.\<close>

definition daemons_net :: "(int \<Rightarrow> 'db daemon_run option) \<Rightarrow> 'db net" where
  "daemons_net runs = \<lparr> nt_nodes = (\<lambda>i. map_option daemon_node (runs i)), nt_wire = (\<lambda>i a. []) \<rparr>"

text \<open>A daemon that main started on a database of written ads.\<close>

definition started_by_main ::
  "build_info \<Rightarrow> 'db env \<Rightarrow> (double \<Rightarrow> double) \<Rightarrow> ('db \<Rightarrow> xview) \<Rightarrow> (string \<Rightarrow> bool) \<Rightarrow> 'db daemon_run \<Rightarrow> bool" where
  "started_by_main B E rr view reach r \<longleftrightarrow>
     (\<exists>W argv opts left_args acts. daemon_main B E W argv opts left_args = Inr (acts, Inr r) \<and> w_reach W = reach \<and>
        (let name = conf_db_name (run_conf r) in db_ok E rr view name (w_db W name) \<and> ads_written E view (w_db W name)))"

lemma started_by_main_node:
  assumes "started_by_main B E rr view reach r"
  shows "node_started E rr view reach (conf_db_name (run_conf r)) (run_p2p_port r) (daemon_node r)"
proof -
  let ?c = "run_conf r"
  obtain W argv opts left_args acts where
    main: "daemon_main B E W argv opts left_args = Inr (acts, Inr r)" and W: "w_reach W = reach"
      "db_ok E rr view (conf_db_name ?c) (w_db W (conf_db_name ?c))" "ads_written E view (w_db W (conf_db_name ?c))"
    using assms by (auto simp: started_by_main_def Let_def)
  from daemon_main_value [OF main] have
    "p2p_thread_init reach (default_p2p_port ?c) (run_p2p_port r) (uset_of (init_peers ?c)) = Inr (run_p2p r, run_connects r)"
    "run_db r = db_thread_init E (conf_db_name ?c) (w_db W (conf_db_name ?c))"
    using start_p2p_value start_db_value(1) W(1) by metis+
  with W(2,3) show ?thesis
    unfolding node_started_def daemon_node_def by (metis distinct_uset_of node.select_convs)
qed

lemma daemons_net_started:
  assumes "\<And>i r. runs i = Some r \<Longrightarrow>
    started_by_main B E rr view reach r \<and> run_p2p_port r = i \<and> conf_db_name (run_conf r) = name i"
  shows "net_started E rr view reach name (daemons_net runs)"
  using started_by_main_node assms by (fastforce simp: net_started_def daemons_net_def)

end
