(* ===== verification/Hash_Sync.thy ===== *)
theory Hash_Sync
  imports Db_Thread
begin

text \<open>
  The synchronisation of the two threads on the digests, \<open>g_hashes_mtx\<close>, \<open>g_hashes_cv\<close> and
  \<open>g_hashes_access\<close> (src/daemon.cpp): \<open>db_update_hashes\<close> (src/daemon_db_thread.cpp) writes the set
  under the mutex, the p2p thread (src/daemon_p2p_thread.cpp) waits for the flag and then reads the
  set after it has released the mutex. One step is one statement of one thread. \<open>upd_done\<close> counts the
  finished updates and is not in the code; \<open>woken\<close> says that the waiting thread has been notified.
  A condition variable may also wake a thread that nobody has notified.
\<close>

datatype thread_name = DbThread | P2pThread

text \<open>Where the database thread is: before the lock, then one point per statement.\<close>

datatype db_pc =
    DbIdle
  | DbLocked "string list"
  | DbClear "string list"
  | DbInsert "string list"
  | DbNotify
  | DbUnlock

datatype p2p_pc = P2pRun | P2pTest | P2pWait | P2pUnlock | P2pRead

record sync =
  mtx :: "thread_name option"
  hashes_access :: bool
  woken :: bool
  hash_set :: "string list"
  db_at :: db_pc
  p2p_at :: p2p_pc
  upd_done :: nat

definition sync_init :: sync where
  "sync_init = \<lparr>mtx = None, hashes_access = False, woken = False, hash_set = [],
     db_at = DbIdle, p2p_at = P2pRun, upd_done = 0\<rparr>"

section \<open>Steps\<close>

inductive db_sync :: "sync \<Rightarrow> sync \<Rightarrow> bool" where
  db_lock: "db_at s = DbIdle \<Longrightarrow> mtx s = None \<Longrightarrow>
    db_sync s (s\<lparr>mtx := Some DbThread, db_at := DbLocked hs\<rparr>)"
| db_deny: "db_at s = DbLocked hs \<Longrightarrow>
    db_sync s (s\<lparr>hashes_access := False, db_at := DbClear hs\<rparr>)"
| db_clear: "db_at s = DbClear hs \<Longrightarrow> db_sync s (s\<lparr>hash_set := [], db_at := DbInsert hs\<rparr>)"
| db_insert: "db_at s = DbInsert (h # hs) \<Longrightarrow>
    db_sync s (s\<lparr>hash_set := uset_insert h (hash_set s), db_at := DbInsert hs\<rparr>)"
| db_allow: "db_at s = DbInsert [] \<Longrightarrow>
    db_sync s (s\<lparr>hashes_access := True, db_at := DbNotify, upd_done := upd_done s + 1\<rparr>)"
| db_notify: "db_at s = DbNotify \<Longrightarrow>
    db_sync s (s\<lparr>woken := (p2p_at s = P2pWait), db_at := DbUnlock\<rparr>)"
| db_unlock: "db_at s = DbUnlock \<Longrightarrow> db_sync s (s\<lparr>mtx := None, db_at := DbIdle\<rparr>)"

inductive p2p_sync :: "sync \<Rightarrow> sync \<Rightarrow> bool" where
  p2p_lock: "p2p_at s = P2pRun \<Longrightarrow> mtx s = None \<Longrightarrow>
    p2p_sync s (s\<lparr>mtx := Some P2pThread, p2p_at := P2pTest\<rparr>)"
| p2p_pass: "p2p_at s = P2pTest \<Longrightarrow> hashes_access s \<Longrightarrow> p2p_sync s (s\<lparr>p2p_at := P2pUnlock\<rparr>)"
| p2p_sleep: "p2p_at s = P2pTest \<Longrightarrow> \<not> hashes_access s \<Longrightarrow>
    p2p_sync s (s\<lparr>mtx := None, woken := False, p2p_at := P2pWait\<rparr>)"
| p2p_wake: "p2p_at s = P2pWait \<Longrightarrow> woken s \<Longrightarrow> mtx s = None \<Longrightarrow>
    p2p_sync s (s\<lparr>mtx := Some P2pThread, woken := False, p2p_at := P2pTest\<rparr>)"
| p2p_spurious: "p2p_at s = P2pWait \<Longrightarrow> mtx s = None \<Longrightarrow>
    p2p_sync s (s\<lparr>mtx := Some P2pThread, woken := False, p2p_at := P2pTest\<rparr>)"
| p2p_unlock: "p2p_at s = P2pUnlock \<Longrightarrow> p2p_sync s (s\<lparr>mtx := None, p2p_at := P2pRead\<rparr>)"
| p2p_done: "p2p_at s = P2pRead \<Longrightarrow> p2p_sync s (s\<lparr>p2p_at := P2pRun\<rparr>)"

inductive_simps db_sync_simps: "db_sync s s'"
inductive_simps p2p_sync_simps: "p2p_sync s s'"

inductive sync_reach :: "sync \<Rightarrow> bool" where
  init: "sync_reach sync_init"
| by_db: "sync_reach s \<Longrightarrow> db_sync s s' \<Longrightarrow> sync_reach s'"
| by_p2p: "sync_reach s \<Longrightarrow> p2p_sync s s' \<Longrightarrow> sync_reach s'"

section \<open>Invariants\<close>

definition db_holds :: "db_pc \<Rightarrow> bool" where
  "db_holds pc \<longleftrightarrow> pc \<noteq> DbIdle"

definition p2p_holds :: "p2p_pc \<Rightarrow> bool" where
  "p2p_holds pc \<longleftrightarrow> pc = P2pTest \<or> pc = P2pUnlock"

definition updating :: "db_pc \<Rightarrow> bool" where
  "updating pc \<longleftrightarrow> (case pc of DbClear hs \<Rightarrow> True | DbInsert hs \<Rightarrow> True | _ \<Rightarrow> False)"

text \<open>
  The mutex is owned by the thread that is between its lock and unlock; the flag is off exactly before
  the first update ends and during the later ones; a thread past its wait has seen a finished update;
  and a sleeping thread that has not been notified still has a notification to come.
\<close>

definition sync_inv :: "sync \<Rightarrow> bool" where
  "sync_inv s \<longleftrightarrow>
     (mtx s = Some DbThread \<longleftrightarrow> db_holds (db_at s)) \<and>
     (mtx s = Some P2pThread \<longleftrightarrow> p2p_holds (p2p_at s)) \<and>
     (hashes_access s \<longleftrightarrow> upd_done s > 0 \<and> \<not> updating (db_at s)) \<and>
     (p2p_at s \<in> {P2pUnlock, P2pRead} \<longrightarrow> upd_done s > 0) \<and>
     (p2p_at s = P2pUnlock \<longrightarrow> hashes_access s) \<and>
     (db_at s = DbNotify \<longrightarrow> hashes_access s) \<and>
     (p2p_at s = P2pWait \<longrightarrow> \<not> woken s \<longrightarrow> \<not> hashes_access s \<or> db_at s = DbNotify) \<and>
     (p2p_at s \<noteq> P2pWait \<longrightarrow> \<not> woken s)"

lemmas sync_defs = db_holds_def p2p_holds_def updating_def

lemma db_sync_inv: "sync_inv s \<Longrightarrow> db_sync s s' \<Longrightarrow> sync_inv s'"
  by (erule db_sync.cases) (auto simp: sync_inv_def sync_defs)

lemma p2p_sync_inv: "sync_inv s \<Longrightarrow> p2p_sync s s' \<Longrightarrow> sync_inv s'"
  by (erule p2p_sync.cases) (auto simp: sync_inv_def sync_defs split: db_pc.splits)

lemma sync_reach_inv: "sync_reach s \<Longrightarrow> sync_inv s"
proof (induction rule: sync_reach.induct)
  case init
  show ?case by (simp add: sync_inv_def sync_init_def sync_defs)
qed (auto intro: db_sync_inv p2p_sync_inv)

section \<open>Progress\<close>

text \<open>
  The database thread can always take a step unless the other thread holds the mutex, which can then
  take one; a sleeping, un-notified thread is therefore woken by the update that ends next.
\<close>

lemma db_sync_progress: "db_at s \<noteq> DbIdle \<or> mtx s = None \<Longrightarrow> \<exists>s'. db_sync s s'"
proof (cases "db_at s")
  case (DbInsert hs)
  then show ?thesis by (cases hs) (auto intro: db_sync.intros)
qed (auto intro: db_sync.intros)

lemma p2p_sync_progress:
  assumes "sync_inv s" and "mtx s \<noteq> Some DbThread" and "p2p_at s = P2pWait \<longrightarrow> woken s"
  shows "\<exists>s'. p2p_sync s s'"
proof -
  have m: "mtx s = None \<or> mtx s = Some P2pThread"
    using assms(2) by (cases "mtx s") (auto intro: thread_name.exhaust)
  show ?thesis
  proof (cases "p2p_at s")
    case P2pTest
    then show ?thesis by (cases "hashes_access s") (auto intro: p2p_sync.intros)
  qed (use m assms in \<open>auto simp: sync_inv_def sync_defs intro: p2p_sync.intros\<close>)
qed

section \<open>The update as a whole\<close>

text \<open>Run alone from its lock to its unlock, the update leaves what \<open>db_update_hashes\<close> computes.\<close>

lemma db_sync_inserts:
  "db_at s = DbInsert hs \<Longrightarrow>
     db_sync\<^sup>*\<^sup>* s (s\<lparr>hash_set := fold uset_insert hs (hash_set s), db_at := DbInsert []\<rparr>)"
proof (induction hs arbitrary: s)
  case Nil
  then have "s\<lparr>hash_set := hash_set s, db_at := DbInsert []\<rparr> = s" by simp
  then show ?case by simp
next
  case (Cons h hs)
  let ?s1 = "s\<lparr>hash_set := uset_insert h (hash_set s), db_at := DbInsert hs\<rparr>"
  have "db_sync s ?s1" using Cons.prems by (rule db_insert)
  moreover have "db_sync\<^sup>*\<^sup>* ?s1 (?s1\<lparr>hash_set := fold uset_insert hs (hash_set ?s1), db_at := DbInsert []\<rparr>)"
    by (rule Cons.IH) simp
  ultimately show ?case by (simp add: converse_rtranclp_into_rtranclp)
qed

lemma db_sync_update:
  assumes "db_at s = DbIdle" and "mtx s = None"
  shows "db_sync\<^sup>*\<^sup>* s (s\<lparr>hash_set := uset_of hs, hashes_access := True,
           woken := (p2p_at s = P2pWait), upd_done := upd_done s + 1\<rparr>)"
proof -
  let ?s1 = "s\<lparr>mtx := Some DbThread, db_at := DbLocked hs\<rparr>"
  let ?s2 = "?s1\<lparr>hashes_access := False, db_at := DbClear hs\<rparr>"
  let ?s3 = "?s2\<lparr>hash_set := [], db_at := DbInsert hs\<rparr>"
  let ?s4 = "?s3\<lparr>hash_set := fold uset_insert hs (hash_set ?s3), db_at := DbInsert []\<rparr>"
  let ?s5 = "?s4\<lparr>hashes_access := True, db_at := DbNotify, upd_done := upd_done ?s4 + 1\<rparr>"
  let ?s6 = "?s5\<lparr>woken := (p2p_at ?s5 = P2pWait), db_at := DbUnlock\<rparr>"
  let ?s7 = "?s6\<lparr>mtx := None, db_at := DbIdle\<rparr>"
  have "db_sync s ?s1" using assms by (rule db_lock)
  moreover have "db_sync ?s1 ?s2" by (rule db_deny) simp
  moreover have "db_sync ?s2 ?s3" by (rule db_clear) simp
  moreover have "db_sync\<^sup>*\<^sup>* ?s3 ?s4" by (rule db_sync_inserts) simp
  moreover have "db_sync ?s4 ?s5" by (rule db_allow) simp
  moreover have "db_sync ?s5 ?s6" by (rule db_notify) simp
  moreover have "db_sync ?s6 ?s7" by (rule db_unlock) simp
  ultimately have "db_sync\<^sup>*\<^sup>* s ?s7"
    by (meson rtranclp.rtrancl_into_rtrancl rtranclp.rtrancl_refl rtranclp_trans)
  moreover have "?s7 = s\<lparr>hash_set := uset_of hs, hashes_access := True,
      woken := (p2p_at s = P2pWait), upd_done := upd_done s + 1\<rparr>"
    using assms by (simp add: uset_of_def)
  ultimately show ?thesis by simp
qed

text \<open>
  And whatever steps of the two threads come between: from the lock with the digests \<open>hs\<close> in hand on,
  \<open>update_of hs n\<close> describes every state, where n counts the updates before. When the count is
  one more, the set holds exactly \<open>hs\<close>, until the next update clears it.
\<close>

definition sync_step :: "sync \<Rightarrow> sync \<Rightarrow> bool" where
  "sync_step s s' \<longleftrightarrow> db_sync s s' \<or> p2p_sync s s'"

definition update_of :: "string list \<Rightarrow> nat \<Rightarrow> sync \<Rightarrow> bool" where
  "update_of hs n s \<longleftrightarrow>
     (case db_at s of
        DbIdle \<Rightarrow> upd_done s > Suc n \<or>
          upd_done s = Suc n \<and> hash_set s = uset_of hs \<and> hashes_access s \<and> mtx s \<noteq> Some DbThread
      | DbLocked hs' \<Rightarrow> upd_done s > Suc n \<or> upd_done s = n \<and> hs' = hs \<or> upd_done s = Suc n \<and> hash_set s = uset_of hs
      | DbClear hs' \<Rightarrow> upd_done s > Suc n \<or> upd_done s = n \<and> hs' = hs \<or> upd_done s = Suc n \<and> hash_set s = uset_of hs
      | DbInsert hs' \<Rightarrow> upd_done s > n \<or> upd_done s = n \<and> fold uset_insert hs' (hash_set s) = uset_of hs
      | _ \<Rightarrow> upd_done s > Suc n \<or> upd_done s = Suc n \<and> hash_set s = uset_of hs \<and> hashes_access s)"

lemma update_of_db: "update_of hs n s \<Longrightarrow> db_sync s s' \<Longrightarrow> update_of hs n s'"
  by (erule db_sync.cases) (auto simp: update_of_def uset_of_def)

lemma update_of_p2p: "update_of hs n s \<Longrightarrow> p2p_sync s s' \<Longrightarrow> update_of hs n s'"
  by (erule p2p_sync.cases) (auto simp: update_of_def split: db_pc.splits)

lemma update_of_run: "sync_step\<^sup>*\<^sup>* s s' \<Longrightarrow> update_of hs n s \<Longrightarrow> update_of hs n s'"
  by (induction rule: rtranclp_induct) (auto simp: sync_step_def intro: update_of_db update_of_p2p)

lemma update_leaves:
  assumes "db_at s = DbLocked hs" and "sync_step\<^sup>*\<^sup>* s s'" and "db_at s' = DbIdle" and "upd_done s' = Suc (upd_done s)"
  shows "hash_set s' = uset_of hs" and "hashes_access s'" and "mtx s' \<noteq> Some DbThread"
proof -
  have "update_of hs (upd_done s) s" using assms(1) by (simp add: update_of_def)
  from update_of_run [OF assms(2) this] assms(3,4)
  show "hash_set s' = uset_of hs" and "hashes_access s'" and "mtx s' \<noteq> Some DbThread" by (simp_all add: update_of_def)
qed

lemma update_ends:
  assumes "db_at s = DbLocked hs"
  obtains s' where "db_sync\<^sup>*\<^sup>* s s'" "db_at s' = DbIdle" "upd_done s' = Suc (upd_done s)" "mtx s' = None"
proof -
  let ?s2 = "s\<lparr>hashes_access := False, db_at := DbClear hs\<rparr>"
  let ?s3 = "?s2\<lparr>hash_set := [], db_at := DbInsert hs\<rparr>"
  let ?s4 = "?s3\<lparr>hash_set := fold uset_insert hs (hash_set ?s3), db_at := DbInsert []\<rparr>"
  let ?s5 = "?s4\<lparr>hashes_access := True, db_at := DbNotify, upd_done := upd_done ?s4 + 1\<rparr>"
  let ?s6 = "?s5\<lparr>woken := (p2p_at ?s5 = P2pWait), db_at := DbUnlock\<rparr>"
  let ?s7 = "?s6\<lparr>mtx := None, db_at := DbIdle\<rparr>"
  have "db_sync s ?s2" using assms by (rule db_deny)
  moreover have "db_sync ?s2 ?s3" by (rule db_clear) simp
  moreover have "db_sync\<^sup>*\<^sup>* ?s3 ?s4" by (rule db_sync_inserts) simp
  moreover have "db_sync ?s4 ?s5" by (rule db_allow) simp
  moreover have "db_sync ?s5 ?s6" by (rule db_notify) simp
  moreover have "db_sync ?s6 ?s7" by (rule db_unlock) simp
  ultimately have "db_sync\<^sup>*\<^sup>* s ?s7"
    by (meson rtranclp.rtrancl_into_rtrancl rtranclp.rtrancl_refl rtranclp_trans)
  then show thesis by (rule that) simp_all
qed

section \<open>What the protocol does not exclude\<close>

text \<open>
  The second update may run while the p2p thread reads: the thread has released the mutex by then.
\<close>

definition race_state :: "string list \<Rightarrow> sync" where
  "race_state hs = \<lparr>mtx = Some DbThread, hashes_access = False, woken = False, hash_set = [],
     db_at = DbInsert hs, p2p_at = P2pRead, upd_done = 1\<rparr>"

lemma by_db_star: "db_sync\<^sup>*\<^sup>* s s' \<Longrightarrow> sync_reach s \<Longrightarrow> sync_reach s'"
  by (induction rule: rtranclp_induct) (auto intro: by_db)

lemma race_state_reachable: "sync_reach (race_state hs)"
proof -
  let ?s1 = "sync_init\<lparr>hash_set := uset_of hs, hashes_access := True,
      woken := (p2p_at sync_init = P2pWait), upd_done := upd_done sync_init + 1\<rparr>"
  have r1: "sync_reach ?s1"
    by (rule by_db_star [OF db_sync_update init]) (simp_all add: sync_init_def)
  let ?s2 = "?s1\<lparr>mtx := Some P2pThread, p2p_at := P2pTest\<rparr>"
  have r2: "sync_reach ?s2" by (rule by_p2p [OF r1 p2p_lock]) (simp_all add: sync_init_def)
  let ?s3 = "?s2\<lparr>p2p_at := P2pUnlock\<rparr>"
  have r3: "sync_reach ?s3" by (rule by_p2p [OF r2 p2p_pass]) (simp_all add: sync_init_def)
  let ?s4 = "?s3\<lparr>mtx := None, p2p_at := P2pRead\<rparr>"
  have r4: "sync_reach ?s4" by (rule by_p2p [OF r3 p2p_unlock]) (simp_all add: sync_init_def)
  let ?s5 = "?s4\<lparr>mtx := Some DbThread, db_at := DbLocked hs\<rparr>"
  have r5: "sync_reach ?s5" by (rule by_db [OF r4 db_lock]) (simp_all add: sync_init_def)
  let ?s6 = "?s5\<lparr>hashes_access := False, db_at := DbClear hs\<rparr>"
  have r6: "sync_reach ?s6" by (rule by_db [OF r5 db_deny]) (simp_all add: sync_init_def)
  let ?s7 = "?s6\<lparr>hash_set := [], db_at := DbInsert hs\<rparr>"
  have r7: "sync_reach ?s7" by (rule by_db [OF r6 db_clear]) (simp_all add: sync_init_def)
  have "?s7 = race_state hs" by (simp add: race_state_def sync_init_def)
  with r7 show ?thesis by simp
qed

end
