(* ===== verification/Demo.thy ===== *)
theory Demo
  imports Exchange Hash_Sync Zmq_Util Ref_Libs "HOL-Library.Code_Target_Nat"
begin

text \<open>
  Concrete ads, databases and daemons over the libraries of \<open>Ref_Libs\<close>, at which the properties
  are instantiated.
\<close>

definition demo_doc :: document where
  "demo_doc = Document_new\<lparr> m_id := 7, m_title := ''cat'', m_description := [],
     m_price := 0, m_category := ''pets'' \<rparr>"

definition demo_env :: "bool \<Rightarrow> ref_db env" where
  "demo_env dbg = ref_env dbg [''ads'' \<mapsto> Document_serialize ref_json demo_doc]"

definition demo_entry :: string where
  "demo_entry = client_entry (demo_env False) ''alice'' demo_doc"

definition demo_db :: ref_db where
  "demo_db = [(1, \<lparr> xd_data = demo_entry, xd_terms = [CHR ''Q'' # ref_sha demo_entry], xd_values = [] \<rparr>)]"

definition demo_p2p :: "int \<Rightarrow> p2p_state" where
  "demo_p2p peer = \<lparr> my_peers = [own_addr peer], db_requests = [], to_bcast_peers = True,
     to_bcast_hashes = True, to_send_db_requests = False \<rparr>"

definition demo_A :: "ref_db daemon" where
  "demo_A = \<lparr> d_port = 2, d_name = ''a.db'', d_p2p = demo_p2p 1,
     d_db = db_thread_init (demo_env True) ''a.db'' demo_db \<rparr>"

definition demo_B :: "ref_db daemon" where
  "demo_B = \<lparr> d_port = 1, d_name = ''b.db'', d_p2p = demo_p2p 2,
     d_db = db_thread_init (demo_env True) ''b.db'' [] \<rparr>"

lemma demo_env_simps [simp]:
  "e_dbg (demo_env dbg) = dbg" "e_json (demo_env dbg) = ref_json" "e_sha (demo_env dbg) = ref_sha"
  "e_xap (demo_env dbg) = ref_xapian" "e_hex (demo_env dbg) = ref_hex"
  "e_files (demo_env dbg) = [''ads'' \<mapsto> Document_serialize ref_json demo_doc]"
  by (simp_all add: demo_env_def ref_env_def)

lemma demo_env_ok:
  "env_laws (demo_env dbg) (\<lambda>p. p) map_of" "healthy (demo_env dbg) map_of db_name"
  "no_faults (demo_env dbg)"
  by (simp_all add: demo_env_def ref_env_laws ref_env_healthy ref_env_no_faults)

lemma demo_finite [simp]: "dbl_finite (m_price demo_doc)"
  by (simp add: demo_doc_def dbl_finite_def)

lemma demo_entries: "entries (map_of demo_db) = {demo_entry}"
  by (auto simp: entries_def demo_db_def ran_def)

lemma demo_db_keyed: "keyed ref_sha (map_of demo_db)"
  by (auto simp: keyed_def demo_db_def ran_def split: if_splits)

lemma demo_db_ok: "db_ok (demo_env dbg) (\<lambda>p. p) map_of db_name demo_db"
  using demo_db_keyed by (simp add: db_ok_def demo_env_ok)

lemma demo_stored: "stored (demo_env dbg) map_of demo_db = {ref_sha demo_entry}"
  by (simp add: stored_def demo_entries)

lemma empty_db_ok: "db_ok (demo_env dbg) (\<lambda>p. p) map_of db_name []"
  by (simp add: db_ok_def demo_env_ok keyed_def)

lemma demo_author: "author_of (demo_env dbg) demo_entry = Some ''alice''"
  using author_of_client_entry [of "demo_env dbg" "\<lambda>p. p" demo_doc "''alice''"] ref_json_laws
  by (simp add: demo_entry_def client_entry_def cstr_def NUL_def)

lemma demo_canonical: "peer_entry (demo_env dbg) demo_entry = Some demo_entry"
proof -
  let ?d = "demo_doc\<lparr>m_author := ''alice''\<rparr>"
  have "JSONBase_deserialize ref_json demo_entry Document_new
      = Inr (True, (doc_norm ?d)\<lparr>m_price := m_price ?d, m_sha := []\<rparr>)"
    using serialize_deserialize [OF ref_json_laws, of ?d Document_new]
    by (simp add: demo_entry_def client_entry_def Document_new_def)
  moreover have "m_author (doc_norm ?d) = ''alice''" by (simp add: cstr_def NUL_def)
  moreover have "doc_json ((doc_norm ?d)\<lparr>m_price := m_price ?d, m_sha := []\<rparr>) = doc_json ?d"
    by (simp add: doc_json_def doc_norm_def)
  ultimately show ?thesis
    by (simp add: peer_entry_def demo_entry_def client_entry_def)
qed

lemma demo_linked: "linked (demo_env True) (\<lambda>p. p) map_of demo_A demo_B"
proof -
  have "db_thread_inv (demo_env True) (\<lambda>p. p) map_of ''a.db'' (d_db demo_A)"
    "db_thread_inv (demo_env True) (\<lambda>p. p) map_of ''b.db'' (d_db demo_B)"
    by (simp_all add: demo_A_def demo_B_def db_thread_init_inv demo_db_ok empty_db_ok)
  moreover have "p2p_inv 2 (demo_p2p 1)" "p2p_inv 1 (demo_p2p 2)"
    using inj_own_addr [of 1 2] inj_own_addr [of 2 1]
    by (auto simp: p2p_inv_def demo_p2p_def reqs_ok_def)
  moreover have "length (my_hashes (d_db demo_A)) < 2 ^ 64"
  proof -
    have "my_hashes (d_db demo_A) = uset_of (db_list_hash (demo_env True) ''a.db'' False demo_db)"
      by (simp add: demo_A_def db_thread_init_def db_update_hashes_def)
    moreover have "length (uset_of xs) \<le> length xs" for xs :: "string list"
      by (metis card_length distinct_card distinct_uset_of set_uset_of)
    moreover have "length (db_list_hash (demo_env True) ''a.db'' False demo_db) = 1"
      by (simp add: db_list_hash_def db_entries_def ref_xapian_def ref_index_def demo_db_def)
    ultimately show ?thesis by (metis le_less_trans one_less_numeral_iff one_less_power semiring_norm(76) zero_less_numeral)
  qed
  ultimately show ?thesis
    by (simp add: linked_def) (simp add: demo_A_def demo_B_def demo_p2p_def)
qed

end
