(* ===== verification/Network_Properties.thy ===== *)
theory Network_Properties
  imports Reach Daemon_Network Demo
begin

text \<open>
  The properties of a network of daemons, with a network of two daemons at which they are instantiated:
  the one at port 2 has an ad and the address of the other, the one at port 1 has neither.
\<close>

section \<open>A network of two daemons\<close>

definition demo_node :: "string list \<Rightarrow> ref_db \<Rightarrow> ref_db node" where
  "demo_node peers db =
     \<lparr> n_p2p = \<lparr> my_peers = peers, db_requests = [], to_bcast_peers = True,
                to_bcast_hashes = True, to_send_db_requests = False \<rparr>,
       n_db = db_thread_init (demo_env False) ''d'' db, n_to_db = [], n_to_p2p = [] \<rparr>"

definition demo_net :: "ref_db net" where
  "demo_net =
     \<lparr> nt_nodes = [2 \<mapsto> demo_node [own_addr 1] demo_db, 1 \<mapsto> demo_node [] []], nt_wire = \<lambda>i a. [] \<rparr>"

definition demo_turns :: "net_event list" where
  "demo_turns =
     [P2pTurn 2 None False, P2pTurn 1 (Some 2) False, P2pTurn 1 (Some 2) False, DbTurn 2 (Some [''peers'']) True]"

lemma demo_init:
  "p2p_thread_init (\<lambda>_. True) 1 2 [] = Inr (n_p2p (demo_node [own_addr 1] db), [Connect (own_addr 1)])"
  "p2p_thread_init (\<lambda>_. True) 1 1 [] = Inr (n_p2p (demo_node [] db), [])"
proof -
  have "[1..2 - 1] = [1::int]" "[1..1 - 1] = ([]::int list)" by code_simp+
  then show "p2p_thread_init (\<lambda>_. True) 1 2 [] = Inr (n_p2p (demo_node [own_addr 1] db), [Connect (own_addr 1)])"
    "p2p_thread_init (\<lambda>_. True) 1 1 [] = Inr (n_p2p (demo_node [] db), [])"
    by (simp_all add: p2p_thread_init_def Let_def uset_insert_def p2p_connect_peer_def demo_node_def)
qed

lemma demo_ad_text: "ad_text (demo_env dbg) demo_entry"
  unfolding ad_text_def demo_entry_def client_entry_def
  by (intro exI [of _ "demo_doc\<lparr>m_author := ''alice''\<rparr>"]) simp

lemma demo_net_started:
  "net_started (demo_env False) (\<lambda>p. p) map_of (\<lambda>_. True) (\<lambda>_. ''d'') demo_net"
proof -
  have "ads_written (demo_env False) map_of demo_db" "ads_written (demo_env False) map_of []"
    by (simp_all add: ads_written_def demo_entries demo_ad_text) (simp add: entries_def)
  then have "node_started (demo_env False) (\<lambda>p. p) map_of (\<lambda>_. True) ''d'' 2 (demo_node [own_addr 1] demo_db)"
    "node_started (demo_env False) (\<lambda>p. p) map_of (\<lambda>_. True) ''d'' 1 (demo_node [] [])"
    unfolding node_started_def using demo_init demo_db_ok [of False] empty_db_ok [of False]
    by (metis distinct.simps(1) demo_node_def node.select_convs(2,3,4))+
  then show ?thesis by (simp add: net_started_def demo_net_def)
qed

lemma demo_setting: "\<not> e_dbg (demo_env False)" "no_faults (demo_env False)" "meets (\<lambda>_. True) net"
  by (simp_all add: meets_def demo_env_ok)

lemma demo_turns_run:
  obtains net out where
    "run_machine (net_turn (demo_env False) (\<lambda>_. True) (\<lambda>_. ''d'')) demo_turns demo_net = Inr (net, out)"
    "acc_run (net_turn (demo_env False) (\<lambda>_. True) (\<lambda>_. ''d'')) (net_accepts (demo_env False)) demo_turns demo_net"
    "out = [[''localhost:1 '']]"
proof -
  define r where "r = run_machine (net_turn (demo_env False) (\<lambda>_. True) (\<lambda>_. ''d'')) demo_turns demo_net"
  have "case r of Inl err \<Rightarrow> False | Inr (net, out) \<Rightarrow> out = [[''localhost:1 '']]"
    unfolding r_def by code_simp
  then obtain net out where r: "r = Inr (net, out)" "out = [[''localhost:1 '']]" by (cases r) auto
  have "acc_run (net_turn (demo_env False) (\<lambda>_. True) (\<lambda>_. ''d'')) (net_accepts (demo_env False)) demo_turns demo_net"
    by code_simp
  with that r show ?thesis unfolding r_def by blast
qed

section \<open>The digest of the demonstration ad is its own\<close>

lemma count_bars: "count_list (enc_fields ss) (CHR ''|'') = length ss"
proof -
  have "count_list (concat (map esc s)) (CHR ''|'') = 0" for s
    by (auto simp: count_list_0_iff esc_def split: if_splits)
  then show ?thesis by (induction ss) (simp_all add: enc_fields_def)
qed

lemma ref_sha_unique:
  assumes "count_list a (CHR ''|'') = count_list b (CHR ''|'')" and "a \<noteq> []" and "last a = CHR ''|''"
    and "b \<noteq> []" and "last b = CHR ''|''" and "length a < 32" and eq: "ref_sha b = ref_sha a"
  shows "b = a"
proof -
  let ?pad = "\<lambda>x :: string. x @ replicate (32 - length x) (CHR ''.'')"
  have strip: "rev (dropWhile (\<lambda>c. c = CHR ''.'') (rev (?pad x))) = x" if "x \<noteq> []" "last x = CHR ''|''" for x
  proof -
    have "x = butlast x @ [CHR ''|'']" using append_butlast_last_id [OF that(1)] that(2) by simp
    then obtain y where "x = y @ [CHR ''|'']" by blast
    moreover have "dropWhile (\<lambda>c. c = CHR ''.'') (replicate k (CHR ''.'') @ CHR ''|'' # ys) = CHR ''|'' # ys" for k ys
      by (induction k) simp_all
    ultimately show ?thesis by simp
  qed
  have a: "ref_sha a = ?pad a" using assms(6) by (simp add: ref_sha_def)
  show ?thesis
  proof (cases "length b < 32")
    case True
    then have "ref_sha b = ?pad b" by (simp add: ref_sha_def)
    with a eq strip [of a] strip [of b] assms(2-5) show ?thesis by metis
  next
    case False
    then have t: "take 32 b = ?pad a" using a eq by (simp add: ref_sha_def)
    have "count_list b (CHR ''|'') = count_list (take 32 b) (CHR ''|'') + count_list (drop 32 b) (CHR ''|'')"
      by (metis append_take_drop_id count_list_append)
    moreover have "count_list (?pad a) (CHR ''|'') = count_list a (CHR ''|'')"
      by (simp add: count_list_0_iff)
    ultimately have none: "CHR ''|'' \<notin> set (drop 32 b)" using assms(1) t by (simp add: count_list_0_iff)
    have "drop 32 b = []" using none assms(5) by (metis last_drop last_in_set linorder_not_le drop_eq_Nil)
    then have "b = ?pad a" using t by simp
    then have "last b = CHR ''.''" using assms(6) by (simp add: last_append)
    with assms(5) show ?thesis by simp
  qed
qed

lemma ad_text_bars:
  assumes "ad_text (demo_env dbg) e"
  shows "count_list e (CHR ''|'') = 11" and "e \<noteq> []" and "last e = CHR ''|''"
proof -
  from assms obtain d where d: "e = ref_write (doc_json d)"
    using json_laws_serialize(1) [OF ref_json_laws] by (auto simp: ad_text_def ref_json_def)
  then obtain ss where ss: "e = enc_fields ss" "length ss = 11" by (simp add: doc_json_def)
  show "count_list e (CHR ''|'') = 11" by (simp add: ss count_bars)
  have "ss \<noteq> []" using ss(2) by auto
  then obtain xs x where "ss = xs @ [x]" by (metis rev_exhaust)
  then show "e \<noteq> []" "last e = CHR ''|''" by (simp_all add: ss(1) enc_fields_def)
qed

lemma demo_travels: "travels (demo_env dbg) demo_entry"
proof -
  have "length demo_entry < 32" unfolding demo_entry_def by code_simp
  then have "e' = demo_entry" if "ad_text (demo_env dbg) e'" "ref_sha e' = ref_sha demo_entry" for e'
    using ref_sha_unique [of demo_entry e'] ad_text_bars [OF that(1)] ad_text_bars [OF demo_ad_text] that(2) by simp
  then show ?thesis by (simp add: travels_def demo_canonical)
qed

section \<open>A schedule without clients\<close>

definition demo_cycle :: "net_event list" where
  "demo_cycle =
     [DbTurn 1 None True, DbTurn 2 None True, P2pTurn 1 (Some 1) True, P2pTurn 1 (Some 2) True,
      P2pTurn 2 (Some 1) True, P2pTurn 2 (Some 2) True]"

definition demo_schedule :: "nat \<Rightarrow> net_event" where
  "demo_schedule k = demo_cycle ! (k mod length demo_cycle)"

lemma demo_fair: "fair (dom (nt_nodes demo_net)) demo_schedule"
proof -
  have "node_turns (dom (nt_nodes demo_net)) \<subseteq> set demo_cycle"
    by (auto simp: node_turns_def demo_net_def demo_cycle_def split: if_splits)
  moreover have "\<forall>ev\<in>set demo_cycle. clientless ev" "demo_cycle \<noteq> []" by (simp_all add: demo_cycle_def)
  ultimately have "fair (dom (nt_nodes demo_net)) (\<lambda>k. demo_cycle ! (k mod length demo_cycle))" by (rule fair_cycle)
  then show ?thesis by (simp add: demo_schedule_def [abs_def])
qed

lemma demo_clients: "\<forall>ev\<in>set demo_turns. client_ok (demo_env False) T ev"
proof -
  have "split_auth ''peers'' = Inr ([], ''peers'')" "\<not> chars_match ''db'' ''peers''"
    "\<not> chars_match ''rm'' (drop 3 ''peers'')" by code_simp+
  then show ?thesis
    by (simp add: demo_turns_def client_ok_def safe_client_def client_adds_def names_hash_def)
qed

section \<open>Daemons started by main, and a user\<close>

definition demo_build :: build_info where
  "demo_build = \<lparr> daemon_executable = ''piac-daemon'', cli_executable = ''piac-cli'', project_version = ''0.1.0'',
     build_type = ''Release'', MAX_LOG_FILE_SIZE = 104850000, MAX_LOG_FILES = 50 \<rparr>"

definition demo_world :: "files \<Rightarrow> ref_db world" where
  "demo_world fs =
     \<lparr> w_files = fs, w_writable = \<lambda>f. True, w_generated = \<lparr>public_key = ''g'', secret_key = ''h''\<rparr>,
       w_key_ok = \<lambda>k. True, w_fork = 0, w_setsid = 0, w_p2p_free = \<lambda>p. True, w_rpc_free = \<lambda>p. True,
       w_reach = \<lambda>a. True, w_db = \<lambda>name. [] \<rparr>"

definition demo_launch :: "string \<Rightarrow> string list \<Rightarrow> ref_db daemon_run prog" where
  "demo_launch port peers =
     daemon_main demo_build (demo_env False) (demo_world Map.empty) [''piac-daemon'']
       ([ArgDb ''d'', ArgP2pPort port, ArgDetach] @ map ArgPeer peers) []"

lemma demo_launched:
  obtains acts1 r1 acts2 r2 where
    "demo_launch ''1'' [] = Inr (acts1, Inr r1)" "run_p2p_port r1 = 1" "conf_db_name (run_conf r1) = ''d''"
    "my_peers (run_p2p r1) = []" "ds_db (run_db r1) = []"
    "demo_launch ''2'' [''localhost:1''] = Inr (acts2, Inr r2)" "run_p2p_port r2 = 2" "conf_db_name (run_conf r2) = ''d''"
    "my_peers (run_p2p r2) = [own_addr 1]" "ds_db (run_db r2) = []"
proof -
  have "case demo_launch ''1'' [] of Inr (acts, Inr r) \<Rightarrow> run_p2p_port r = 1 \<and> conf_db_name (run_conf r) = ''d'' \<and>
      my_peers (run_p2p r) = [] \<and> ds_db (run_db r) = [] | _ \<Rightarrow> False"
    by code_simp
  then obtain acts1 r1 where 1: "demo_launch ''1'' [] = Inr (acts1, Inr r1)" "run_p2p_port r1 = 1"
    "conf_db_name (run_conf r1) = ''d''" "my_peers (run_p2p r1) = []" "ds_db (run_db r1) = []"
    by (rule prog_evaluated) blast
  have "case demo_launch ''2'' [''localhost:1''] of Inr (acts, Inr r) \<Rightarrow> run_p2p_port r = 2 \<and>
      conf_db_name (run_conf r) = ''d'' \<and> my_peers (run_p2p r) = [own_addr 1] \<and> ds_db (run_db r) = [] | _ \<Rightarrow> False"
    by code_simp
  then obtain acts2 r2 where "demo_launch ''2'' [''localhost:1''] = Inr (acts2, Inr r2)" "run_p2p_port r2 = 2"
    "conf_db_name (run_conf r2) = ''d''" "my_peers (run_p2p r2) = [own_addr 1]" "ds_db (run_db r2) = []"
    by (rule prog_evaluated) blast
  with 1 that show thesis by blast
qed

lemma demo_launch_started:
  assumes "demo_launch port peers = Inr (acts, Inr r)"
  shows "started_by_main demo_build (demo_env False) (\<lambda>p. p) map_of (\<lambda>_. True) r"
proof -
  have "ads_written (demo_env False) map_of []" by (simp add: ads_written_def entries_def)
  then show ?thesis
    using assms empty_db_ok [of False] unfolding started_by_main_def demo_launch_def Let_def
    by (intro exI [of _ "demo_world Map.empty"] exI conjI) (assumption, simp_all add: demo_world_def)
qed

definition demo_wallets :: "string wallet_lib" where
  "demo_wallets = \<lparr> w_create = \<lambda>m h. Inr ''w'', w_connected = \<lambda>w. True, w_mnemonic = \<lambda>w. w,
     w_primary_address = \<lambda>w. w, w_private_view_key = \<lambda>w. w, w_public_view_key = \<lambda>w. w,
     w_private_spend_key = \<lambda>w. w, w_public_spend_key = \<lambda>w. w, w_balance_text = \<lambda>w. ''0'',
     w_percent_text = \<lambda>p. ''0'' \<rparr>"

definition demo_user :: "string cli_env" where
  "demo_user = \<lparr> c_build = demo_build, c_dbg = False, c_sha = \<lambda>x. x, c_key_ok = \<lambda>k. True, c_reach = \<lambda>h. h \<noteq> [],
     c_wallet = demo_wallets \<rparr>"

lemma demo_ads_file:
  obtains d where "deserializeFromFile ref_json [''ads'' \<mapsto> Document_serialize ref_json demo_doc] ''ads'' [] = Inr (True, [d])"
    "client_entry (demo_env dbg) ''alice'' d = demo_entry"
proof -
  let ?d = "(doc_norm demo_doc)\<lparr>m_sha := m_sha Document_new\<rparr>"
  have "initDocument ref_json (Document_serialize ref_json demo_doc) = Some (doc_json demo_doc)"
    using json_laws_serialize(3) [OF ref_json_laws demo_finite] by simp
  then have "deserializeFromFile ref_json [''ads'' \<mapsto> Document_serialize ref_json demo_doc] ''ads'' [] = Inr (True, [?d])"
    by (simp add: deserializeFromFile_def Documents_deserialize_single doc_norm_def)
  moreover have "client_entry (demo_env dbg) ''alice'' ?d = demo_entry"
    by (simp add: demo_entry_def client_entry_def doc_norm_def demo_doc_def Document_new_def cstr_def NUL_def
        doc_json_def)
  ultimately show thesis by (rule that)
qed

section \<open>Properties\<close>

text \<open>
  C3. A network of daemons keeps running. Take release builds on databases that do not fail, with ads as
  piac writes them; the daemons have started, so each could connect to the peers it was given, and they
  can connect to each other's addresses. Then they handle every message they send each other, in any
  order of their turns, and every request of a client that a daemon survives (C32): no thread ends,
  clients get replies of one part, every cache is exact, and every stored ad can be read. (No message
  may have 2^64 parts.) Where a connection is refused it is different: a daemon with such a peer does
  not start its p2p thread, and a list of peers with such an address ends the p2p thread that gets it.
\<close>

theorem network_keeps_running:
  assumes "net_started E rr view reach name net0" and "\<not> e_dbg E" and "no_faults E" and "meets reach net0"
    and "acc_run (net_turn E reach name) (net_accepts E) es net0"
  shows "(\<exists>net out. run_machine (net_turn E reach name) es net0 = Inr (net, out) \<and>
    (\<forall>m\<in>set out. length m = 1) \<and>
    (\<forall>i n. nt_nodes net i = Some n \<longrightarrow>
       set (my_hashes (n_db n)) = stored E view (ds_db (n_db n)) \<and>
       (\<forall>e\<in>entries (view (ds_db (n_db n))). readable E e))) \<and>
    (\<forall>i p0 ps a. a \<in> set ps \<longrightarrow> a \<noteq> own_addr i \<longrightarrow> \<not> reach a \<longrightarrow>
       p2p_thread_init reach p0 i ps = Inl ZmqError \<and>
       (\<forall>s hs ident j. a \<notin> set (my_peers s) \<longrightarrow> length ps + 1 < 2 ^ 64 \<longrightarrow>
          p2p_answer_p2p E reach i hs (ident # peer_msg j ps) s = Inl ZmqError))"
proof -
  note free = started_free [OF assms(1,4)]
  have inv: "net_inv E rr view name net0" by (rule net_started_inv(1) [OF assms(1)])
  have snd: "sound_setting E (\<lambda>_. True)" using assms(2,3) by (simp add: sound_setting_def)
  from netw.run_live [OF inv snd] assms(5) obtain net out where
    r: "run_machine (net_turn E reach name) es net0 = Inr (net, out)" unfolding run_free [OF free(1)] by blast
  have inv': "net_inv E rr view name net" by (rule netw.run_inv [OF inv r])
  have "set (my_hashes (n_db n)) = stored E view (ds_db (n_db n)) \<and>
      (\<forall>e\<in>entries (view (ds_db (n_db n))). readable E e)" if "nt_nodes net i = Some n" for i n
  proof -
    have "db_written_inv E rr view (name i) (n_db n)"
      using net_invD(1) [OF inv' that] by (simp add: node_ok_def)
    note D = db_written_invD [OF this]
    show ?thesis using D(2,7) ad_text_readable [OF D(4)] by (simp add: ads_written_def)
  qed
  with r netw.run_out [OF inv r] have "\<exists>net out. run_machine (net_turn E reach name) es net0 = Inr (net, out) \<and>
    (\<forall>m\<in>set out. length m = 1) \<and>
    (\<forall>i n. nt_nodes net i = Some n \<longrightarrow>
       set (my_hashes (n_db n)) = stored E view (ds_db (n_db n)) \<and>
       (\<forall>e\<in>entries (view (ds_db (n_db n))). readable E e))" by blast
  then show ?thesis by (rule conjI) (intro allI impI conjI; rule p2p_thread_init_refused peer_msg_refused; assumption)
qed

lemma network_keeps_running_witness:
  "\<exists>net out. run_machine (net_turn (demo_env False) (\<lambda>_. True) (\<lambda>_. ''d'')) demo_turns demo_net = Inr (net, out) \<and>
     out = [[''localhost:1 '']] \<and>
     (\<forall>n. nt_nodes net 1 = Some n \<longrightarrow> (\<forall>e\<in>entries (map_of (ds_db (n_db n))). readable (demo_env False) e))"
proof (rule demo_turns_run)
  fix net out
  assume r: "run_machine (net_turn (demo_env False) (\<lambda>_. True) (\<lambda>_. ''d'')) demo_turns demo_net = Inr (net, out)"
    and acc: "acc_run (net_turn (demo_env False) (\<lambda>_. True) (\<lambda>_. ''d'')) (net_accepts (demo_env False)) demo_turns demo_net"
    and "out = [[''localhost:1 '']]"
  with network_keeps_running [OF demo_net_started demo_setting acc] show ?thesis by auto
qed

text \<open>
  C1. A network of daemons synchronises. Take release builds on databases that do not fail, whose daemons
  have started and can connect to each other's addresses, on ads of a finite set T and with peers of a
  finite set A of addresses (small enough for the 64-bit counts), where each ad of T is stored by a peer
  as it is and has its digest to itself; and any run in which every request of a client is one that a
  daemon survives (C32), adds no other ads than those of T and names none of T for removal. If clients
  then stay silent, every fair schedule of turns brings the network to a state that no further turn
  changes. In it nothing is under way, daemons that were connected, directly or through others, know each
  other and store the same ads, nobody has lost an ad or a peer, and all stored ads are of T.
\<close>

theorem network_synchronises:
  assumes "net_started E rr view reach name net0" and "\<not> e_dbg E" and "no_faults E" and "meets reach net0"
    and "finite_setting E T A"
    and "\<forall>i n. nt_nodes net0 i = Some n \<longrightarrow> own_addr i \<in> A \<and> set (my_peers (n_p2p n)) \<subseteq> A \<and>
      entries (view (ds_db (n_db n))) \<subseteq> T"
    and "\<forall>ev\<in>set es. client_ok E T ev" and "fair (dom (nt_nodes net0)) f"
  shows "\<exists>net out. run_machine (net_turn E reach name) es net0 = Inr (net, out) \<and> grown E view net0 net \<and>
    (\<exists>k net'. (\<forall>k'\<ge>k. \<exists>out. run_machine (net_turn E reach name) (map f [0..<k']) net = Inr (net', out)) \<and>
       grown E view net net' \<and> agreed E view net net' \<and>
       (\<forall>i n. nt_nodes net' i = Some n \<longrightarrow> entries (view (ds_db (n_db n))) \<subseteq> T))"
proof -
  note free = started_free [OF assms(1,4)]
  have inv: "net_inv E rr view name net0" by (rule net_started_inv(1) [OF assms(1)])
  have snd: "sound_setting E (\<lambda>_. True)" using assms(2,3) by (simp add: sound_setting_def)
  have "good_net E view (\<lambda>_. True) T A net0 \<and> grown E view net0 net0"
    using started_good [OF free(2) snd assms(5,6)] grown_refl by blast
  moreover have "acc_run (net_turn E (\<lambda>_. True) name) (\<lambda>ev _. client_ok E T ev) es net0"
    by (rule acc_run_all) (use assms(7) in simp)
  ultimately obtain net out where
    r: "run_machine (net_turn E (\<lambda>_. True) name) es net0 = Inr (net, out)"
      "good_net E view (\<lambda>_. True) T A net" "grown E view net0 net"
    using bounded.run_live [OF inv] by blast
  have "net_inv E rr view name net" by (rule netw.run_inv [OF inv r(1)])
  moreover have "fair (dom (nt_nodes net)) f" using assms(8) r(3) by (simp add: grown_def)
  ultimately obtain k net' where s:
    "\<forall>k'\<ge>k. \<exists>out. run_machine (net_turn E (\<lambda>_. True) name) (map f [0..<k']) net = Inr (net', out)"
    "grown E view net net'" "agreed E view net net'" "good_net E view (\<lambda>_. True) T A net'"
    using net_settles [OF _ r(2)] by blast
  have "\<forall>i n. nt_nodes net' i = Some n \<longrightarrow> entries (view (ds_db (n_db n))) \<subseteq> T"
    using s(4) by (simp add: good_net_def net_fits_def node_fits_def db_fits_def)
  with r(1,3) s(1-3) show ?thesis
    unfolding run_free(1) [OF free(1)] run_free(1) [OF run_connects [OF free(1) r(1)], symmetric] by blast
qed

lemma network_synchronises_witness:
  "\<exists>net out k net'.
     run_machine (net_turn (demo_env False) (\<lambda>_. True) (\<lambda>_. ''d'')) demo_turns demo_net = Inr (net, out) \<and>
     (\<forall>k'\<ge>k. \<exists>out. run_machine (net_turn (demo_env False) (\<lambda>_. True) (\<lambda>_. ''d''))
        (map demo_schedule [0..<k']) net = Inr (net', out)) \<and>
     (\<forall>i\<in>{1, 2}. \<exists>n. nt_nodes net' i = Some n \<and> knows n (3 - i) \<and>
        ref_sha demo_entry \<in> stored (demo_env False) map_of (ds_db (n_db n)))"
proof -
  let ?E = "demo_env False"
  have "card {demo_entry} + card {own_addr 1, own_addr 2} + 5 < 2 ^ 64" by (simp add: card_insert_if)
  then have fin: "finite_setting ?E {demo_entry} {own_addr 1, own_addr 2}"
    by (simp add: finite_setting_def demo_travels)
  have sets: "\<forall>i n. nt_nodes demo_net i = Some n \<longrightarrow> own_addr i \<in> {own_addr 1, own_addr 2} \<and>
      set (my_peers (n_p2p n)) \<subseteq> {own_addr 1, own_addr 2} \<and> entries (map_of (ds_db (n_db n))) \<subseteq> {demo_entry}"
    using demo_entries by (auto simp: demo_net_def demo_node_def db_thread_init_def entries_def split: if_splits)
  from network_synchronises [OF demo_net_started demo_setting fin sets demo_clients demo_fair] obtain net out k net' where
    r: "run_machine (net_turn ?E (\<lambda>_. True) (\<lambda>_. ''d'')) demo_turns demo_net = Inr (net, out)"
      "\<forall>k'\<ge>k. \<exists>out. run_machine (net_turn ?E (\<lambda>_. True) (\<lambda>_. ''d'')) (map demo_schedule [0..<k']) net = Inr (net', out)"
      "grown ?E map_of demo_net net" "grown ?E map_of net net'" "agreed ?E map_of net net'" by blast
  note gr = grown_trans [OF r(3,4)]
  have nodes: "nt_nodes demo_net 2 = Some (demo_node [own_addr 1] demo_db)" "nt_nodes demo_net 1 = Some (demo_node [] [])"
    by (simp_all add: demo_net_def)
  then obtain m n where mn: "nt_nodes net' 2 = Some m" "nt_nodes net' 1 = Some n"
    using gr unfolding grown_def by blast
  have "(2, 1) \<in> links demo_net" using nodes by (simp add: links_def demo_node_def)
  then have j: "(2, 1) \<in> joined net" "(1, 2) \<in> joined net"
    using links_grown [OF r(3)] by (auto simp: joined_def)
  have "stored ?E map_of (ds_db (n_db (demo_node [own_addr 1] demo_db))) \<subseteq> stored ?E map_of (ds_db (n_db m))"
    using gr nodes(1) mn(1) unfolding grown_def by blast
  then have "ref_sha demo_entry \<in> stored ?E map_of (ds_db (n_db m))"
    using demo_stored [of False] by (simp add: demo_node_def db_thread_init_def)
  moreover have "stored ?E map_of (ds_db (n_db m)) = stored ?E map_of (ds_db (n_db n))" "knows m 1" "knows n 2"
    using r(5) j mn unfolding agreed_def by (metis numeral_One one_eq_numeral_iff semiring_norm(83))+
  ultimately show ?thesis using r(1,2) mn by auto
qed

text \<open>
  C4. Daemons join the network: what main starts, whatever the options, the files and the free ports, is
  a network in the first state of the theorems on networks, if the databases hold ads as piac writes
  them; and the peers of a daemon are the ones its options name and the daemons on the ports from the
  default one up to its own, but never itself.
\<close>

theorem daemons_join_network:
  assumes "\<forall>i r. runs i = Some r \<longrightarrow>
    started_by_main B E rr view reach r \<and> run_p2p_port r = i \<and> conf_db_name (run_conf r) = name i"
  shows "net_started E rr view reach name (daemons_net runs) \<and>
    (\<forall>i n. nt_nodes (daemons_net runs) i = Some n \<longrightarrow>
       (\<exists>r. runs i = Some r \<and> set (my_peers (n_p2p n)) =
          (set (init_peers (run_conf r)) - {own_addr i}) \<union> own_addr ` {default_p2p_port (run_conf r)..<i}))"
proof -
  have "set (my_peers (run_p2p r)) = (set (init_peers (run_conf r)) - {own_addr i}) \<union>
      own_addr ` {default_p2p_port (run_conf r)..<i}" if r: "runs i = Some r" for i r
  proof -
    obtain W argv opts left_args acts where "daemon_main B E W argv opts left_args = Inr (acts, Inr r)"
      using assms r unfolding started_by_main_def by blast
    then have "p2p_thread_init (w_reach W) (default_p2p_port (run_conf r)) (run_p2p_port r) (uset_of (init_peers (run_conf r)))
        = Inr (run_p2p r, run_connects r)"
      by (elim daemon_main_value) (rule start_p2p_value)
    from p2p_thread_init_told(3) [OF _ this] show ?thesis using assms r by simp
  qed
  moreover have "net_started E rr view reach name (daemons_net runs)"
    by (rule daemons_net_started) (use assms in blast)
  ultimately show ?thesis by (auto simp: daemons_net_def daemon_node_def)
qed

lemma daemons_join_network_witness:
  "\<exists>acts1 r1 acts2 r2. demo_launch ''1'' [] = Inr (acts1, Inr r1) \<and>
     demo_launch ''2'' [''localhost:1''] = Inr (acts2, Inr r2) \<and>
     net_started (demo_env False) (\<lambda>p. p) map_of (\<lambda>_. True) (\<lambda>_. ''d'') (daemons_net [1 \<mapsto> r1, 2 \<mapsto> r2])"
proof (rule demo_launched)
  fix acts1 r1 acts2 r2
  assume r: "demo_launch ''1'' [] = Inr (acts1, Inr r1)" "run_p2p_port r1 = 1" "conf_db_name (run_conf r1) = ''d''"
    "demo_launch ''2'' [''localhost:1''] = Inr (acts2, Inr r2)" "run_p2p_port r2 = 2" "conf_db_name (run_conf r2) = ''d''"
  have "\<forall>i r. [1 \<mapsto> r1, 2 \<mapsto> r2] i = Some r \<longrightarrow>
      started_by_main demo_build (demo_env False) (\<lambda>p. p) map_of (\<lambda>_. True) r \<and> run_p2p_port r = i \<and>
      conf_db_name (run_conf r) = ''d''"
    using r demo_launch_started by auto
  from daemons_join_network [OF this] r show ?thesis by blast
qed

text \<open>
  C2. An ad reaches every daemon. A user with a wallet, whose digest is not empty and has no "AUTH:" in
  it, gives the client "db add json" and a file that the daemon's host has and that can be read, and the
  request the client then sends is handled by a daemon. The network is as in C1: release builds on
  databases that do not fail, started, connected to each other's addresses, with ads of a finite set T,
  to which the user's ads belong; all other requests before and after are ones that a daemon survives,
  add no other ads than those of T and name none of T for removal. Then after any fair schedule of turns
  without clients the network is at rest, and every daemon that is connected with the one asked, directly
  or through others, stores each ad of the file, and its author there is the user's digest up to its
  first NUL character (C30).
\<close>

theorem ad_reaches_network:
  assumes "net_started E rr view reach name net0" and "\<not> e_dbg E" and "no_faults E" and "meets reach net0"
    and "finite_setting E T A"
    and "\<forall>i n. nt_nodes net0 i = Some n \<longrightarrow> own_addr i \<in> A \<and> set (my_peers (n_p2p n)) \<subseteq> A \<and>
      entries (view (ds_db (n_db n))) \<subseteq> T"
    and "\<forall>ev\<in>set es1 \<union> set es2. client_ok E T ev" and "fair (dom (nt_nodes net0)) f" and "i \<in> dom (nt_nodes net0)"
    and "send_cmd C evs cmd host key keys (Some w) = Inr acts" and "(m, h) \<in> set (requests acts)"
    and "trim cmd = ''db add json '' @ file" and "user = c_sha C (w_primary_address (c_wallet C) w)"
    and "user \<noteq> []" and "rfind_sub ''AUTH:'' user = None"
    and "e_files E file \<noteq> None" and "deserializeFromFile (e_json E) (e_files E) file [] = Inr (ok, ds)"
    and "client_entry E user ` set ds \<subseteq> T" and "d \<in> set ds"
  shows "\<exists>net out. run_machine (net_turn E reach name) (es1 @ DbTurn i (Some [m]) False # es2) net0 = Inr (net, out) \<and>
    joined net0 \<subseteq> joined net \<and> author_of E (client_entry E user d) = Some (cstr user) \<and>
    (\<exists>k net'. (\<forall>k'\<ge>k. \<exists>out. run_machine (net_turn E reach name) (map f [0..<k']) net = Inr (net', out)) \<and>
       (\<forall>j. (i, j) \<in> joined net \<longrightarrow>
          (\<exists>n. nt_nodes net' j = Some n \<and> client_entry E user d \<in> entries (view (ds_db (n_db n))))))"
proof -
  note free = started_free [OF assms(1,4)]
  have inv: "net_inv E rr view name net0" by (rule net_started_inv(1) [OF assms(1)])
  have snd: "sound_setting E (\<lambda>_. True)" using assms(2,3) by (simp add: sound_setting_def)
  have cmd: "trim cmd = add_cmd file" using assms(12) by (simp add: add_cmd_def)
  let ?es = "es1 @ DbTurn i (Some [m]) False # es2" and ?run = "\<lambda>es. run_machine (net_turn E (\<lambda>_. True) name) es"
  obtain net out k net' where r: "?run ?es net0 = Inr (net, out)" "joined net0 \<subseteq> joined net"
    "\<forall>k'\<ge>k. \<exists>out. ?run (map f [0..<k']) net = Inr (net', out)"
    "\<forall>j. (i, j) \<in> joined net \<longrightarrow>
       (\<exists>n. nt_nodes net' j = Some n \<and> e_sha E (client_entry E user d) \<in> stored E view (ds_db (n_db n)))"
    using published [OF inv started_good [OF free(2) snd assms(5,6)] assms(9,7,8)
        send_cmd_add [OF assms(10,11) cmd assms(13,15)] trim_add_cmd [OF cmd] assms(14,16-19)] by blast
  obtain out' where "?run (map f [0..<k]) net = Inr (net', out')" using r(3) by blast
  note inv' = netw.run_inv [OF netw.run_inv [OF inv r(1)] this]
  have "travels E (client_entry E user d)" using assms(5,18,19) by (auto simp: finite_setting_def)
  then have "\<exists>n. nt_nodes net' j = Some n \<and> client_entry E user d \<in> entries (view (ds_db (n_db n)))"
    if "(i, j) \<in> joined net" for j
    using r(4) that stored_travels [OF inv'] by blast
  moreover have "author_of E (client_entry E user d) = Some (cstr user)"
    using net_inv_json_laws [OF inv] assms(9) file_ad_author [OF _ assms(17,19)] by blast
  ultimately show ?thesis
    using r(1-3) unfolding run_free(1) [OF free(1)] run_free(1) [OF run_connects [OF free(1) r(1)], symmetric]
    by blast
qed

lemma ad_reaches_network_witness:
  "\<exists>acts1 r1 acts2 r2 net out k net' n.
     demo_launch ''1'' [] = Inr (acts1, Inr r1) \<and> demo_launch ''2'' [''localhost:1''] = Inr (acts2, Inr r2) \<and>
     run_machine (net_turn (demo_env False) (\<lambda>_. True) (\<lambda>_. ''d'')) [DbTurn 1 (Some [''db add json ads AUTH:alice'']) False]
       (daemons_net [1 \<mapsto> r1, 2 \<mapsto> r2]) = Inr (net, out) \<and>
     (\<forall>k'\<ge>k. \<exists>out. run_machine (net_turn (demo_env False) (\<lambda>_. True) (\<lambda>_. ''d''))
        (map demo_schedule [0..<k']) net = Inr (net', out)) \<and>
     nt_nodes net' 2 = Some n \<and> demo_entry \<in> entries (map_of (ds_db (n_db n))) \<and>
     author_of (demo_env False) demo_entry = Some ''alice''"
proof (rule demo_launched)
  fix acts1 r1 acts2 r2
  assume r: "demo_launch ''1'' [] = Inr (acts1, Inr r1)" "run_p2p_port r1 = 1" "conf_db_name (run_conf r1) = ''d''"
    "my_peers (run_p2p r1) = []" "ds_db (run_db r1) = []"
    "demo_launch ''2'' [''localhost:1''] = Inr (acts2, Inr r2)" "run_p2p_port r2 = 2" "conf_db_name (run_conf r2) = ''d''"
    "my_peers (run_p2p r2) = [own_addr 1]" "ds_db (run_db r2) = []"
  let ?E = "demo_env False" and ?net = "daemons_net [1 \<mapsto> r1, 2 \<mapsto> r2]"
  have start: "net_started ?E (\<lambda>p. p) map_of (\<lambda>_. True) (\<lambda>_. ''d'') ?net"
    by (rule daemons_net_started) (use r demo_launch_started in \<open>auto split: if_splits\<close>)
  have nodes: "nt_nodes ?net = [1 \<mapsto> daemon_node r1, 2 \<mapsto> daemon_node r2]" by (auto simp: daemons_net_def)
  have "card {demo_entry} + card {own_addr 1, own_addr 2} + 5 < 2 ^ 64" by (simp add: card_insert_if)
  then have fin: "finite_setting ?E {demo_entry} {own_addr 1, own_addr 2}"
    by (simp add: finite_setting_def demo_travels)
  have sets: "\<forall>i n. nt_nodes ?net i = Some n \<longrightarrow> own_addr i \<in> {own_addr 1, own_addr 2} \<and>
      set (my_peers (n_p2p n)) \<subseteq> {own_addr 1, own_addr 2} \<and> entries (map_of (ds_db (n_db n))) \<subseteq> {demo_entry}"
    using r by (auto simp: nodes daemon_node_def entries_def split: if_splits)
  have "dom (nt_nodes ?net) = dom (nt_nodes demo_net)" by (auto simp: nodes demo_net_def)
  with demo_fair have fair: "fair (dom (nt_nodes ?net)) demo_schedule" by simp
  have "send_cmd demo_user [Reply ''ok''] ''db add json ads'' ''h'' [] \<lparr>public_key = [], secret_key = []\<rparr> (Some ''alice'')
      = Inr [OpenSocket [ConnectTo ''tcp://h'', SetLinger 0], Request ''db add json ads AUTH:alice'' ''h'', Out (''ok'' @ eol)]"
    by code_simp
  note send = this
  obtain d where d: "deserializeFromFile ref_json [''ads'' \<mapsto> Document_serialize ref_json demo_doc] ''ads'' [] = Inr (True, [d])"
    "client_entry ?E ''alice'' d = demo_entry" by (rule demo_ads_file)
  have f: "deserializeFromFile (e_json ?E) (e_files ?E) ''ads'' [] = Inr (True, [d])" using d(1) by simp
  have t: "trim ''db add json ads'' = ''db add json '' @ ''ads''" "rfind_sub ''AUTH:'' ''alice'' = None"
    "''alice'' = c_sha demo_user (w_primary_address (c_wallet demo_user) ''alice'')" by code_simp+
  have "\<exists>net out. run_machine (net_turn ?E (\<lambda>_. True) (\<lambda>_. ''d''))
        ([] @ DbTurn 1 (Some [''db add json ads AUTH:alice'']) False # []) ?net = Inr (net, out) \<and>
      joined ?net \<subseteq> joined net \<and> author_of ?E (client_entry ?E ''alice'' d) = Some (cstr ''alice'') \<and>
      (\<exists>k net'. (\<forall>k'\<ge>k. \<exists>out. run_machine (net_turn ?E (\<lambda>_. True) (\<lambda>_. ''d'')) (map demo_schedule [0..<k']) net = Inr (net', out)) \<and>
         (\<forall>j. (1, j) \<in> joined net \<longrightarrow>
            (\<exists>n. nt_nodes net' j = Some n \<and> client_entry ?E ''alice'' d \<in> entries (map_of (ds_db (n_db n))))))"
    by (rule ad_reaches_network [OF start demo_setting fin sets _ fair _ send _ t(1,3) _ t(2) _ f]) (simp_all add: nodes d(2))
  then obtain net out k net' where
    n: "run_machine (net_turn ?E (\<lambda>_. True) (\<lambda>_. ''d'')) [DbTurn 1 (Some [''db add json ads AUTH:alice'']) False] ?net = Inr (net, out)"
      "joined ?net \<subseteq> joined net"
      "\<forall>k'\<ge>k. \<exists>out. run_machine (net_turn ?E (\<lambda>_. True) (\<lambda>_. ''d'')) (map demo_schedule [0..<k']) net = Inr (net', out)"
      "\<forall>j. (1, j) \<in> joined net \<longrightarrow> (\<exists>n. nt_nodes net' j = Some n \<and> demo_entry \<in> entries (map_of (ds_db (n_db n))))"
      "author_of ?E demo_entry = Some ''alice''"
    using d(2) by (auto simp: cstr_def NUL_def)
  have "(2, 1) \<in> links ?net" using r by (simp add: links_def nodes daemon_node_def)
  then have "(1, 2) \<in> joined ?net" by (auto simp: joined_def)
  then obtain n where "nt_nodes net' 2 = Some n" "demo_entry \<in> entries (map_of (ds_db (n_db n)))"
    using n(2,4) by blast
  with n(1,3,5) r(1,6) show ?thesis by (intro exI conjI)
qed

end
