(* ===== verification/Spec2Isabelle.thy ===== *)
theory Spec2Isabelle
  imports Cli_Security Listing Matrix_Sending Network_Properties
begin

text \<open>
  piac is a peer-to-peer market place: \<open>piac-daemon\<close> keeps a database of advertisements and exchanges
  them with other daemons, \<open>piac-cli\<close> sends commands of a user to a daemon. This development models the
  C++ code under src/src and proves what makes it correct, and where it is not.

  The program. A daemon (daemon.cpp) reads its options and keys and starts two threads that share the set
  of digests (SHA-256 of the text) of the stored ads. The database thread (daemon_db_thread.cpp) answers
  requests of clients and of the other thread with the operations of db.cpp on a Xapian database. The
  p2p thread (daemon_p2p_thread.cpp) talks to the peers: PEER carries addresses, HASH the digests a daemon
  has, REQ the digests it lacks, DOC the ads asked for; towards the database thread GET asks for
  ads, PUT returns them, INS hands over ads of others, and NEW announces a change. The client (cli.cpp)
  reads command lines, signs changes with the digest of the user's wallet address (monero_util.cpp) and
  sends requests with retries (zmq_util.cpp). Messages between users go over a Matrix server: the client
  runs a thread (cli_matrix_thread.cpp) that logs in, keeps a chain of syncs going, and exchanges and
  stores the keys of encrypted sessions, and a second one (cli_message_thread.cpp) that hears of messages.

  How code corresponds to the model. A function of the code is a HOL function with the name it has in the
  code, loops are the recursive functions named \<open>..._loop\<close>. State that the code passes by reference is
  passed and returned; what goes to a socket or the terminal is returned as a list, in order. Every
  exception, failed assertion or undefined behaviour of the code is an \<open>error\<close> on the left of a sum.
  Hash tables are lists of distinct elements, ordered maps are sorted association lists. Libraries are
  parameters: the records \<open>json_lib\<close> (RapidJSON), \<open>xapian\<close>, \<open>wallet_lib\<close> (monero-cpp), \<open>nlohmann\<close>, \<open>olm_lib\<close>
  (libolm), \<open>pickles\<close> and the digest, with their documented behaviour as the hypotheses \<open>json_laws\<close>,
  \<open>xapian_laws\<close>, \<open>env_laws\<close>, \<open>nlohmann_laws\<close>, \<open>pickle_laws\<close>, \<open>group_law\<close>, \<open>ratchet_law\<close>,
  \<open>identity_law\<close> and \<open>olm_law\<close>; \<open>Ref_Libs\<close> and \<open>Ref_Matrix\<close> give concrete functions that satisfy them. An asynchronous call of mtxclient is an output of the
  turn that makes it, and its callback runs in a later turn with any answer or error. Of the authenticator
  of zmqpp the model says what zmqpp documents (\<open>admits\<close>): once an address is allowed the others are denied.

  The theories, in the order of their imports.
    \<open>Prelude\<close>, \<open>Cpp_String\<close>, \<open>Cpp_Number\<close>: errors, unordered sets, std::string, conversions of numbers.
    \<open>Program\<close>, \<open>Usage\<close>: main functions as programs that act, end with an exit code or go on, the actions
      of the three programs, logging_util.cpp and curve_keygen.cpp; the texts of --help and of the command help.
    \<open>String_Util\<close>, \<open>Json_Document\<close>: string_util.cpp; document.cpp and jsonbase.cpp.
    \<open>Xapian\<close>, \<open>Db\<close>, \<open>Db_Lemmas\<close>, \<open>Db_Store\<close>: the database library and its laws, db.cpp, what each
      operation does to the set of stored digests, and the locale \<open>doc_store\<close> of the store the
      threads rely on, interpreted on db.cpp.
    \<open>Message\<close>: parts of ZeroMQ messages, and the locales \<open>machine\<close> and \<open>live_machine\<close> of a thread that takes
      turns, with the rules for its invariant, its output and its liveness; \<open>run_relation\<close>, a relation that a
      run inherits from its steps.
    \<open>Db_Thread\<close>, \<open>Db_Protocol\<close>: daemon_db_thread.cpp, its invariant and its outputs.
    \<open>P2p_Thread\<close>, \<open>P2p_Lemmas\<close>, \<open>P2p_Protocol\<close>: daemon_p2p_thread.cpp, the same, and the order in which
      peers are told of the daemon.
    \<open>Hash_Sync\<close>: the mutex, condition variable and flag of the digests, one step per statement; and what
      an update leaves, however the steps of the two threads interleave.
    \<open>Zmq_Util\<close>: zmq_util.cpp, requests with retries and the search for a port.
    \<open>Transport\<close>, \<open>Exchange\<close>: what sockets carry; two daemons connected by them, and one whole round of
      synchronisation.
    \<open>Ad_Text\<close>: every stored ad was written by \<open>Document::serialize\<close>, so the database thread never fails on it.
    \<open>Listing\<close>: the listings of the database are its ads, each once.
    \<open>Network\<close>: any number of daemons, with the two threads of each, the queues between these and a
      first-in first-out wire between any two ports; the turns of the threads come in any order. Its invariant.
    \<open>Convergence\<close>: where an ad is on its way through the network, and that it is never lost.
    \<open>Bounds\<close>, \<open>Settling\<close>: all ads and addresses stay in given finite sets; a measure of the work that
      is left, and that a fair schedule comes to rest (the locale \<open>settling_machine\<close> of \<open>Message\<close>).
    \<open>Monero_Util\<close>, \<open>Cli_Main\<close>, \<open>Cli_Protocol\<close>, \<open>Cli_Security\<close>: monero_util.cpp, cli.cpp, what a session
      sends and which keys its sockets have.
    \<open>Daemon_Main\<close>: daemon.cpp, from the options to the two running threads.
    \<open>Daemon_Network\<close>, \<open>Publish\<close>: what main starts is a network in its first state; from the command of a user
      to the databases of all daemons.
    \<open>Reach\<close>: which addresses daemons connect to, and that daemons that have started and can connect to each
      other run as if every address could be connected to.
    \<open>Network_Properties\<close>: the properties of the network.
    \<open>Cpp_Map\<close>, \<open>Nlohmann\<close>: std::map, with the locale \<open>ordered_map\<close>, and the JSON values of nlohmann::json.
    \<open>Matrix_Storage\<close>: the \<open>Storage\<close> of cli_matrix_thread.cpp, its file, and that loading undoes saving.
    \<open>Matrix_Crypto\<close>, \<open>Matrix_Thread\<close>: the rest of the file, keys and sessions; callbacks and turns.
    \<open>Message_Thread\<close>: cli_message_thread.cpp.
    \<open>Matrix_Protocol\<close>, \<open>Matrix_Properties\<close>: the invariants of the Matrix thread, as interpretations of
      \<open>machine\<close>, and its properties.
    \<open>Matrix_Sharing\<close>, \<open>Matrix_Conversation\<close>, \<open>Matrix_Sending\<close>: sharing a room key, and what no turn of the
      client changes; two clients, from the messages one sends with a session to the texts the other
      reads; that no message leaves a client before it has such a session, and why it gets none.
    \<open>Ref_Libs\<close>, \<open>Demo\<close>: reference instances of the libraries and the small states the witnesses use.

  What the properties show, in the order of their numbers. A network of daemons synchronises, an ad that a
  user adds at one daemon reaches all others, the network keeps running, and daemons that main starts
  make such a network. A debug build completes a round of synchronisation, the cache of digests is
  exact, additions, removals, lookups and listings do what they say, and only the author named in a request loses ads.
  The messages of the p2p thread are well formed and in order, and when the thread goes on or ends. How the
  two threads share the digests. The chain of syncs of the Matrix thread, what its files bring back, that
  another client reads what a session sends, and which device keys count. Requests and ports. The text of ads and
  commands, and which requests end a daemon.
  Sessions of the client and their encryption, its message thread, its end, and
  what it never sends. Whom a daemon lets in, and
  whom it finds.

  Bounds. \<open>pirate_loop\<close> is a partial function over the events of the poll: it is undefined only when
  the events end before the request does, and five time-outs or one non-empty reply are enough. The
  search for a port ends in the model because the port is an int below 2^31. All other loops run over
  lists or counters.

  In the network of daemons, which are release builds on databases that do not fail and can connect to each
  other, ads and addresses are taken from finite sets whose sizes together stay below 2^64 - 5, so that no count overflows; the work that is left is a natural number, computed from them,
  that every turn with something to do makes smaller.

  Not modelled: the lines of the log, the colours of the terminal apart from the prompt, the parsing of the
  command line by getopt_long and of input by readline, an error that Xapian raises in the middle of an
  iteration, the loss, delay and reconnection of real networks (the wires between the daemons of a
  network are reliable and first-in first-out), and in the Matrix client the lifetime of what a callback
  captures by reference and the race between a message of the user and a callback: a message of the user is
  a turn of its own. Headers without code are declarations of what is modelled from the source files.
\<close>

section \<open>Daemons\<close>

text \<open>
  C5. Daemons synchronise. When A broadcasts its digests to a peer B, and the messages the two daemons
  then exchange (HASH, REQ, GET, PUT, DOC, INS) are handled, on a database that does not fail, no handler fails, A's database is
  untouched, B's cache is again what its database holds, and B holds the ads it held and all
  of A's. The ads of A must be in the canonical text that the JSON library writes.
\<close>

theorem daemons_synchronise:
  assumes "linked E rr view A B" and "no_faults E"
    and "\<forall>e\<in>entries (view (ds_db (d_db A))). peer_entry E e = Some e"
  shows "\<exists>A' B'. sync_round E reach A B = Inr (A', B') \<and> d_db A' = d_db A \<and>
    db_thread_inv E rr view (d_name B) (d_db B') \<and>
    stored E view (ds_db (d_db B'))
      = stored E view (ds_db (d_db B)) \<union> stored E view (ds_db (d_db A))"
  by (rule sync_round_correct [OF assms])

lemma daemons_synchronise_witness:
  "\<exists>A' B'. sync_round (demo_env True) (\<lambda>_. True) demo_A demo_B = Inr (A', B') \<and>
     stored (demo_env True) map_of (ds_db (d_db B')) = {ref_sha demo_entry}"
proof -
  have "ds_db (d_db demo_A) = demo_db" "ds_db (d_db demo_B) = []"
    by (simp_all add: demo_A_def demo_B_def db_thread_init_def)
  moreover have "stored (demo_env True) map_of [] = {}" by (simp add: stored_def entries_def)
  ultimately show ?thesis
    using daemons_synchronise [OF demo_linked demo_env_ok(3), of "\<lambda>_. True"]
    by (auto simp: demo_entries demo_canonical demo_stored)
qed

section \<open>The database thread\<close>

text \<open>
  C6. The cache of digests is never stale between turns: after any sequence of client and peer
  messages that the thread survives, the cache holds exactly the digests of the stored ads, every
  stored ad is keyed by its digest, and the messages sent are one-part replies to clients and
  well-formed notes to the p2p thread.
\<close>

theorem db_thread_cache:
  assumes "db_ok E rr view db_name db"
    and "run_machine (db_thread_turn E db_name) es (db_thread_init E db_name db) = Inr (s, out)"
  shows "set (my_hashes s) = stored E view (ds_db s) \<and> keyed (e_sha E) (view (ds_db s)) \<and>
    (\<forall>x\<in>set out. good_db_out x)"
proof -
  note start = db_thread_init_inv [OF assms(1)]
  have "db_thread_inv E rr view db_name s" by (rule dbt.run_inv [OF start assms(2)])
  moreover have "\<forall>x\<in>set out. good_db_out x" using dbt.run_out [OF start assms(2)] by blast
  ultimately show ?thesis by (simp add: db_thread_inv_def db_ok_def)
qed

definition demo_rm :: message where
  "demo_rm = [''db rm '' @ ref_hex (ref_sha demo_entry) @ '' AUTH:alice'']"

definition demo_db_events :: "(string list \<times> message option \<times> message option) list" where
  "demo_db_events =
     [([], Some [''db add json ads AUTH:bob''], None),
      ([], Some demo_rm, Some [''GET'', ''localhost:9'', ''1'', ref_sha demo_entry])]"

lemma db_thread_cache_witness:
  "\<exists>s out. run_machine (db_thread_turn (demo_env True) ''d'') demo_db_events
     (db_thread_init (demo_env True) ''d'' demo_db) = Inr (s, out) \<and>
     set (my_hashes s) = stored (demo_env True) map_of (ds_db s) \<and> length out = 5"
proof -
  define r where "r = run_machine (db_thread_turn (demo_env True) ''d'') demo_db_events
     (db_thread_init (demo_env True) ''d'' demo_db)"
  have "case r of Inl err \<Rightarrow> False | Inr (s, out) \<Rightarrow> length out = 5" unfolding r_def by code_simp
  then obtain s out where r: "r = Inr (s, out)" "length out = 5" by (cases r) auto
  from db_thread_cache [OF demo_db_ok r(1) [unfolded r_def]] r show ?thesis
    unfolding r_def by auto
qed

text \<open>
  C7. A client can only remove its own ads: an ad that is stored before a client's request and whose
  digest is gone after it is an ad whose recorded author is the user the request carries, and the
  request is a removal that names the digest.
\<close>

theorem client_removes_own_ads:
  assumes "db_thread_inv E rr view db_name s"
    and "db_client_op E db_name peers msg s = Inr (s', out)"
    and "e \<in> entries (view (ds_db s))" and "e_sha E e \<notin> stored E view (ds_db s')"
  shows "\<exists>user cmd e'. split_auth (hd msg) = Inr (user, cmd) \<and> e' \<in> entries (view (ds_db s)) \<and>
    e_sha E e' = e_sha E e \<and> author_of E e' = Some user \<and>
    chars_match ''rm'' (drop 3 cmd) \<and> hex E (e_sha E e) \<in> set (tokenize (trim (drop 6 cmd)))"
  by (rule db_client_op_removes [OF assms])

lemma client_removes_own_ads_witness:
  "\<exists>user cmd e'. split_auth (hd demo_rm) = Inr (user, cmd) \<and>
     ref_sha e' = ref_sha demo_entry \<and> author_of (demo_env True) e' = Some user"
proof -
  let ?s = "db_thread_init (demo_env True) ''d'' demo_db"
  define r where "r = db_client_op (demo_env True) ''d'' [] demo_rm ?s"
  have "case r of Inl err \<Rightarrow> False | Inr (s, out) \<Rightarrow> ds_db s = []" unfolding r_def by code_simp
  then obtain s out where r: "r = Inr (s, out)" "ds_db s = []" by (cases r) auto
  have "demo_entry \<in> entries (map_of (ds_db ?s))" by (simp add: db_thread_init_def demo_entries)
  moreover have "e_sha (demo_env True) demo_entry \<notin> stored (demo_env True) map_of (ds_db s)"
    by (simp add: r stored_def entries_def)
  ultimately show ?thesis
    using client_removes_own_ads [OF db_thread_init_inv [OF demo_db_ok] r(1) [unfolded r_def], of demo_entry]
    by auto
qed

text \<open>
  C8. A removed ad comes back. When a request to B makes an ad disappear that B held, it is its author who
  removed it there, by a removal that names its digest, and B tells its p2p thread; yet when a peer A
  that still holds the ad next broadcasts its digests, the messages the two then exchange make B hold it
  again, with every other ad of A and what B had left, and A keeps it: a removal reaches no other
  daemon. (On a database that does not fail, and with ads of A in canonical text, as in C5.)
\<close>

theorem removed_ad_returns:
  assumes "linked E rr view A B" and "no_faults E"
    and "\<forall>e\<in>entries (view (ds_db (d_db A))). peer_entry E e = Some e"
    and "db_client_op E (d_name B) peers msg (d_db B) = Inr (s, out)"
    and "e \<in> entries (view (ds_db (d_db B)))" and "e_sha E e \<notin> stored E view (ds_db s)"
    and "e_sha E e \<in> stored E view (ds_db (d_db A))"
  shows "(\<exists>user cmd r. split_auth (hd msg) = Inr (user, cmd) \<and> author_of E e = Some user \<and>
       chars_match ''rm'' (drop 3 cmd) \<and> hex E (e_sha E e) \<in> set (tokenize (trim (drop 6 cmd))) \<and>
       out = [ToP2p [''NEW''], ToClient [r]]) \<and>
    (\<exists>A' B'. sync_round E reach A (B\<lparr>d_db := s\<rparr>) = Inr (A', B') \<and> d_db A' = d_db A \<and>
       e_sha E e \<in> stored E view (ds_db (d_db B')) \<and>
       stored E view (ds_db (d_db B')) = stored E view (ds_db s) \<union> stored E view (ds_db (d_db A)))"
proof
  have inv: "db_thread_inv E rr view (d_name B) (d_db B)" using assms(1) by (simp add: linked_def)
  from linked_db [OF assms(1) db_client_op_inv [OF this assms(4)]]
  have "linked E rr view A (B\<lparr>d_db := s\<rparr>)" .
  from sync_round_correct [OF this assms(2,3), of reach] assms(7)
  show "\<exists>A' B'. sync_round E reach A (B\<lparr>d_db := s\<rparr>) = Inr (A', B') \<and> d_db A' = d_db A \<and>
      e_sha E e \<in> stored E view (ds_db (d_db B')) \<and>
      stored E view (ds_db (d_db B')) = stored E view (ds_db s) \<union> stored E view (ds_db (d_db A))" by auto
  show "\<exists>user cmd r. split_auth (hd msg) = Inr (user, cmd) \<and> author_of E e = Some user \<and>
      chars_match ''rm'' (drop 3 cmd) \<and> hex E (e_sha E e) \<in> set (tokenize (trim (drop 6 cmd))) \<and>
      out = [ToP2p [''NEW''], ToClient [r]]"
    by (rule own_ad_removed [OF inv assms(4,5,6)])
qed

lemma removed_ad_returns_witness:
  "\<exists>s out A' B'. db_client_op (demo_env True) ''b.db'' [] demo_rm (db_thread_init (demo_env True) ''b.db'' demo_db) = Inr (s, out) \<and>
     stored (demo_env True) map_of (ds_db s) = {} \<and> ToP2p [''NEW''] \<in> set out \<and>
     sync_round (demo_env True) (\<lambda>_. True) demo_A (demo_B\<lparr>d_db := s\<rparr>) = Inr (A', B') \<and>
     ref_sha demo_entry \<in> stored (demo_env True) map_of (ds_db (d_db B'))"
proof -
  let ?B = "demo_B\<lparr>d_db := db_thread_init (demo_env True) ''b.db'' demo_db\<rparr>"
  define r where "r = db_client_op (demo_env True) ''b.db'' [] demo_rm (db_thread_init (demo_env True) ''b.db'' demo_db)"
  have "case r of Inl err \<Rightarrow> False | Inr (s, out) \<Rightarrow> ds_db s = []" unfolding r_def by code_simp
  then obtain s out where r: "r = Inr (s, out)" "ds_db s = []" by (cases r) auto
  have name: "d_name demo_B = ''b.db''" by (simp add: demo_B_def)
  have L: "linked (demo_env True) (\<lambda>p. p) map_of demo_A ?B"
    by (rule linked_db [OF demo_linked]) (simp add: name db_thread_init_inv demo_db_ok)
  have A: "ds_db (d_db demo_A) = demo_db" by (simp add: demo_A_def db_thread_init_def)
  have s: "stored (demo_env True) map_of (ds_db s) = {}" by (simp add: r stored_def entries_def)
  have B: "ds_db (db_thread_init (demo_env True) ''b.db'' demo_db) = demo_db" by (simp add: db_thread_init_def)
  have op: "db_client_op (demo_env True) (d_name ?B) [] demo_rm (d_db ?B) = Inr (s, out)"
    using r(1) by (simp add: r_def name)
  have canon: "\<forall>e\<in>entries (map_of (ds_db (d_db demo_A))). peer_entry (demo_env True) e = Some e"
    by (simp add: A demo_entries demo_canonical)
  have e: "demo_entry \<in> entries (map_of (ds_db (d_db ?B)))" "e_sha (demo_env True) demo_entry \<notin> stored (demo_env True) map_of (ds_db s)"
    "e_sha (demo_env True) demo_entry \<in> stored (demo_env True) map_of (ds_db (d_db demo_A))"
    by (simp_all add: A B s demo_entries demo_stored)
  note returns = removed_ad_returns [OF L demo_env_ok(3) canon op e, of "\<lambda>_. True"]
  from returns obtain x where "out = [ToP2p [''NEW''], ToClient [x]]" by blast
  then have "ToP2p [''NEW''] \<in> set out" by simp
  moreover from returns obtain A' B' where "sync_round (demo_env True) (\<lambda>_. True) demo_A (?B\<lparr>d_db := s\<rparr>) = Inr (A', B')"
    "e_sha (demo_env True) demo_entry \<in> stored (demo_env True) map_of (ds_db (d_db B'))" by blast
  ultimately show ?thesis using r(1) s by (auto simp: r_def)
qed

text \<open>
  C9. A removal is complete: on a database that does not fail and is not empty, with a cache that holds
  its digests, when every ad asked for belongs to the caller, db_rm_docs removes exactly the ads asked for, keeps all others, and reports their number.
\<close>

theorem removal_complete:
  assumes "xapian_laws (e_xap E) view" and "keyed (e_sha E) (view db)"
    and "no_faults E" and "\<forall>s. length (e_sha E s) = 32"
    and "set hs = stored E view db" and "stored E view db \<noteq> {}"
    and "\<forall>e\<in>entries (view db). hex E (e_sha E e) \<in> set del \<longrightarrow> author_of E e = Some author"
  shows "\<exists>db'. db_rm_docs E author db_name del hs db
      = Inr (removed_info (card {h \<in> stored E view db. hex E h \<in> set del}), db') \<and>
    stored E view db' = {h \<in> stored E view db. hex E h \<notin> set del}"
  by (rule db_rm_docs_complete [OF assms])

lemma removal_complete_witness:
  "\<exists>db'. db_rm_docs (demo_env True) ''alice'' ''d'' [ref_hex (ref_sha demo_entry)] [ref_sha demo_entry] demo_db
      = Inr (removed_info 1, db') \<and> stored (demo_env True) map_of db' = {}"
proof -
  have "{h. h = ref_sha demo_entry \<and> hex (demo_env True) h = ref_hex (ref_sha demo_entry)}
      = {ref_sha demo_entry}" by (auto simp: hex_def)
  then show ?thesis
    using removal_complete [of "demo_env True" map_of demo_db "[ref_sha demo_entry]"
        "[ref_hex (ref_sha demo_entry)]" "''alice''" "''d''"] ref_xapian_laws demo_db_keyed demo_env_ok(3)
    by (auto simp: demo_stored demo_entries demo_author hex_def env_lawsD(3) [OF demo_env_ok(1), simplified])
qed

text \<open>
  C10. An addition is exact: on a database that does not fail, index_db adds the ads of the file that are
  not known yet, each written with the caller as its author (which C30 says how to read), reports their number, and keeps every other ad.
\<close>

theorem addition_exact:
  assumes "xapian_laws (e_xap E) view" and "keyed (e_sha E) (view db)"
    and "no_faults E" and "author \<noteq> []" and "e_files E f \<noteq> None"
    and "deserializeFromFile (e_json E) (e_files E) f [] = Inr (ok, ds)"
  shows "\<exists>db'. index_db E author db_name f hs db
      = Inr (added_info (length (new_docs E author hs ds)), db') \<and>
    stored E view db' = stored E view db \<union>
      (\<lambda>d. e_sha E (client_entry E author d)) ` set (new_docs E author hs ds)"
  by (rule index_db_adds [OF assms])

lemma addition_exact_witness:
  "\<exists>db'. index_db (demo_env True) ''bob'' ''d'' ''ads'' [] demo_db = Inr (added_info 1, db') \<and>
     ref_sha demo_entry \<in> stored (demo_env True) map_of db'"
proof -
  define r where "r = deserializeFromFile ref_json [''ads'' \<mapsto> Document_serialize ref_json demo_doc] ''ads'' []"
  have "initDocument ref_json (Document_serialize ref_json demo_doc) = Some (doc_json demo_doc)"
    using json_laws_serialize(3) [OF ref_json_laws demo_finite] by simp
  then have "case r of Inl err \<Rightarrow> False | Inr (ok, ds) \<Rightarrow> length ds = 1"
    by (simp add: r_def deserializeFromFile_def Documents_deserialize_single)
  then obtain ok ds where r: "r = Inr (ok, ds)" "length ds = 1" by (cases r) auto
  have "length (new_docs (demo_env True) ''bob'' [] ds) = 1" using r(2) by (simp add: new_docs_def)
  then show ?thesis
    using addition_exact [of "demo_env True" map_of demo_db "''bob''" "''ads''" ok ds "''d''" "[]"]
      ref_xapian_laws demo_db_keyed demo_env_ok(3) r(1)
    by (auto simp: r_def demo_stored)
qed

text \<open>
  C11. A lookup for a peer is exact: asked for digests of the cache, the database thread answers with
  one PUT message that holds, in order, for each digest the ad with that digest.
\<close>

theorem lookup_exact:
  assumes "db_thread_inv E rr view db_name s" and "hs \<noteq> []" and "set hs \<subseteq> set (my_hashes s)"
    and "length hs < 2 ^ 64"
  shows "\<exists>ds. db_peer_op E db_name (''GET'' # addr # nat_to_string (length hs) # hs) s
      = Inr (s, [ToP2p (''PUT'' # addr # nat_to_string (length ds) # ds)]) \<and> map (e_sha E) ds = hs"
proof -
  have ok: "db_ok E rr view db_name (ds_db s)" and my: "set (my_hashes s) = stored E view (ds_db s)"
    using assms(1) by (simp_all add: db_thread_inv_def)
  have "\<forall>h\<in>set hs. length h = 32"
    using assms(3) my db_okD(1) [OF ok] by (auto simp: stored_def env_laws_def)
  then obtain ds where "db_get_docs E db_name hs (ds_db s) = Inr ds" "map (e_sha E) ds = hs"
    using store.get_known [OF ok _ assms(3) [unfolded my]] by blast
  with get_msg_served [OF assms(4,2)] show ?thesis by blast
qed

lemma lookup_exact_witness:
  "\<exists>ds. db_peer_op (demo_env True) ''d'' [''GET'', ''localhost:1'', ''1'', ref_sha demo_entry]
      (db_thread_init (demo_env True) ''d'' demo_db)
    = Inr (db_thread_init (demo_env True) ''d'' demo_db,
        [ToP2p (''PUT'' # ''localhost:1'' # nat_to_string (length ds) # ds)]) \<and>
    map ref_sha ds = [ref_sha demo_entry]"
proof -
  let ?s = "db_thread_init (demo_env True) ''d'' demo_db"
  note inv = db_thread_init_inv [OF demo_db_ok, of True "''d''"]
  have "ds_db ?s = demo_db" by (simp add: db_thread_init_def)
  then have "set (my_hashes ?s) = {ref_sha demo_entry}"
    using inv demo_stored by (simp add: db_thread_inv_def)
  moreover have "nat_to_string 1 = ''1''" by code_simp
  ultimately show ?thesis
    using lookup_exact [OF inv, of "[ref_sha demo_entry]" "''localhost:1''"] by simp
qed

text \<open>
  C12. A listing is exact: the database thread tells a client of every stored ad once, in one order for the
  two listings, with its digest and with the digest of its author in hexadecimal, and the two counts are
  the number of ads and the number of different authors; a listing changes nothing.
\<close>

theorem list_reports:
  assumes "db_written_inv E rr view db_name s"
  shows "\<exists>es. distinct es \<and> set es = entries (view (ds_db s)) \<and>
    db_client_op E db_name peers [''db list''] s = Inr (s, [ToClient [list_info (map (ad_line E) es)]]) \<and>
    db_client_op E db_name peers [''db list hash''] s
      = Inr (s, [ToClient [list_info (map (\<lambda>e. hex E (e_sha E e)) es)]]) \<and>
    db_client_op E db_name peers [''db list numdoc''] s
      = Inr (s, [ToClient [''Number of documents: '' @ nat_to_string (length es)]]) \<and>
    db_client_op E db_name peers [''db list numusr''] s
      = Inr (s, [ToClient [''Number of users: '' @ nat_to_string (card {a. \<exists>e\<in>set es. author_of E e = Some a})]])"
proof -
  note D = db_written_invD [OF assms]
  let ?es = "db_entries E db_name (ds_db s)"
  have es: "distinct ?es" "set ?es = entries (view (ds_db s))"
    using distinct_db_entries [OF D(3,5)] set_db_entries [OF D(3,6)] by simp_all
  then have n: "get_doccount E db_name (ds_db s) = length ?es"
    using get_doccount_entries [OF D(3,5,6)] distinct_card by metis
  have r: "\<forall>e\<in>set ?es. readable E e"
    using es(2) D(2) ad_text_readable [OF D(4)] by (simp add: ads_written_def)
  show ?thesis
    by (rule exI [of _ ?es])
      (simp add: es list_requests db_list_forms db_list_doc_def list_doc_loop_lines [OF r]
        db_list_numuser_card [OF r] db_list_hash_def sha256_def n)
qed

lemma list_reports_witness:
  "\<exists>s. ds_db s = demo_db \<and> db_client_op (demo_env True) ''d'' [] [''db list numusr''] s
      = Inr (s, [ToClient [''Number of users: 1'']]) \<and>
    db_client_op (demo_env True) ''d'' [] [''db list hash''] s
      = Inr (s, [ToClient [list_info [ref_hex (ref_sha demo_entry)]]])"
proof -
  let ?s = "db_thread_init (demo_env True) ''d'' demo_db"
  have d: "ds_db ?s = demo_db" by (simp add: db_thread_init_def)
  have "ads_written (demo_env True) map_of demo_db"
    unfolding ads_written_def demo_entries ad_text_def demo_entry_def client_entry_def
    by (auto intro!: exI [of _ "demo_doc\<lparr>m_author := ''alice''\<rparr>"])
  then have w: "db_written_inv (demo_env True) (\<lambda>p. p) map_of ''d'' ?s"
    using db_thread_init_inv [OF demo_db_ok] by (simp add: db_written_inv_def d)
  obtain es where es: "distinct es" "set es = {demo_entry}"
    and l: "db_client_op (demo_env True) ''d'' [] [''db list hash''] ?s
        = Inr (?s, [ToClient [list_info (map (\<lambda>e. ref_hex (ref_sha e)) es)]])"
      "db_client_op (demo_env True) ''d'' [] [''db list numusr''] ?s
        = Inr (?s, [ToClient [''Number of users: '' @ nat_to_string (card {a. \<exists>e\<in>set es. author_of (demo_env True) e = Some a})]])"
    using list_reports [OF w, of "[]"] by (auto simp: d demo_entries hex_def)
  have "es = [demo_entry]" using es by (cases es; cases "tl es") auto
  moreover have "card {a. \<exists>e\<in>{demo_entry}. author_of (demo_env True) e = Some a} = 1"
    by (simp add: demo_author)
  moreover have "''Number of users: '' @ nat_to_string 1 = ''Number of users: 1''" by code_simp
  ultimately show ?thesis using l es(2) d by (intro exI [of _ ?s]) simp
qed



text \<open>
  C14. Every request of a client that is handled gets exactly one reply, of one part. If its command is an
  addition or a removal ("db add", "db rm"), the p2p thread is told of news first; any other command
  tells the p2p thread nothing and changes nothing.
\<close>

theorem client_gets_one_reply:
  assumes "db_client_op E db_name peers msg s = Inr (s', out)"
  shows "\<exists>user cmd r. split_auth (hd msg) = Inr (user, cmd) \<and>
    (if chars_match ''db'' cmd \<and> (chars_match ''add'' (drop 3 cmd) \<or> chars_match ''rm'' (drop 3 cmd))
     then out = [ToP2p [''NEW''], ToClient [r]] else out = [ToClient [r]] \<and> s' = s)"
  by (rule db_client_op_news [OF assms])

lemma client_gets_one_reply_witness:
  "\<exists>r. snd (case db_client_op (demo_env True) ''d'' [] demo_rm (db_thread_init (demo_env True) ''d'' demo_db) of
       Inr x \<Rightarrow> x) = [ToP2p [''NEW''], ToClient [r]]"
proof -
  define r where "r = db_client_op (demo_env True) ''d'' [] demo_rm
    (db_thread_init (demo_env True) ''d'' demo_db)"
  have "case r of Inl err \<Rightarrow> False | Inr (s, out) \<Rightarrow> length out = 2" unfolding r_def by code_simp
  then obtain s out where r: "r = Inr (s, out)" "length out = 2" by (cases r) auto
  from client_gets_one_reply [OF r(1) [unfolded r_def]] r show ?thesis
    unfolding r_def [symmetric] by (auto split: if_splits)
qed

section \<open>The p2p thread\<close>

text \<open>
  C15. A daemon introduces itself before it exchanges ads: from the start of the p2p thread, over any run,
  no peer is sent digests (HASH) or a request for ads (REQ) before it was sent a list of peers (PEER)
  with the daemon's own address among the addresses; and the daemon is never its own peer.
\<close>

theorem p2p_introduces_itself:
  assumes "distinct peers0" and "p2p_thread_init reach p0 p2p_port peers0 = Inr (s0, out0)"
    and "run_machine (p2p_thread_turn E reach p2p_port) es s0 = Inr (s, out)"
  shows "introduced p2p_port {} (out0 @ out) \<and> own_addr p2p_port \<notin> set (my_peers s) \<and> distinct (my_peers s)"
proof -
  have "run_machine (traced (p2p_thread_turn E reach p2p_port)) es (out0, s0) = Inr ((out0 @ out, s), out)"
    by (simp add: run_traced assms(3))
  from p2p_hist.run_inv [OF p2p_thread_init_told(1) [OF assms(1,2)] this] show ?thesis
    by (simp add: p2p_told_inv_def p2p_inv_def)
qed

definition demo_p2p_events :: "p2p_event list" where
  "demo_p2p_events =
     [([''h''], Some [''id'', ''PEER'', ''2'', ''localhost:7'', ''localhost:5''], None),
      ([''h''], Some [''id'', ''HASH'', ''localhost:7'', ''1'', ''x''], Some [''NEW'']),
      ([''h''], Some [''id'', ''REQ'', ''localhost:7'', ''1'', ''h''], None)]"

lemma p2p_introduces_itself_witness:
  "\<exists>s0 out0 s out. p2p_thread_init (\<lambda>_. True) 4 5 [''localhost:5''] = Inr (s0, out0) \<and>
     run_machine (p2p_thread_turn (demo_env True) (\<lambda>_. True) 5) demo_p2p_events s0 = Inr (s, out) \<and>
     introduced 5 {} (out0 @ out) \<and> length out = 11"
proof -
  define i where "i = p2p_thread_init (\<lambda>_. True) 4 5 [''localhost:5'']"
  define r where "r = (case i of Inl e \<Rightarrow> Inl e
    | Inr (s0, out0) \<Rightarrow> run_machine (p2p_thread_turn (demo_env True) (\<lambda>_. True) 5) demo_p2p_events s0)"
  have "case r of Inl err \<Rightarrow> False | Inr (s, out) \<Rightarrow> length out = 11" unfolding r_def i_def by code_simp
  then obtain s out where r: "r = Inr (s, out)" "length out = 11" by (cases r) auto
  then obtain s0 out0 where i: "i = Inr (s0, out0)" by (auto simp: r_def split: sum.splits)
  with r have "run_machine (p2p_thread_turn (demo_env True) (\<lambda>_. True) 5) demo_p2p_events s0 = Inr (s, out)"
    by (simp add: r_def)
  with p2p_introduces_itself [OF _ i [unfolded i_def] this] i r(2) show ?thesis
    unfolding i_def by auto
qed

text \<open>
  C16. What the p2p thread sends is well formed: a count part announces exactly the parts that follow it,
  in every message to a peer and to the database thread, over any run.
\<close>

theorem p2p_sends_well_formed:
  assumes "p2p_inv p2p_port s"
    and "run_machine (p2p_thread_turn E reach p2p_port) es s = Inr (s', out)" and "x \<in> set out"
  shows "good_p2p_out x"
  by (rule p2p.run_out [OF assms])

lemma p2p_sends_well_formed_witness:
  "\<exists>s out. run_machine (p2p_thread_turn (demo_env True) (\<lambda>_. True) 5) demo_p2p_events (demo_p2p 4) = Inr (s, out) \<and>
     out \<noteq> [] \<and> good_p2p_out (hd out)"
proof -
  define r where "r = run_machine (p2p_thread_turn (demo_env True) (\<lambda>_. True) 5) demo_p2p_events (demo_p2p 4)"
  have "case r of Inl err \<Rightarrow> False | Inr (s, out) \<Rightarrow> out \<noteq> []" unfolding r_def by code_simp
  then obtain s out where r: "r = Inr (s, out)" "out \<noteq> []" by (cases r) auto
  have "p2p_inv 5 (demo_p2p 4)"
    using inj_own_addr [of 5 4] by (auto simp: p2p_inv_def demo_p2p_def reqs_ok_def)
  from p2p_sends_well_formed [OF this r(1) [unfolded r_def], of "hd out"] r show ?thesis
    unfolding r_def by auto
qed

text \<open>
  C17. A broadcast of digests is answered with exactly the missing ones: after a HASH message the digests
  wanted from its sender are those wanted before and those of the message that are not in the
  cache; nothing changes for the other peers, and nothing is sent yet.
\<close>

theorem hash_wants_missing:
  assumes "length hs < 2 ^ 64"
  shows "\<exists>s'. p2p_answer_p2p E reach port hashes (ident # hash_msg p hs) s = Inr (s', []) \<and>
    requested (db_requests s') (own_addr p)
      = requested (db_requests s) (own_addr p) \<union> (set hs - set hashes) \<and>
    (\<forall>a. a \<noteq> own_addr p \<longrightarrow> requested (db_requests s') a = requested (db_requests s) a)"
  by (intro exI [of _ "fold (want_hash hashes (own_addr p)) hs s"])
    (simp add: hash_msg_answered [OF assms] fold_want_hash_requested)

lemma hash_wants_missing_witness:
  "\<exists>s'. p2p_answer_p2p (demo_env True) (\<lambda>_. True) 5 [''h''] (''id'' # hash_msg 7 [''h'', ''x'']) (demo_p2p 7)
     = Inr (s', []) \<and> requested (db_requests s') (own_addr 7) = {''x''}"
proof -
  have "{''h'', ''x''} - {''h''} = {''x''}" by auto
  then show ?thesis
    using hash_wants_missing [of "[''h'', ''x'']" "demo_env True" "\<lambda>_. True" 5 "[''h'']" "''id''" 7 "demo_p2p 7"]
    by (auto simp: demo_p2p_def)
qed

text \<open>
  C18. A HASH message from an address that is not a peer's stops the thread: when it offers an unknown
  digest, the next sending phase throws std::out_of_range (\<open>my_peers.at\<close>), which nothing catches.
\<close>

theorem unknown_sender_stops_thread:
  assumes "p2p_inv port s" and "length hs < 2 ^ 64" and "own_addr p \<notin> set (my_peers s)"
    and "\<not> set hs \<subseteq> set hashes"
  shows "\<exists>s'. p2p_answer_p2p E reach port hashes (ident # hash_msg p hs) s = Inr (s', []) \<and>
    p2p_sends port hashes' s' = Inl StdOutOfRange"
proof -
  let ?s = "fold (want_hash hashes (own_addr p)) hs s"
  have inv: "p2p_inv port ?s" using assms(1) by (rule fold_want_hash_inv)
  have "requested (db_requests ?s) (own_addr p) \<noteq> {}"
    using assms(4) by (auto simp: fold_want_hash_requested)
  then have "own_addr p \<in> fst ` set (db_requests ?s)"
    by (auto simp: requested_def split: option.splits dest: map_of_SomeD intro: rev_image_eqI)
  then have "\<not> fst ` set (db_requests ?s) \<subseteq> set (my_peers ?s)" and "db_requests ?s \<noteq> []"
    using assms(3) by (auto simp: fold_want_hash_frame)
  then have "send_requests port (my_peers ?s) (db_requests ?s) = Inl StdOutOfRange"
    and "to_send_db_requests ?s"
    using send_requests_error wanted_to_send [OF inv] by blast+
  then have "p2p_sends port hashes' ?s = Inl StdOutOfRange"
    by (simp add: p2p_sends_def p2p_bcast_peers_def p2p_bcast_hashes_def p2p_send_db_requests_def)
  with hash_msg_answered [OF assms(2)] show ?thesis by blast
qed

lemma unknown_sender_stops_thread_witness:
  "\<exists>s'. p2p_answer_p2p (demo_env False) (\<lambda>_. True) 5 [] (''id'' # hash_msg 9 [''x'']) (demo_p2p 7) = Inr (s', []) \<and>
     p2p_sends 5 [] s' = Inl StdOutOfRange"
proof -
  have "p2p_inv 5 (demo_p2p 7)" "own_addr 9 \<notin> set (my_peers (demo_p2p 7))"
    using inj_own_addr [of 5 7] inj_own_addr [of 9 7] by (auto simp: p2p_inv_def demo_p2p_def reqs_ok_def)
  then show ?thesis
    using unknown_sender_stops_thread [of 5 "demo_p2p 7" "[''x'']" 9 "[]"] by simp
qed

section \<open>The two threads and the digests\<close>

text \<open>
  C19. The mutex of the digests excludes: the two threads never both hold it, and the p2p thread gets past
  its wait only after the database thread has finished its first update.
\<close>

theorem sync_excludes:
  assumes "sync_reach s"
  shows "\<not> (db_holds (db_at s) \<and> p2p_holds (p2p_at s)) \<and>
    (p2p_at s \<in> {P2pUnlock, P2pRead} \<longrightarrow> upd_done s > 0)"
  using sync_reach_inv [OF assms] by (auto simp: sync_inv_def)

lemma sync_excludes_witness:
  "\<not> p2p_holds (p2p_at (race_state [''h''])) \<and> upd_done (race_state [''h'']) > 0"
  using sync_excludes [OF race_state_reachable [of "[''h'']"]]
  by (simp add: race_state_def db_holds_def p2p_holds_def)

text \<open>
  C20. No notification is lost: when the p2p thread sleeps and has not been notified, the flag is off or
  the notification is the database thread's next step, and the database thread can take a step.
\<close>

theorem no_lost_notification:
  assumes "sync_reach s" and "p2p_at s = P2pWait" and "\<not> woken s"
  shows "(hashes_access s \<longrightarrow> db_at s = DbNotify) \<and> (\<exists>s'. db_sync s s')"
proof -
  have inv: "sync_inv s" using assms(1) by (rule sync_reach_inv)
  then have "mtx s \<noteq> Some P2pThread" using assms(2) by (simp add: sync_inv_def p2p_holds_def)
  then have "db_at s \<noteq> DbIdle \<or> mtx s = None"
    using inv by (cases "mtx s") (auto simp: sync_inv_def db_holds_def intro: thread_name.exhaust)
  then show ?thesis using db_sync_progress inv assms by (auto simp: sync_inv_def)
qed

lemma no_lost_notification_witness:
  "\<exists>s. sync_reach s \<and> p2p_at s = P2pWait \<and> (\<exists>s'. db_sync s s')"
proof -
  let ?s1 = "sync_init\<lparr>mtx := Some P2pThread, p2p_at := P2pTest\<rparr>"
  let ?s2 = "?s1\<lparr>mtx := None, woken := False, p2p_at := P2pWait\<rparr>"
  have "sync_reach ?s1" by (rule by_p2p [OF init p2p_lock]) (simp_all add: sync_init_def)
  then have r: "sync_reach ?s2" by (rule by_p2p [OF _ p2p_sleep]) (simp_all add: sync_init_def)
  from no_lost_notification [OF r] have "\<exists>s'. db_sync ?s2 s'" by simp
  with r show ?thesis by (intro exI [of _ ?s2]) simp
qed

text \<open>
  C21. The reader is not excluded from the updates after the first: a state is reachable in which the p2p
  thread is reading the digests while the database thread has cleared them and is filling them again.
\<close>

theorem digests_read_during_update:
  "\<exists>s. sync_reach s \<and> p2p_at s = P2pRead \<and> db_at s = DbInsert hs \<and> hash_set s = []"
  using race_state_reachable [of hs] by (intro exI [of _ "race_state hs"]) (simp add: race_state_def)

text \<open>
  C22. The update, statement by statement, implements the update of the database thread's model. Once the
  database thread has locked the mutex with the listing of its database in hand, then however the steps
  of the two threads interleave from there, whenever the database thread is past its unlock and has
  ended this one update, the shared set is what \<open>db_update_hashes\<close> computes, the flag is on and the thread
  does not hold the mutex; and run on its own the update gets there and leaves the mutex free.
\<close>

theorem update_refines:
  assumes "db_at s = DbIdle" and "mtx s = None"
    and "s1 = s\<lparr>mtx := Some DbThread, db_at := DbLocked (db_list_hash E db_name False (ds_db d))\<rparr>"
  shows "db_sync s s1 \<and>
    (\<forall>s'. sync_step\<^sup>*\<^sup>* s1 s' \<longrightarrow> db_at s' = DbIdle \<longrightarrow> upd_done s' = Suc (upd_done s) \<longrightarrow>
       hash_set s' = my_hashes (db_update_hashes E db_name d) \<and> hashes_access s' \<and> mtx s' \<noteq> Some DbThread) \<and>
    (\<exists>s'. db_sync\<^sup>*\<^sup>* s1 s' \<and> db_at s' = DbIdle \<and> upd_done s' = Suc (upd_done s) \<and> mtx s' = None)"
proof (intro conjI allI impI)
  let ?hs = "db_list_hash E db_name False (ds_db d)"
  show "db_sync s s1" unfolding assms(3) by (rule db_lock [OF assms(1,2)])
  have l: "db_at s1 = DbLocked ?hs" "upd_done s1 = upd_done s" by (simp_all add: assms(3))
  show "\<exists>s'. db_sync\<^sup>*\<^sup>* s1 s' \<and> db_at s' = DbIdle \<and> upd_done s' = Suc (upd_done s) \<and> mtx s' = None"
    using update_ends [OF l(1)] l(2) by metis
  fix s' assume r: "sync_step\<^sup>*\<^sup>* s1 s'" "db_at s' = DbIdle" "upd_done s' = Suc (upd_done s)"
  note u = update_leaves [OF l(1) r(1,2) r(3) [folded l(2)]]
  show "hash_set s' = my_hashes (db_update_hashes E db_name d)" using u(1) by (simp add: db_update_hashes_def)
  show "hashes_access s'" "mtx s' \<noteq> Some DbThread" by (rule u)+
qed

lemma update_refines_witness:
  "\<exists>s'. db_sync\<^sup>*\<^sup>* sync_init s' \<and> hash_set s' = [ref_sha demo_entry] \<and> hashes_access s'"
proof -
  let ?d = "\<lparr>ds_db = demo_db, my_hashes = []\<rparr>" and ?E = "demo_env True"
  let ?s1 = "sync_init\<lparr>mtx := Some DbThread, db_at := DbLocked (db_list_hash ?E ''d'' False (ds_db ?d))\<rparr>"
  have u: "my_hashes (db_update_hashes ?E ''d'' ?d) = [ref_sha demo_entry]" by code_simp
  have i: "db_at sync_init = DbIdle" "mtx sync_init = None" by (simp_all add: sync_init_def)
  note ref = update_refines [OF i refl, of ?E "''d''" ?d]
  from ref obtain s' where s': "db_sync sync_init ?s1" "db_sync\<^sup>*\<^sup>* ?s1 s'" "db_at s' = DbIdle"
    "upd_done s' = Suc (upd_done sync_init)" by blast
  have "sync_step\<^sup>*\<^sup>* ?s1 s'"
    using s'(2) by (rule rtranclp_mono [THEN predicate2D, rotated]) (auto simp: sync_step_def)
  then have "hash_set s' = [ref_sha demo_entry]" "hashes_access s'" using ref s'(3,4) u by simp_all
  with s'(1,2) show ?thesis by (meson converse_rtranclp_into_rtranclp)
qed

section \<open>Requests and ports\<close>

text \<open>
  C27. A client's request as a whole: the answer is the first non-empty reply if fewer than five
  time-outs come before it, and otherwise "No response from server" after the fifth time-out; an
  empty reply counts as none; the request is sent once and once more for every time-out survived.
\<close>

theorem request_outcome:
  "pirate_send evs =
     (case first_reply evs of
        Some (r, n) \<Rightarrow>
          Some (if n < REQUEST_RETRIES then (r, 1 + n) else (''No response from server'', REQUEST_RETRIES))
      | None \<Rightarrow>
          if REQUEST_RETRIES \<le> timeouts evs then Some (''No response from server'', REQUEST_RETRIES)
          else None)"
  by (rule pirate_send_spec)

text \<open>
  C28. When no port is free the search never gives up: it runs until the int overflows, which is
  undefined, and the message that reports the failure is never reached.
\<close>

theorem bind_overflows:
  assumes "0 < rng" and "\<forall>q\<ge>port. \<not> bindable q"
  shows "try_bind bindable port rng False = Inl Undefined"
  using try_bind_loop_none [OF assms] by (simp add: try_bind_def)

lemma bind_overflows_witness: "try_bind (\<lambda>p. False) 65090 10 False = Inl Undefined"
  by (rule bind_overflows) simp_all

section \<open>Ads and text\<close>

text \<open>
  C29. An ad survives the trip through its text: reading back what was written gives the same members, each
  string cut at its first NUL and the price as the JSON library reads it back, and leaves the
  digest member alone.
\<close>

theorem ad_round_trip:
  assumes "json_laws J rr" and "dbl_finite (m_price d)"
  shows "JSONBase_deserialize J (Document_serialize J d) d0
    = Inr (True, (doc_norm d)\<lparr>m_price := rr (m_price d), m_sha := m_sha d0\<rparr>)"
  by (rule serialize_deserialize [OF assms])

lemma ad_round_trip_witness:
  "\<exists>d. JSONBase_deserialize ref_json (Document_serialize ref_json demo_doc) demo_doc = Inr (True, d) \<and>
     m_id d = 7 \<and> m_title d = ''cat''"
  using ad_round_trip [OF ref_json_laws demo_finite, of demo_doc]
  by (simp add: doc_norm_def demo_doc_def Document_new_def cstr_def NUL_def)

text \<open>
  C30. An author is cut at its first NUL: the author read back from a stored ad is the author it was
  stored with only if that holds no NUL. A user's digest that holds one is never found equal again,
  so the user cannot remove the ad.
\<close>

theorem author_cut_at_NUL:
  assumes "json_laws (e_json E) rr" and "dbl_finite (m_price d)"
  shows "author_of E (client_entry E author d) = Some author \<longleftrightarrow> NUL \<notin> set author"
  using author_of_client_entry [OF assms, of author] by (simp add: cstr_fixpoint)

lemma author_cut_at_NUL_witness:
  "author_of (demo_env True) (client_entry (demo_env True) [CHR ''a'', CHR 0x00, CHR ''b''] demo_doc)
     \<noteq> Some [CHR ''a'', CHR 0x00, CHR ''b'']"
  using author_cut_at_NUL [of "demo_env True" "\<lambda>p. p" demo_doc "[CHR ''a'', CHR 0x00, CHR ''b'']"] ref_json_laws
  by (simp add: NUL_def)

text \<open>
  C31. The user a client names reaches the daemon: a command that changes the database is sent with the
  digest of the wallet's address, and the database thread takes from the message the same digest
  and the same command, unless the digest itself holds the mark "AUTH:".
\<close>

theorem user_reaches_daemon:
  assumes "needs_auth (trim cmd)" and "rfind_sub ''AUTH:'' (c_sha C (w_primary_address (c_wallet C) w)) = None"
  shows "\<exists>m. auth_cmd C (trim cmd) (Some w) = Some m \<and>
    split_auth m = Inr (c_sha C (w_primary_address (c_wallet C) w), trim cmd)"
  using assms split_auth_append by (auto simp: auth_cmd_def)

definition demo_cli :: "string cli_env" where
  "demo_cli = \<lparr> c_build = demo_build, c_dbg = True, c_sha = ref_sha, c_key_ok = \<lambda>k. True, c_reach = \<lambda>h. h \<noteq> [],
     c_wallet = demo_wallets \<rparr>"

lemma user_reaches_daemon_witness:
  "\<exists>m. auth_cmd demo_cli (trim '' db add json ads '') (Some ''carol'') = Some m \<and>
     split_auth m = Inr (ref_sha ''carol'', ''db add json ads'')"
proof -
  have "needs_auth (trim '' db add json ads '')"
    and "rfind_sub ''AUTH:'' (c_sha demo_cli (w_primary_address (c_wallet demo_cli) ''carol'')) = None"
    and "trim '' db add json ads '' = ''db add json ads''"
    and "c_sha demo_cli (w_primary_address (c_wallet demo_cli) ''carol'') = ref_sha ''carol''" by code_simp+
  then show ?thesis
    using user_reaches_daemon [of "'' db add json ads ''" demo_cli "''carol''"] by simp
qed

text \<open>
  C32. Which requests stop a daemon: on a database that does not fail, exactly these end the database thread:
  an empty message, one whose mark "AUTH:" the thread cannot cut off, an addition from a file with an
  ad that the accessors cannot read, and in a debug build a change of the database without an author.
  A message that starts with the mark is one of them: the erase position is before the start, and
  nothing catches std::out_of_range.
\<close>

theorem client_stops_daemon:
  assumes "db_written_inv E rr view db_name s" and "no_faults E"
  shows "((\<exists>e. db_client_op E db_name peers msg s = Inl e) \<longleftrightarrow> \<not> safe_client E msg) \<and>
    (rfind_sub ''AUTH:'' user = None \<longrightarrow>
       db_client_op E db_name peers ((''AUTH:'' @ user) # parts) s = Inl StdOutOfRange)"
proof -
  have "\<exists>e. db_client_op E db_name peers msg s = Inl e" if "\<not> safe_client E msg"
    using db_client_op_stops [OF assms(2) that] .
  moreover have "\<exists>r. db_client_op E db_name peers msg s = Inr r" if "safe_client E msg"
    using db_client_op_total [OF assms that] .
  ultimately show ?thesis using split_auth_front [of user] by (auto simp: db_client_op_def)
qed

lemma client_stops_daemon_witness:
  "\<exists>e r. let s = \<lparr>ds_db = [], my_hashes = []\<rparr> in
     db_client_op (demo_env True) ''d'' [] [''db add json ads''] s = Inl e \<and>
     db_client_op (demo_env False) ''d'' [] [''db add json ads''] s = Inr r \<and>
     db_client_op (demo_env False) ''d'' [] [''AUTH:me''] s = Inl StdOutOfRange"
proof -
  let ?s = "\<lparr>ds_db = [], my_hashes = []\<rparr> :: ref_db db_state"
  have w: "db_written_inv (demo_env dbg) (\<lambda>p. p) map_of ''d'' ?s" for dbg
    using empty_db_ok [of dbg "''d''"]
    by (simp add: db_written_inv_def db_thread_inv_def ads_written_def stored_def entries_def)
  have c: "\<not> safe_client (demo_env True) [''db add json ads'']" "safe_client (demo_env False) [''db add json ads'']"
    "rfind_sub ''AUTH:'' ''me'' = None"
    by code_simp+
  note stops = client_stops_daemon [OF w demo_env_ok(3)]
  obtain e where "db_client_op (demo_env True) ''d'' [] [''db add json ads''] ?s = Inl e"
    using stops [THEN conjunct1, THEN iffD2, OF c(1)] by blast
  moreover obtain r where "db_client_op (demo_env False) ''d'' [] [''db add json ads''] ?s = Inr r"
    using stops [THEN conjunct1, of False "[]" "[''db add json ads'']"] c(2)
    by (cases "db_client_op (demo_env False) ''d'' [] [''db add json ads''] ?s") blast+
  moreover have "db_client_op (demo_env False) ''d'' [] ((''AUTH:'' @ ''me'') # []) ?s = Inl StdOutOfRange"
    using stops [THEN conjunct2, THEN mp, OF c(3)] .
  ultimately show ?thesis unfolding Let_def append.simps by blast
qed

text \<open>
  C33. An ad written to a file and read back is a list of that one ad, with the changes of the trip
  through its text.
\<close>

theorem ad_file_round_trip:
  assumes "json_laws J rr" and "dbl_finite (m_price d)" and "writable f"
  shows "deserializeFromFile J (snd (serializeToFile J writable (doc_json d) f fs)) f []
    = Inr (True, [(doc_norm d)\<lparr>m_price := rr (m_price d), m_sha := m_sha Document_new\<rparr>])"
proof -
  let ?d = "d\<lparr>m_price := rr (m_price d)\<rparr>"
  have "initDocument J (Document_serialize J d) = Some (doc_json ?d)"
    by (rule json_laws_serialize(3) [OF assms(1,2)])
  from Documents_deserialize_single [OF this] assms(3) show ?thesis
    by (simp add: deserializeFromFile_def serializeToFile_def doc_norm_def)
qed

lemma ad_file_round_trip_witness:
  "\<exists>d. deserializeFromFile ref_json (snd (serializeToFile ref_json (\<lambda>f. True) (doc_json demo_doc) ''x'' Map.empty))
      ''x'' [] = Inr (True, [d]) \<and> m_title d = ''cat''"
  using ad_file_round_trip [OF ref_json_laws demo_finite, of "\<lambda>f. True" "''x''" Map.empty]
  by (simp add: doc_norm_def demo_doc_def Document_new_def cstr_def NUL_def)

section \<open>The client\<close>

text \<open>
  C34. Changes of the database are signed: in any session of the client, every request that it takes for
  a change of the database ends with the mark "AUTH:" and the digest of the address of a wallet.
\<close>

theorem client_signs_changes:
  assumes "cli_inv s" and "cli_session C version lines connected s = Inr (s', out)"
    and "Request m h \<in> set out" and "needs_auth m"
  shows "signed_request C m"
  using cli_session_good [OF assms(1-3)] assms(4) by simp

definition demo_cli_state :: "string cli_state" where
  "demo_cli_state = cli_state_new [] \<lparr>public_key = [], secret_key = []\<rparr>"

lemma client_signs_changes_witness:
  "\<exists>s out m. cli_session demo_cli ''v'' [(''db add json ads'', [], False), (''new'', [], False),
       (''db add json ads'', [Timeout, Reply ''Added 1 entries''], False), (''q'', [], False)] False
       demo_cli_state = Inr (s, out) \<and> Request m ''localhost:55090'' \<in> set out \<and> signed_request demo_cli m"
proof -
  let ?m = "''db add json ads AUTH:'' @ ref_sha ''w''"
  define r where "r = cli_session demo_cli ''v'' [(''db add json ads'', [], False), (''new'', [], False),
       (''db add json ads'', [Timeout, Reply ''Added 1 entries''], False), (''q'', [], False)] False
       demo_cli_state"
  have "case r of Inl e \<Rightarrow> False | Inr (s, out) \<Rightarrow> Request ?m ''localhost:55090'' \<in> set out"
    unfolding r_def by code_simp
  then obtain s out where r: "r = Inr (s, out)" "Request ?m ''localhost:55090'' \<in> set out"
    by (cases r) auto
  have "cli_inv demo_cli_state" "needs_auth ?m" by code_simp+
  from client_signs_changes [OF this(1) r(1) [unfolded r_def] r(2) this(2)] r show ?thesis
    unfolding r_def by blast
qed

text \<open>
  C35. The encryption a client announces is in force only if ZeroMQ takes its key. A client started with
  --rpc-secure always prints that its connection is secure. In the session that follows, as long as
  the server is not changed, a socket has the server's key exactly if there is one and ZeroMQ accepts it;
  otherwise every request goes over a socket without any key, as plain text, and nothing is said.
\<close>

theorem announced_encryption:
  assumes "cli_start C generated fs argv opts left_args = Inr (acts, Inr s)" and "CliRpcSecure \<in> set opts"
    and "cli_session C version lines connected s = Inr (s', out)"
    and "\<forall>ev\<in>set lines. \<not> chars_match ''server'' (fst ev)" and "OpenSocket so \<in> set out"
  shows "(\<exists>own. Out (secure_text own) \<in> set acts) \<and>
    (SetServerKey (server_key s) \<in> set so \<longleftrightarrow> server_key s \<noteq> [] \<and> c_key_ok C (server_key s)) \<and>
    (\<not> (server_key s \<noteq> [] \<and> c_key_ok C (server_key s)) \<longrightarrow>
       (\<exists>host. so = [ConnectTo (''tcp://'' @ host), SetLinger 0]))"
proof -
  from session_sockets [OF assms(3,5,4)] obtain host where
    "daemon_socket (c_key_ok C) (c_reach C) host (server_key s) (client_keys s) = Inr so" by blast
  from daemon_socket_keys [OF this] cli_start_announces [OF assms(1,2)] show ?thesis by blast
qed

definition demo_secure_cli :: "string cli_env" where
  "demo_secure_cli = demo_user\<lparr>c_key_ok := \<lambda>k. length k = 40\<rparr>"

lemma announced_encryption_witness:
  "\<exists>acts s s' out so host. cli_start demo_secure_cli \<lparr>public_key = ''g'', secret_key = ''h''\<rparr> Map.empty [''piac-cli'']
       [CliRpcSecure, CliRpcServerPublicKey ''short''] [] = Inr (acts, Inr s) \<and>
     cli_session demo_secure_cli ''v'' [(''db list'', [Reply ''none''], False)] False s = Inr (s', out) \<and>
     (\<exists>own. Out (secure_text own) \<in> set acts) \<and>
     OpenSocket so \<in> set out \<and> so = [ConnectTo (''tcp://'' @ host), SetLinger 0]"
proof -
  define x where "x = cli_start demo_secure_cli \<lparr>public_key = ''g'', secret_key = ''h''\<rparr> Map.empty [''piac-cli'']
       [CliRpcSecure, CliRpcServerPublicKey ''short''] []"
  have "case x of Inr (acts, Inr s) \<Rightarrow> server_key s = ''short'' \<and>
      (case cli_session demo_secure_cli ''v'' [(''db list'', [Reply ''none''], False)] False s of
         Inl e \<Rightarrow> False | Inr (s', out) \<Rightarrow> OpenSocket [ConnectTo ''tcp://localhost:55090'', SetLinger 0] \<in> set out) | _ \<Rightarrow> False"
    unfolding x_def by code_simp
  then obtain acts s where s: "x = Inr (acts, Inr s)" "server_key s = ''short''"
    "case cli_session demo_secure_cli ''v'' [(''db list'', [Reply ''none''], False)] False s of
       Inl e \<Rightarrow> False | Inr (s', out) \<Rightarrow> OpenSocket [ConnectTo ''tcp://localhost:55090'', SetLinger 0] \<in> set out"
    by (rule prog_evaluated) blast
  then obtain s' out where r: "cli_session demo_secure_cli ''v'' [(''db list'', [Reply ''none''], False)] False s = Inr (s', out)"
    "OpenSocket [ConnectTo ''tcp://localhost:55090'', SetLinger 0] \<in> set out" by (auto split: sum.splits)
  have "\<not> chars_match ''server'' ''db list''" by code_simp
  then have "\<forall>ev\<in>set [(''db list'', [Reply ''none''], False)]. \<not> chars_match ''server'' (fst ev)" by simp
  from announced_encryption [OF s(1) [unfolded x_def] _ r(1) this r(2)] s(2)
  have "\<exists>own. Out (secure_text own) \<in> set acts"
    "\<exists>host. [ConnectTo ''tcp://localhost:55090'', SetLinger 0] = [ConnectTo (''tcp://'' @ host), SetLinger 0]"
    by (simp_all add: demo_secure_cli_def)
  with s(1) r show ?thesis unfolding x_def by blast
qed

section \<open>The start of a daemon\<close>

text \<open>
  C39. Whom a daemon lets in. It prints that only authenticated connections are accepted exactly if the
  channel is secured, both files of its own keys hold a key and the file of clients lists one; and
  then it uses these keys and lets in the clients with a listed key, from its own machine only
  (127.0.0.1). Without the list it uses its own keys, and without its own keys generated ones, and
  on such a secured channel it lets in every client from its own machine, and nobody from elsewhere,
  although it prints that all client connections are accepted. An open channel takes every client of
  its own machine.
\<close>

theorem rpc_admission:
  assumes "daemon_main B E W argv opts left_args = Inr (acts, Inr r)"
    and "c = run_conf r" and "pub = key_in (w_files W) (rpc_server_public_key_file c)"
    and "sec = key_in (w_files W) (rpc_server_secret_key_file c)"
    and "listed = clients_in (w_files W) (rpc_authorized_clients_file c)"
  shows "(Out ironhouse_text \<in> set acts \<longleftrightarrow> rpc_secure c \<and> pub \<noteq> [] \<and> sec \<noteq> [] \<and> listed \<noteq> []) \<and>
    (rpc_secure c \<longrightarrow>
       rpc_server_keys (run_rpc r) =
         (if pub = [] \<or> sec = [] then w_generated W else \<lparr>public_key = pub, secret_key = sec\<rparr>) \<and>
       (Out ironhouse_text \<notin> set acts \<longrightarrow> Out stonehouse_text \<in> set acts) \<and>
       (admits zap_null r addr client \<longleftrightarrow>
          addr = ''127.0.0.1'' \<and> (Out ironhouse_text \<in> set acts \<longrightarrow> client \<in> set listed))) \<and>
    (\<not> rpc_secure c \<longrightarrow> addr = ''127.0.0.1'' \<longrightarrow> admits zap_null r addr client)"
proof (rule daemon_main_rpc [OF assms(1)])
  fix acts'
  assume r: "setup_rpc (e_dbg E) (w_writable W) (w_generated W) (w_files W) (run_conf r) = Inr (acts', Inr (run_rpc r))"
    and d: "run_domains r = curve_domains (rpc_secure (run_conf r)) (rpc_authorized_clients (run_rpc r))"
  note out = daemon_main_announces [OF assms(1)]
  show ?thesis
  proof (cases "rpc_secure c")
    case True
    note S = setup_rpc_files [OF r [folded assms(2)] True assms(3-5)]
    have "Out stonehouse_text \<in> set acts" if "\<not> rpc_ironhouse (run_rpc r)"
      using that True assms(2) by (simp add: daemon_main_prints [OF assms(1)] echo_rpc_def)
    then show ?thesis using out d True S assms(2) by (auto simp: admits_def curve_domains_def rpc_allowed_def)
  qed (use out assms(2) in \<open>simp add: admits_def rpc_allowed_def\<close>)
qed

definition demo_keys :: files where
  "demo_keys = [''p'' \<mapsto> replicate 40 (CHR ''P''), ''s'' \<mapsto> replicate 40 (CHR ''S''),
     ''c'' \<mapsto> replicate 40 (CHR ''A'') @ '' short'']"

lemma rpc_admission_witness:
  "\<exists>acts r. daemon_main demo_build (demo_env True) (demo_world demo_keys) [''piac-daemon'']
       [ArgRpcSecure, ArgRpcServerPublicKeyFile ''p'', ArgRpcServerSecretKeyFile ''s'', ArgRpcAuthorizedClientsFile ''c''] []
       = Inr (acts, Inr r) \<and>
     Out ironhouse_text \<in> set acts \<and> admits True r ''127.0.0.1'' (replicate 40 (CHR ''A'')) \<and>
     \<not> admits True r ''127.0.0.1'' ''short'' \<and> \<not> admits True r ''10.0.0.1'' (replicate 40 (CHR ''A''))"
proof -
  define x where "x = daemon_main demo_build (demo_env True) (demo_world demo_keys) [''piac-daemon'']
       [ArgRpcSecure, ArgRpcServerPublicKeyFile ''p'', ArgRpcServerSecretKeyFile ''s'', ArgRpcAuthorizedClientsFile ''c''] []"
  have "case x of Inr (acts, Inr r) \<Rightarrow> rpc_secure (run_conf r) \<and> rpc_server_public_key_file (run_conf r) = ''p'' \<and>
      rpc_server_secret_key_file (run_conf r) = ''s'' \<and> rpc_authorized_clients_file (run_conf r) = ''c'' | _ \<Rightarrow> False"
    unfolding x_def by code_simp
  then obtain acts r where r: "x = Inr (acts, Inr r)" "rpc_secure (run_conf r)"
    "rpc_server_public_key_file (run_conf r) = ''p''" "rpc_server_secret_key_file (run_conf r) = ''s''"
    "rpc_authorized_clients_file (run_conf r) = ''c''" by (rule prog_evaluated) blast
  have W: "w_files (demo_world demo_keys) = demo_keys" by (simp add: demo_world_def)
  have k: "key_in demo_keys ''p'' \<noteq> []" "key_in demo_keys ''s'' \<noteq> []"
    "clients_in demo_keys ''c'' = [replicate 40 (CHR ''A'')]" by code_simp+
  have "''short'' \<noteq> replicate 40 (CHR ''A'')" by (rule notI) (drule arg_cong [of _ _ length], simp)
  then show ?thesis
    using r k rpc_admission [OF r(1) [unfolded x_def] refl refl refl refl, of True "''127.0.0.1''" "replicate 40 (CHR ''A'')"]
      rpc_admission [OF r(1) [unfolded x_def] refl refl refl refl, of True "''127.0.0.1''" "''short''"]
      rpc_admission [OF r(1) [unfolded x_def] refl refl refl refl, of True "''10.0.0.1''" "replicate 40 (CHR ''A'')"]
    unfolding x_def W by auto
qed

text \<open>
  C40. Daemons on one machine find each other: a daemon whose ports are not strict (neither --p2p-bind-port nor
  --rpc-bind-port was given, so that its port is the default one), whose default port and the ports up
  to q are taken and q is free, within the range of int, binds q. If it can connect to the peers it
  was given and to the daemons on all those ports, it starts with them as its peers, and with no others.
\<close>

theorem daemons_find_each_other:
  assumes "\<not> use_strict_ports c" and "conf_p2p_port c = default_p2p_port c"
    and "default_p2p_port c \<le> q" and "q + 10 \<le> INT_MAX" and "bindable q"
    and "\<forall>p\<in>{default_p2p_port c..<q}. \<not> bindable p"
    and "\<forall>a\<in>set (init_peers c) \<union> own_addr ` {default_p2p_port c..<q}. reach a"
  shows "\<exists>s out. start_p2p bindable reach c = Inr (q, s, out) \<and>
    set (my_peers s) = (set (init_peers c) - {own_addr q}) \<union> own_addr ` {default_p2p_port c..<q}"
proof -
  have b: "try_bind bindable (conf_p2p_port c) 10 False = Inr (Bound q)"
    using assms try_bind_loop_found [of 10 "default_p2p_port c" q bindable] by (simp add: try_bind_def)
  obtain s out where i: "p2p_thread_init reach (default_p2p_port c) q (uset_of (init_peers c)) = Inr (s, out)"
    using p2p_thread_init_total [of "uset_of (init_peers c)" "default_p2p_port c" q reach] assms(7) by (metis set_uset_of)
  from p2p_thread_init_told(3) [OF _ i] have
    "set (my_peers s) = (set (init_peers c) - {own_addr q}) \<union> own_addr ` {default_p2p_port c..<q}"
    by simp
  with b i assms(1) show ?thesis by (simp add: start_p2p_def)
qed

lemma daemons_find_each_other_witness:
  "\<exists>s out. start_p2p (\<lambda>p. p = 65092) (\<lambda>a. a \<noteq> ''nowhere'') (daemon_defaults demo_build) = Inr (65092, s, out) \<and>
     own_addr 65090 \<in> set (my_peers s)"
  using daemons_find_each_other [of "daemon_defaults demo_build" 65092 "\<lambda>p. p = 65092" "\<lambda>a. a \<noteq> ''nowhere''"]
  by (auto simp: daemon_defaults_def own_addr_def)

end
